(* ===== verification/Prelude.thy ===== *)
theory Prelude
  imports Main "HOL-Library.Word" "HOL-Library.Multiset"
begin

text \<open>
  Shared vocabulary of the development: the collections of rewrite rules the
  component proofs draw on, the result type of Go functions, 64-bit integer
  arithmetic, and the generic lemmas on lists and maps used by more than one
  component.  Nothing here is specific to one package of the program.
\<close>

named_theorems go_defs \<open>definitions of small helpers that are always unfolded\<close>
named_theorems frame \<open>which parts of the state an operation leaves alone\<close>

section \<open>Results of Go functions\<close>

text \<open>
  A Go function that returns \<open>(value, error)\<close> yields \<open>Ok value\<close> or \<open>Err message\<close>.
  A third constructor keeps run-time panics (index out of range, nil
  dereference) apart from returned errors.
\<close>

datatype 'a go = Ok 'a | Err string | Panic

fun bind_go :: "'a go \<Rightarrow> ('a \<Rightarrow> 'b go) \<Rightarrow> 'b go" where
  "bind_go (Ok a) f = f a"
| "bind_go (Err e) f = Err e"
| "bind_go Panic f = Panic"

definition is_ok :: "'a go \<Rightarrow> bool" where
  "is_ok r = (case r of Ok _ \<Rightarrow> True | _ \<Rightarrow> False)"

lemma is_ok_simps [simp]: "is_ok (Ok a)" "\<not> is_ok (Err e)" "\<not> is_ok Panic"
  by (simp_all add: is_ok_def)

lemma bind_go_eq_Ok [simp]: "bind_go r f = Ok b \<longleftrightarrow> (\<exists>a. r = Ok a \<and> f a = Ok b)"
  by (cases r) auto

lemma bind_go_eq_Panic [simp]:
  "bind_go r f = Panic \<longleftrightarrow> r = Panic \<or> (\<exists>a. r = Ok a \<and> f a = Panic)"
  by (cases r) auto

section \<open>64-bit integers\<close>

text \<open>
  Go's \<open>int\<close>, \<open>int64\<close> and \<open>time.Duration\<close> are 64-bit two's complement.  A value is
  kept as the \<open>int\<close> it denotes; \<open>wrap64\<close> is applied where the source's
  arithmetic can leave the range.
\<close>

definition wrap64 :: "int \<Rightarrow> int" where
  "wrap64 x = sint (word_of_int x :: 64 word)"

definition max_int64 :: int where "max_int64 = 9223372036854775807"
definition min_int64 :: int where "min_int64 = - 9223372036854775808"

definition in_int64 :: "int \<Rightarrow> bool" where
  "in_int64 x \<longleftrightarrow> min_int64 \<le> x \<and> x \<le> max_int64"

lemmas int64_defs = max_int64_def min_int64_def in_int64_def

lemma wrap64_id: "in_int64 x \<Longrightarrow> wrap64 x = x"
  by (simp add: wrap64_def int64_defs sint_sbintrunc' signed_take_bit_int_eq_self)

lemma wrap64_in: "in_int64 (wrap64 x)"
  using sint_range_size [of "word_of_int x :: 64 word"]
  by (simp add: wrap64_def int64_defs word_size)

section \<open>Lists, options and maps\<close>

lemma mset_eq_in_set: "mset xs = mset ys \<Longrightarrow> x \<in> set xs \<longleftrightarrow> x \<in> set ys"
  by (metis set_mset_mset)

lemma mset_eq_distinct: "mset xs = mset ys \<Longrightarrow> distinct xs \<longleftrightarrow> distinct ys"
  by (rule mset_eq_imp_distinct_iff)

lemma map_of_map_filter_key:
  "map_of (map (\<lambda>k. (k, f k)) ks) k = (if k \<in> set ks then Some (f k) else None)"
  by (induction ks) auto

end
