(* ===== verification/GoStrings.thy ===== *)
theory GoStrings
  imports Prelude
begin

text \<open>
  The operations of Go's \<open>strings\<close> and \<open>strconv\<close> packages the program calls.  A Go
  string is a sequence of bytes, here an Isabelle \<open>string\<close> (a \<open>char\<close> is a byte).
  Case mapping and white space follow Go's tables on ASCII bytes, the alphabet
  of host names in presentation form; bytes from 128 up are left alone.
\<close>

section \<open>Prefixes and suffixes\<close>

definition HasPrefix :: "string \<Rightarrow> string \<Rightarrow> bool" where
  "HasPrefix s p \<longleftrightarrow> length p \<le> length s \<and> take (length p) s = p"

definition HasSuffix :: "string \<Rightarrow> string \<Rightarrow> bool" where
  "HasSuffix s p \<longleftrightarrow> length p \<le> length s \<and> drop (length s - length p) s = p"

definition TrimSuffix :: "string \<Rightarrow> string \<Rightarrow> string" where
  "TrimSuffix s p = (if HasSuffix s p then take (length s - length p) s else s)"

text \<open>\<open>CutPrefix\<close> and \<open>CutSuffix\<close> return \<open>(rest, true)\<close>, here \<open>Some rest\<close>.\<close>

definition CutPrefix :: "string \<Rightarrow> string \<Rightarrow> string option" where
  "CutPrefix s p = (if HasPrefix s p then Some (drop (length p) s) else None)"

definition CutSuffix :: "string \<Rightarrow> string \<Rightarrow> string option" where
  "CutSuffix s p = (if HasSuffix s p then Some (take (length s - length p) s) else None)"

lemma HasPrefix_iff: "HasPrefix s p \<longleftrightarrow> (\<exists>r. s = p @ r)"
  by (metis HasPrefix_def append_eq_conv_conj append_take_drop_id le_add1 length_append)

lemma HasSuffix_iff: "HasSuffix s p \<longleftrightarrow> (\<exists>r. s = r @ p)"
proof
  assume "HasSuffix s p"
  then show "\<exists>r. s = r @ p"
    by (metis HasSuffix_def append_take_drop_id)
qed (auto simp: HasSuffix_def)

lemma HasPrefix_append [simp]: "HasPrefix (p @ s) p"
  by (auto simp: HasPrefix_iff)

lemma HasSuffix_append [simp]: "HasSuffix (s @ p) p"
  by (auto simp: HasSuffix_iff)

lemma HasSuffix_single: "HasSuffix s [c] \<longleftrightarrow> s \<noteq> [] \<and> last s = c"
  by (cases s rule: rev_cases) (auto simp: HasSuffix_iff)

lemma TrimSuffix_append [simp]: "TrimSuffix (s @ p) p = s"
  by (simp add: TrimSuffix_def)

lemma TrimSuffix_id [simp]: "\<not> HasSuffix s p \<Longrightarrow> TrimSuffix s p = s"
  by (simp add: TrimSuffix_def)

lemma TrimSuffix_cases:
  obtains "HasSuffix s p" "s = TrimSuffix s p @ p" | "\<not> HasSuffix s p" "TrimSuffix s p = s"
  by (metis HasSuffix_iff TrimSuffix_append TrimSuffix_id)

lemma CutPrefix_append [simp]: "CutPrefix (p @ s) p = Some s"
  by (simp add: CutPrefix_def)

lemma CutPrefix_eq_Some: "CutPrefix s p = Some r \<longleftrightarrow> s = p @ r"
  by (metis CutPrefix_append CutPrefix_def HasPrefix_iff option.distinct(1) option.inject)

lemma CutPrefix_eq_None: "CutPrefix s p = None \<longleftrightarrow> \<not> HasPrefix s p"
  by (simp add: CutPrefix_def)

lemma CutSuffix_append [simp]: "CutSuffix (s @ p) p = Some s"
  by (simp add: CutSuffix_def)

lemma CutSuffix_eq_Some: "CutSuffix s p = Some r \<longleftrightarrow> s = r @ p"
  by (metis CutSuffix_append CutSuffix_def HasSuffix_iff option.distinct(1) option.inject)

lemma CutSuffix_eq_None: "CutSuffix s p = None \<longleftrightarrow> \<not> HasSuffix s p"
  by (simp add: CutSuffix_def)

section \<open>Case mapping\<close>

definition lower_char :: "char \<Rightarrow> char" where
  "lower_char c = (let n = (of_char c :: nat) in if 65 \<le> n \<and> n \<le> 90 then char_of (n + 32) else c)"

definition upper_char :: "char \<Rightarrow> char" where
  "upper_char c = (let n = (of_char c :: nat) in if 97 \<le> n \<and> n \<le> 122 then char_of (n - 32) else c)"

definition ToLower :: "string \<Rightarrow> string" where
  "ToLower s = map lower_char s"

definition ToUpper :: "string \<Rightarrow> string" where
  "ToUpper s = map upper_char s"

lemma of_char_less [simp]: "(of_char (c :: char) :: nat) < 256"
  using range_nat_of_char by auto

lemma of_char_lower_char:
  "(of_char (lower_char c) :: nat) =
     (if 65 \<le> (of_char c :: nat) \<and> (of_char c :: nat) \<le> 90 then of_char c + 32 else of_char c)"
  by (auto simp: lower_char_def Let_def)

lemma of_char_upper_char:
  "(of_char (upper_char c) :: nat) =
     (if 97 \<le> (of_char c :: nat) \<and> (of_char c :: nat) \<le> 122 then of_char c - 32 else of_char c)"
  by (auto simp: upper_char_def Let_def)

lemma char_eq_of_char: "c = d \<longleftrightarrow> (of_char c :: nat) = of_char d"
  by (metis char_of_char)

lemma lower_char_idem [simp]: "lower_char (lower_char c) = lower_char c"
  unfolding char_eq_of_char of_char_lower_char by simp

lemma upper_char_idem [simp]: "upper_char (upper_char c) = upper_char c"
  unfolding char_eq_of_char of_char_upper_char by (auto split: if_splits)

lemma upper_lower_char [simp]: "upper_char (lower_char c) = upper_char c"
  unfolding char_eq_of_char of_char_upper_char of_char_lower_char by simp

lemma lower_char_fixed:
  "\<not> (65 \<le> (of_char d :: nat) \<and> (of_char d :: nat) \<le> 122) \<Longrightarrow> lower_char c = d \<longleftrightarrow> c = d"
  proof -
  assume d: "\<not> (65 \<le> (of_char d :: nat) \<and> (of_char d :: nat) \<le> 122)"
  have "(of_char (lower_char c) :: nat) = of_char d \<longleftrightarrow> (of_char c :: nat) = of_char d"
    using d by (auto simp: of_char_lower_char)
  then show ?thesis by (simp only: char_eq_of_char)
qed

lemma lower_char_dot [simp]: "lower_char c = CHR ''.'' \<longleftrightarrow> c = CHR ''.''"
  by (rule lower_char_fixed) simp

lemma lower_char_simps [simp]:
  "lower_char CHR ''.'' = CHR ''.''" "lower_char CHR ''*'' = CHR ''*''" "lower_char CHR ''-'' = CHR ''-''"
  by (simp_all add: lower_char_def)

lemma ToLower_simps [simp]:
  "ToLower [] = []" "ToLower (c # s) = lower_char c # ToLower s"
  "ToLower (s @ t) = ToLower s @ ToLower t"
  "length (ToLower s) = length s" "ToLower s = [] \<longleftrightarrow> s = []"
  by (auto simp: ToLower_def)

lemma ToUpper_simps [simp]:
  "ToUpper [] = []" "ToUpper (c # s) = upper_char c # ToUpper s"
  "ToUpper (s @ t) = ToUpper s @ ToUpper t"
  "length (ToUpper s) = length s" "ToUpper s = [] \<longleftrightarrow> s = []"
  by (auto simp: ToUpper_def)

lemma ToLower_idem [simp]: "ToLower (ToLower s) = ToLower s"
  by (simp add: ToLower_def)

lemma ToUpper_ToLower [simp]: "ToUpper (ToLower s) = ToUpper s"
  by (simp add: ToLower_def ToUpper_def)

lemma last_ToLower: "s \<noteq> [] \<Longrightarrow> last (ToLower s) = lower_char (last s)"
  by (simp add: ToLower_def last_map)

lemma dot_in_ToLower [simp]: "CHR ''.'' \<in> set (ToLower s) \<longleftrightarrow> CHR ''.'' \<in> set s"
  by (induction s) (auto simp: eq_commute [of "CHR ''.''"])

lemma HasSuffix_ToLower_dot [simp]: "HasSuffix (ToLower s) ''.'' = HasSuffix s ''.''"
  by (auto simp: HasSuffix_single last_ToLower)

section \<open>White space, splitting and searching\<close>

text \<open>The ASCII white space of \<open>unicode.IsSpace\<close>: tab, newline, VT, FF, CR, space.\<close>

definition isSpace :: "char \<Rightarrow> bool" where
  "isSpace c = (let n = (of_char c :: nat) in n = 32 \<or> (9 \<le> n \<and> n \<le> 13))"

definition TrimLeft :: "(char \<Rightarrow> bool) \<Rightarrow> string \<Rightarrow> string" where
  "TrimLeft P s = dropWhile P s"

definition TrimRight :: "(char \<Rightarrow> bool) \<Rightarrow> string \<Rightarrow> string" where
  "TrimRight P s = rev (dropWhile P (rev s))"

definition TrimSpace :: "string \<Rightarrow> string" where
  "TrimSpace s = TrimRight isSpace (TrimLeft isSpace s)"

text \<open>\<open>strings.Fields\<close>: the maximal runs of non-space characters.\<close>

fun Fields_aux :: "string \<Rightarrow> string \<Rightarrow> string list" where
  "Fields_aux acc [] = (if acc = [] then [] else [rev acc])"
| "Fields_aux acc (c # cs) =
     (if isSpace c then (if acc = [] then Fields_aux [] cs else rev acc # Fields_aux [] cs)
      else Fields_aux (c # acc) cs)"

definition Fields :: "string \<Rightarrow> string list" where
  "Fields s = Fields_aux [] s"

text \<open>\<open>strings.Split\<close> with a one-byte separator: always at least one part.\<close>

fun Split :: "string \<Rightarrow> char \<Rightarrow> string list" where
  "Split [] d = [[]]"
| "Split (c # cs) d =
     (if c = d then [] # Split cs d
      else (case Split cs d of [] \<Rightarrow> [[c]] | p # ps \<Rightarrow> (c # p) # ps))"

fun Join :: "string list \<Rightarrow> string \<Rightarrow> string" where
  "Join [] sep = []"
| "Join [s] sep = s"
| "Join (s # t # ts) sep = s @ sep @ Join (t # ts) sep"

fun IndexByte :: "string \<Rightarrow> char \<Rightarrow> nat option" where
  "IndexByte [] d = None"
| "IndexByte (c # cs) d = (if c = d then Some 0 else map_option Suc (IndexByte cs d))"

fun Contains :: "string \<Rightarrow> string \<Rightarrow> bool" where
  "Contains [] t = (t = [])"
| "Contains (c # cs) t = (HasPrefix (c # cs) t \<or> Contains cs t)"

lemma isSpace_lower_char [simp]: "isSpace (lower_char c) = isSpace c"
  by (auto simp: isSpace_def of_char_lower_char Let_def)

lemma TrimRight_Nil [simp]: "TrimRight P [] = []"
  by (simp add: TrimRight_def)

lemma TrimRight_idem [simp]: "TrimRight P (TrimRight P s) = TrimRight P s"
  by (simp add: TrimRight_def)

lemma dropWhile_hd_id: "s \<noteq> [] \<Longrightarrow> \<not> P (hd s) \<Longrightarrow> dropWhile P s = s"
  by (cases s) auto

lemma TrimSpace_nonspace: "s \<noteq> [] \<Longrightarrow> \<not> isSpace (hd s) \<Longrightarrow> \<not> isSpace (last s) \<Longrightarrow> TrimSpace s = s"
  by (simp add: TrimSpace_def TrimLeft_def TrimRight_def dropWhile_hd_id hd_rev)

lemma TrimRight_append: "TrimRight P s = s' \<Longrightarrow> \<exists>r. s = s' @ r \<and> (\<forall>c \<in> set r. P c)"
  by (metis TrimRight_def append_Nil2 rev_append rev_rev_ident set_rev set_takeWhileD takeWhile_dropWhile_id)

lemma TrimRight_last: "TrimRight P s \<noteq> [] \<Longrightarrow> \<not> P (last (TrimRight P s))"
  by (metis TrimRight_def hd_dropWhile last_rev rev_is_Nil_conv)

lemma TrimSpace_ends:
  assumes "TrimSpace s \<noteq> []"
  shows "\<not> isSpace (hd (TrimSpace s))" "\<not> isSpace (last (TrimSpace s))"
proof -
  let ?t = "TrimLeft isSpace s"
  obtain r where r: "?t = TrimSpace s @ r"
    using TrimRight_append [of isSpace ?t] by (auto simp: TrimSpace_def)
  have "?t \<noteq> []" using assms r by auto
  then have "\<not> isSpace (hd ?t)" by (simp add: TrimLeft_def hd_dropWhile)
  then show "\<not> isSpace (hd (TrimSpace s))" using r assms by simp
  show "\<not> isSpace (last (TrimSpace s))"
    using assms TrimRight_last by (simp add: TrimSpace_def)
qed

lemma TrimSpace_idem [simp]: "TrimSpace (TrimSpace s) = TrimSpace s"
proof (cases "TrimSpace s = []")
  case True
  then show ?thesis by (simp add: TrimSpace_def TrimLeft_def)
next
  case False
  then show ?thesis using TrimSpace_nonspace TrimSpace_ends by blast
qed

lemma IndexByte_append [simp]: "c \<notin> set s \<Longrightarrow> IndexByte (s @ c # t) c = Some (length s)"
  by (induction s) auto

lemma IndexByte_None: "IndexByte s c = None \<longleftrightarrow> c \<notin> set s"
  by (induction s) auto

lemma IndexByte_Some:
  "IndexByte s c = Some i \<Longrightarrow> i < length s \<and> s ! i = c \<and> c \<notin> set (take i s)"
  by (induction s arbitrary: i) (auto split: if_splits)

lemma Split_nonempty [simp]: "Split s d \<noteq> []"
  by (induction s) (auto split: list.splits)

lemma Split_no_sep: "p \<in> set (Split s d) \<Longrightarrow> d \<notin> set p"
  by (induction s arbitrary: p) (auto split: list.splits if_splits)

lemma Contains_iff: "Contains s t \<longleftrightarrow> (\<exists>a b. s = a @ t @ b)"
proof (induction s)
  case (Cons c s)
  show ?case
  proof
    assume "Contains (c # s) t"
    then consider r where "c # s = t @ r" | a b where "s = a @ t @ b"
      using Cons.IH by (auto simp: HasPrefix_iff)
    then show "\<exists>a b. c # s = a @ t @ b"
    proof cases
      case 1
      then have "c # s = [] @ t @ r" by simp
      then show ?thesis by blast
    next
      case 2
      then have "c # s = (c # a) @ t @ b" by simp
      then show ?thesis by blast
    qed
  next
    assume "\<exists>a b. c # s = a @ t @ b"
    then obtain a b where ab: "c # s = a @ t @ b" by blast
    show "Contains (c # s) t"
    proof (cases a)
      case Nil
      with ab have "HasPrefix (c # s) t" by (auto simp: HasPrefix_iff)
      then show ?thesis by simp
    next
      case (Cons x a')
      with ab have "s = a' @ t @ b" by simp
      then show ?thesis using Cons.IH by auto
    qed
  qed
qed auto

section \<open>Numbers in decimal\<close>

definition digit_char :: "nat \<Rightarrow> char" where
  "digit_char n = char_of (48 + n)"

fun nat_digits :: "nat \<Rightarrow> string" where
  "nat_digits n = (if n < 10 then [digit_char n] else nat_digits (n div 10) @ [digit_char (n mod 10)])"

declare nat_digits.simps [simp del]

text \<open>\<open>strconv.Itoa\<close> and the \<open>%d\<close> verb.\<close>

definition Itoa :: "int \<Rightarrow> string" where
  "Itoa n = (if n < 0 then CHR ''-'' # nat_digits (nat (- n)) else nat_digits (nat n))"

definition isDigit :: "char \<Rightarrow> bool" where
  "isDigit c = (let n = (of_char c :: nat) in 48 \<le> n \<and> n \<le> 57)"

definition digit_val :: "char \<Rightarrow> nat" where
  "digit_val c = of_char c - 48"

definition digits_val :: "string \<Rightarrow> nat" where
  "digits_val s = foldl (\<lambda>a c. 10 * a + digit_val c) 0 s"

text \<open>
  \<open>strconv.ParseInt(s, 10, 64)\<close> and \<open>strconv.Atoi\<close>: an optional sign, then at least
  one digit and nothing else, with the value in the 64-bit range.
\<close>

definition parse_digits :: "string \<Rightarrow> nat option" where
  "parse_digits s = (if s \<noteq> [] \<and> list_all isDigit s then Some (digits_val s) else None)"

definition ParseInt :: "string \<Rightarrow> int option" where
  "ParseInt s =
     (case s of
        [] \<Rightarrow> None
      | c # cs \<Rightarrow>
          (let neg = (c = CHR ''-''); ds = (if neg \<or> c = CHR ''+'' then cs else s)
           in case parse_digits ds of
                None \<Rightarrow> None
              | Some n \<Rightarrow>
                  (let v = (if neg then - int n else int n)
                   in if in_int64 v then Some v else None)))"

lemma ParseInt_range: "ParseInt s = Some n \<Longrightarrow> in_int64 n"
  by (auto simp: ParseInt_def Let_def split: list.splits option.splits if_splits)

lemma isDigit_digit_char: "n < 10 \<Longrightarrow> isDigit (digit_char n)"
  by (simp add: isDigit_def digit_char_def)

lemma nat_digits_isDigit: "list_all isDigit (nat_digits n)"
  by (induction n rule: nat_digits.induct) (subst nat_digits.simps, simp add: isDigit_digit_char)

lemma nat_digits_nonempty [simp]: "nat_digits n \<noteq> []"
  by (subst nat_digits.simps) simp

lemma nat_digits_Cons: "\<exists>c ds. nat_digits n = c # ds \<and> isDigit c"
  using nat_digits_nonempty [of n] nat_digits_isDigit [of n] by (cases "nat_digits n") auto

lemma digits_val_snoc: "digits_val (s @ [c]) = 10 * digits_val s + digit_val c"
  by (simp add: digits_val_def)

lemma digit_val_digit_char: "n < 10 \<Longrightarrow> digit_val (digit_char n) = n"
  by (simp add: digit_val_def digit_char_def)

lemma digits_val_nat_digits [simp]: "digits_val (nat_digits n) = n"
proof (induction n rule: nat_digits.induct)
  case (1 n)
  show ?case
  proof (cases "n < 10")
    case True
    then show ?thesis
      by (subst nat_digits.simps) (simp add: digits_val_def digit_val_digit_char)
  next
    case False
    then have "nat_digits n = nat_digits (n div 10) @ [digit_char (n mod 10)]"
      by (subst nat_digits.simps) simp
    then show ?thesis
      using 1 [OF False] by (simp add: digits_val_snoc digit_val_digit_char)
  qed
qed

lemma parse_digits_nat_digits [simp]: "parse_digits (nat_digits n) = Some n"
  by (simp add: parse_digits_def nat_digits_isDigit nat_digits_nonempty)

lemma ParseInt_Itoa: "in_int64 k \<Longrightarrow> ParseInt (Itoa k) = Some k"
proof (cases "k < 0")
  case False
  assume k: "in_int64 k"
  obtain c ds where d: "nat_digits (nat k) = c # ds" "isDigit c" using nat_digits_Cons by blast
  then have "c \<noteq> CHR ''-''" "c \<noteq> CHR ''+''" by (auto simp: isDigit_def)
  then show ?thesis
    using False k parse_digits_nat_digits [of "nat k"] d by (simp add: ParseInt_def Itoa_def Let_def)
qed (simp add: ParseInt_def Itoa_def Let_def)

text \<open>\<open>strconv.ParseBool\<close>; \<open>None\<close> is the syntax error.\<close>

definition ParseBool :: "string \<Rightarrow> bool option" where
  "ParseBool s =
     (if s \<in> set [''1'', ''t'', ''T'', ''TRUE'', ''true'', ''True''] then Some True
      else if s \<in> set [''0'', ''f'', ''F'', ''FALSE'', ''false'', ''False''] then Some False
      else None)"

section \<open>Quoting\<close>

definition hex_digit :: "nat \<Rightarrow> char" where
  "hex_digit n = (if n < 10 then char_of (48 + n) else char_of (87 + n))"

text \<open>The \<open>%q\<close> verb, with bytes from 128 up escaped as they are outside UTF-8.\<close>

definition quote_char :: "char \<Rightarrow> string" where
  "quote_char c =
     (let n = (of_char c :: nat)
      in if c = CHR 0x22 \<or> c = CHR 0x5C then [CHR 0x5C, c]
         else if n = 7 then [CHR 0x5C, CHR ''a''] else if n = 8 then [CHR 0x5C, CHR ''b'']
         else if n = 9 then [CHR 0x5C, CHR ''t''] else if n = 10 then [CHR 0x5C, CHR ''n'']
         else if n = 11 then [CHR 0x5C, CHR ''v''] else if n = 12 then [CHR 0x5C, CHR ''f'']
         else if n = 13 then [CHR 0x5C, CHR ''r'']
         else if n < 32 \<or> 127 \<le> n then [CHR 0x5C, CHR ''x'', hex_digit (n div 16), hex_digit (n mod 16)]
         else [c])"

definition Quote :: "string \<Rightarrow> string" where
  "Quote s = [CHR 0x22] @ concat (map quote_char s) @ [CHR 0x22]"

end
