(* ===== verification/DnsTypes.thy ===== *)
theory DnsTypes
  imports GoStrings
begin

text \<open>
  The data that travels between the layers: the wire contract of
  \<open>internal/dnsop/types.go\<close> and the domain types of
  \<open>internal/orchestrator/orchestrator.go\<close>.  Struct fields keep the source's
  names behind a prefix, since HOL record fields share one name space.  A Go
  \<open>int\<close> or \<open>int64\<close> is the \<open>int\<close> it denotes.
\<close>

section \<open>internal/dnsop/types.go\<close>

record Record =
  rec_Name :: string
  rec_Type :: string
  rec_TTL :: int
  rec_Value :: string

record RecordsResult =
  rr_OK :: bool
  rr_Records :: "Record list"
  rr_Rcode :: string
  rr_Phase :: string
  rr_Message :: string
  rr_Retryable :: bool

record ApplyResult =
  ar_OK :: bool
  ar_Rcode :: string
  ar_Phase :: string
  ar_Message :: string
  ar_Retryable :: bool

text \<open>\<open>pre_Kind\<close> is \<open>NXRRSET\<close> or \<open>YXRRSET\<close>; \<open>chg_Op\<close> is \<open>add\<close> or \<open>delete\<close>.\<close>

record Prereq =
  pre_Kind :: string
  pre_Name :: string
  pre_Type :: string
  pre_Value :: string

record Change =
  chg_Op :: string
  chg_Record :: Record

section \<open>Domain types of the orchestrator\<close>

record Options =
  opt_Hosts :: "string list"
  opt_Port :: int
  opt_Zones :: "string list"
  opt_AxfrEnabled :: bool
  opt_DefaultTTL :: int
  opt_MinTTL :: int
  opt_CircuitBreakerThreshold :: int
  opt_DomainFilter :: "string list"
  opt_DryRun :: bool

text \<open>\<open>ep_Labels = None\<close> is Go's nil map.\<close>

type_synonym labels = "string \<rightharpoonup> string"

record Endpoint =
  ep_DNSName :: string
  ep_Targets :: "string list"
  ep_RecordType :: string
  ep_RecordTTL :: int
  ep_Labels :: "labels option"

text \<open>The slices hold pointers, so an entry can be nil (\<open>None\<close>).\<close>

record Changes =
  ch_Create :: "Endpoint option list"
  ch_UpdateOld :: "Endpoint option list"
  ch_UpdateNew :: "Endpoint option list"
  ch_Delete :: "Endpoint option list"

end
