(* ===== verification/ZoneState.thy ===== *)
theory ZoneState
  imports DnsTypes
begin

text \<open>
  Per-zone run-time state of \<open>internal/state/zones.go\<close>: the AXFR cache, the
  sticky DC pins and the lazily created zone mutexes.  Each struct is guarded
  by its own mutex in the source, so every operation is one atomic step here.
  A mutex is identified by the order of its creation.
\<close>

section \<open>The interface of a keyed store\<close>

locale kv_store =
  fixes new :: "'s"
    and get :: "'s \<Rightarrow> 'k \<Rightarrow> 'v option"
    and put :: "'s \<Rightarrow> 'k \<Rightarrow> 'v \<Rightarrow> 's"
  assumes get_new: "get new k = None"
    and get_put: "get (put s k v) k' = (if k' = k then Some v else get s k')"
begin

lemma get_put_same [simp]: "get (put s k v) k = Some v"
  by (simp add: get_put)

lemma get_put_other: "k' \<noteq> k \<Longrightarrow> get (put s k v) k' = get s k'"
  by (simp add: get_put)

text \<open>A store filled by a series of puts answers with the last one.\<close>

lemma get_puts:
  "get (foldl (\<lambda>s (k, v). put s k v) s kvs) k =
     (case map_of (rev kvs) k of None \<Rightarrow> get s k | Some v \<Rightarrow> Some v)"
  by (induction kvs arbitrary: s) (auto simp: get_put map_add_def split: option.splits)

end

locale droppable_store = kv_store +
  fixes drop :: "'s \<Rightarrow> 'k \<Rightarrow> 's"
  assumes get_drop: "get (drop s k) k' = (if k' = k then None else get s k')"
begin

lemma get_drop_same [simp]: "get (drop s k) k = None"
  by (simp add: get_drop)

lemma drop_put: "get (drop (put s k v) k) = get (drop s k)"
  by (rule ext) (simp add: get_drop get_put)

end

section \<open>AXFRCache\<close>

record AXFRCache =
  cache_data :: "string \<rightharpoonup> Record list"

definition NewAXFRCache :: AXFRCache where
  "NewAXFRCache = \<lparr>cache_data = Map.empty\<rparr>"

definition cache_Put :: "AXFRCache \<Rightarrow> string \<Rightarrow> Record list \<Rightarrow> AXFRCache" where
  "cache_Put c zone recs = c\<lparr>cache_data := (cache_data c)(zone \<mapsto> recs)\<rparr>"

definition cache_Get :: "AXFRCache \<Rightarrow> string \<Rightarrow> Record list option" where
  "cache_Get c zone = cache_data c zone"

definition cache_Drop :: "AXFRCache \<Rightarrow> string \<Rightarrow> AXFRCache" where
  "cache_Drop c zone = c\<lparr>cache_data := (cache_data c)(zone := None)\<rparr>"

interpretation axfr_cache: droppable_store NewAXFRCache cache_Get cache_Put cache_Drop
  by unfold_locales (simp_all add: NewAXFRCache_def cache_Get_def cache_Put_def cache_Drop_def)

section \<open>ZonePins\<close>

record ZonePins =
  pins_data :: "string \<rightharpoonup> string"

definition NewZonePins :: ZonePins where
  "NewZonePins = \<lparr>pins_data = Map.empty\<rparr>"

definition pins_Get :: "ZonePins \<Rightarrow> string \<Rightarrow> string option" where
  "pins_Get p zone = pins_data p zone"

definition pins_Set :: "ZonePins \<Rightarrow> string \<Rightarrow> string \<Rightarrow> ZonePins" where
  "pins_Set p zone dc = p\<lparr>pins_data := (pins_data p)(zone \<mapsto> dc)\<rparr>"

interpretation zone_pins: kv_store NewZonePins pins_Get pins_Set
  by unfold_locales (simp_all add: NewZonePins_def pins_Get_def pins_Set_def)

section \<open>ZoneLocks\<close>

record ZoneLocks =
  zl_locks :: "string \<rightharpoonup> nat"
  zl_next :: nat

definition NewZoneLocks :: ZoneLocks where
  "NewZoneLocks = \<lparr>zl_locks = Map.empty, zl_next = 0\<rparr>"

definition locks_For :: "ZoneLocks \<Rightarrow> string \<Rightarrow> nat \<times> ZoneLocks" where
  "locks_For z zone =
     (case zl_locks z zone of
        Some m \<Rightarrow> (m, z)
      | None \<Rightarrow> (zl_next z, z\<lparr>zl_locks := (zl_locks z)(zone \<mapsto> zl_next z), zl_next := Suc (zl_next z)\<rparr>))"

text \<open>Mutexes are created once each and never shared between zones.\<close>

definition locks_ok :: "ZoneLocks \<Rightarrow> bool" where
  "locks_ok z \<longleftrightarrow> (\<forall>a m. zl_locks z a = Some m \<longrightarrow> m < zl_next z) \<and>
     (\<forall>a b m. zl_locks z a = Some m \<longrightarrow> zl_locks z b = Some m \<longrightarrow> a = b)"

lemma locks_ok_new: "locks_ok NewZoneLocks"
  by (simp add: locks_ok_def NewZoneLocks_def)

lemma locks_For_ok: "locks_ok z \<Longrightarrow> locks_ok (snd (locks_For z a))"
  unfolding locks_ok_def locks_For_def
  by (auto split: option.splits simp: less_Suc_eq)

lemma locks_For_result: "zl_locks (snd (locks_For z a)) a = Some (fst (locks_For z a))"
  by (auto simp: locks_For_def split: option.splits)

lemma locks_For_keeps: "zl_locks z b = Some m \<Longrightarrow> zl_locks (snd (locks_For z a)) b = Some m"
  by (auto simp: locks_For_def split: option.splits)

end
