(* ===== verification/ZoneLocking.thy ===== *)
theory ZoneLocking
  imports ZoneState
begin

text \<open>
  Concurrent requests and the zone mutexes (\<open>ZoneLocks.For\<close> of
  \<open>internal/state/zones.go\<close> as \<open>applyZone\<close> uses it).  Every HTTP request runs in
  its own goroutine, named by a number.  \<open>For\<close> is one step, being a body under
  \<open>ZoneLocks.mu\<close>; taking and releasing the zone's mutex are the steps around the
  critical section, in which UPDATEs are sent.
\<close>

text \<open>Where a goroutine is in \<open>applyZone\<close>.\<close>

datatype pc = Idle | Entered string | Holding string nat | Inside string nat

record conc =
  cc_locks :: ZoneLocks
  cc_owner :: "nat \<rightharpoonup> nat"
  cc_pc :: "nat \<Rightarrow> pc"
  cc_sent :: "(nat \<times> string) list"

definition conc_init :: conc where
  "conc_init = \<lparr>cc_locks = NewZoneLocks, cc_owner = Map.empty, cc_pc = (\<lambda>_. Idle), cc_sent = []\<rparr>"

definition goto :: "nat \<Rightarrow> pc \<Rightarrow> conc \<Rightarrow> conc" where
  "goto t l c = c\<lparr>cc_pc := (cc_pc c)(t := l)\<rparr>"

inductive zstep :: "nat \<Rightarrow> conc \<Rightarrow> conc \<Rightarrow> bool" where
  z_enter: "cc_pc c t = Idle \<Longrightarrow> zstep t c (goto t (Entered z) c)"
| z_for: "cc_pc c t = Entered z \<Longrightarrow> locks_For (cc_locks c) z = (m, zl) \<Longrightarrow>
    zstep t c (goto t (Holding z m) (c\<lparr>cc_locks := zl\<rparr>))"
| z_lock: "cc_pc c t = Holding z m \<Longrightarrow> cc_owner c m = None \<Longrightarrow>
    zstep t c (goto t (Inside z m) (c\<lparr>cc_owner := (cc_owner c)(m \<mapsto> t)\<rparr>))"
| z_send: "cc_pc c t = Inside z m \<Longrightarrow> zstep t c (c\<lparr>cc_sent := cc_sent c @ [(t, z)]\<rparr>)"
| z_unlock: "cc_pc c t = Inside z m \<Longrightarrow>
    zstep t c (goto t Idle (c\<lparr>cc_owner := (cc_owner c)(m := None)\<rparr>))"

inductive_cases zstepE: "zstep t c c'"

inductive zreach :: "conc \<Rightarrow> bool" where
  zreach_init: "zreach conc_init"
| zreach_step: "zreach c \<Longrightarrow> zstep t c c' \<Longrightarrow> zreach c'"

section \<open>Invariant\<close>

text \<open>
  A mutex is owned by exactly the goroutines inside with it, and a goroutine
  that holds a mutex holds the one registered for its zone.
\<close>

definition holds :: "pc \<Rightarrow> (string \<times> nat) option" where
  "holds l = (case l of Holding z m \<Rightarrow> Some (z, m) | Inside z m \<Rightarrow> Some (z, m) | _ \<Rightarrow> None)"

definition inside :: "pc \<Rightarrow> nat option" where
  "inside l = (case l of Inside z m \<Rightarrow> Some m | _ \<Rightarrow> None)"

definition conc_inv :: "conc \<Rightarrow> bool" where
  "conc_inv c \<longleftrightarrow> locks_ok (cc_locks c) \<and>
     (\<forall>t z m. holds (cc_pc c t) = Some (z, m) \<longrightarrow> zl_locks (cc_locks c) z = Some m) \<and>
     (\<forall>t m. cc_owner c m = Some t \<longleftrightarrow> inside (cc_pc c t) = Some m)"

lemma pc_simps [simp]:
  "holds Idle = None" "holds (Entered z) = None" "holds (Holding z m) = Some (z, m)"
  "holds (Inside z m) = Some (z, m)" "inside Idle = None" "inside (Entered z) = None"
  "inside (Holding z m) = None" "inside (Inside z m) = Some m"
  by (simp_all add: holds_def inside_def)

lemma goto_simps [simp]:
  "cc_locks (goto t l c) = cc_locks c" "cc_owner (goto t l c) = cc_owner c"
  "cc_pc (goto t l c) = (cc_pc c)(t := l)" "cc_sent (goto t l c) = cc_sent c"
  by (simp_all add: goto_def)

lemma conc_inv_init: "conc_inv conc_init"
  by (simp add: conc_inv_def conc_init_def locks_ok_new)

lemma conc_invD:
  assumes "conc_inv c"
  shows "locks_ok (cc_locks c)" "cc_pc c t = Holding z m \<Longrightarrow> zl_locks (cc_locks c) z = Some m"
    "cc_pc c t = Inside z m \<Longrightarrow> zl_locks (cc_locks c) z = Some m"
    "cc_owner c m = Some t \<longleftrightarrow> inside (cc_pc c t) = Some m"
  using assms unfolding conc_inv_def by (metis pc_simps(3,4))+

lemma conc_inv_for:
  assumes "conc_inv c" "cc_pc c t = Entered z" "locks_For (cc_locks c) z = (m, zl)"
  shows "conc_inv (goto t (Holding z m) (c\<lparr>cc_locks := zl\<rparr>))"
proof -
  have zl: "zl = snd (locks_For (cc_locks c) z)" and m: "zl_locks zl z = Some m"
    using assms(3) locks_For_result [of "cc_locks c" z] by simp_all
  have keep: "zl_locks (cc_locks c) b = Some k \<Longrightarrow> zl_locks zl b = Some k" for b k
    using locks_For_keeps zl by simp
  show ?thesis
    using assms(1,2) m keep locks_For_ok [of "cc_locks c" z]
    by (simp add: conc_inv_def zl)
qed

lemma conc_inv_step: "conc_inv c \<Longrightarrow> zstep t c c' \<Longrightarrow> conc_inv c'"
proof (erule zstepE, goal_cases)
  case (1 z)
  then show ?case by (simp add: conc_inv_def)
next
  case (2 z m zl)
  then show ?case using conc_inv_for by blast
next
  case (3 z m)
  have "inside (cc_pc c t') \<noteq> Some m" for t'
    using conc_invD(4) [OF 3(1), of m t'] 3 by simp
  moreover have "inside (cc_pc c t) = None" using 3 by simp
  ultimately show ?case
    using 3 conc_invD(2) [OF 3(1), of t z m] by (auto simp: conc_inv_def)
next
  case (4 z m)
  then show ?case by (simp add: conc_inv_def)
next
  case (5 z m)
  have own: "cc_owner c m = Some t" using conc_invD(4) [OF 5(1), of m t] 5 by simp
  have "inside (cc_pc c t') \<noteq> Some m" if "t' \<noteq> t" for t'
    using conc_invD(4) [OF 5(1), of m t'] own that by simp
  then show ?case using 5 own by (auto simp: conc_inv_def)
qed

lemma zreach_inv: "zreach c \<Longrightarrow> conc_inv c"
  by (induction rule: zreach.induct) (auto intro: conc_inv_init conc_inv_step)

text \<open>The mutex of a zone is free exactly when nobody is inside the zone.\<close>

lemma owner_inside:
  assumes "conc_inv c" "zl_locks (cc_locks c) z = Some m"
  shows "cc_owner c m = None \<longleftrightarrow> (\<forall>t k. cc_pc c t \<noteq> Inside z k)"
proof
  assume free: "cc_owner c m = None"
  show "\<forall>t k. cc_pc c t \<noteq> Inside z k"
  proof (intro allI notI)
    fix t k assume i: "cc_pc c t = Inside z k"
    then have "holds (cc_pc c t) = Some (z, k)" "inside (cc_pc c t) = Some k" by simp_all
    then have "zl_locks (cc_locks c) z = Some k" "cc_owner c k = Some t"
      using assms(1) by (auto simp: conc_inv_def)
    with free assms(2) show False by simp
  qed
next
  assume none: "\<forall>t k. cc_pc c t \<noteq> Inside z k"
  show "cc_owner c m = None"
  proof (rule ccontr)
    assume "cc_owner c m \<noteq> None"
    then obtain t where "inside (cc_pc c t) = Some m" using assms(1) by (auto simp: conc_inv_def)
    then obtain z' where i: "cc_pc c t = Inside z' m" by (auto simp: inside_def split: pc.splits)
    then have "zl_locks (cc_locks c) z' = Some m" using conc_invD(3) [OF assms(1)] by blast
    then have "z' = z" using assms(2) conc_invD(1) [OF assms(1)] unfolding locks_ok_def by blast
    with i none show False by blast
  qed
qed

section \<open>Properties\<close>

text \<open>
  At most one goroutine is in the critical section of a zone, under every
  interleaving of any number of requests: UPDATEs for one zone never race.
\<close>

theorem zone_mutual_exclusion:
  assumes "zreach c" "cc_pc c t = Inside z m" "cc_pc c t' = Inside z m'"
  shows "t = t'"
proof -
  note inv = zreach_inv [OF assms(1)]
  have "m = m'" using conc_invD(3) [OF inv assms(2)] conc_invD(3) [OF inv assms(3)] by simp
  then have "cc_owner c m = Some t" "cc_owner c m = Some t'"
    using conc_invD(4) [OF inv] assms(2,3) by simp_all
  then show ?thesis by simp
qed

definition one_inside :: conc where
  "one_inside = goto 1 (Inside ''z'' 0)
     ((goto 1 (Holding ''z'' 0) ((goto 1 (Entered ''z'') conc_init)
        \<lparr>cc_locks := snd (locks_For NewZoneLocks ''z'')\<rparr>))\<lparr>cc_owner := [0 \<mapsto> 1]\<rparr>)"

lemma one_inside_reached: "zreach one_inside"
proof -
  let ?c1 = "goto 1 (Entered ''z'') conc_init"
  let ?c2 = "goto 1 (Holding ''z'' 0) (?c1\<lparr>cc_locks := snd (locks_For NewZoneLocks ''z'')\<rparr>)"
  have "zreach ?c1" by (rule zreach_step [OF zreach_init]) (rule z_enter, simp add: conc_init_def)
  then have "zreach ?c2"
    by (rule zreach_step)
      (rule z_for, simp, simp add: conc_init_def locks_For_def NewZoneLocks_def)
  moreover have "zstep 1 ?c2 one_inside"
    using z_lock [of ?c2 1 "''z''" 0] by (simp add: one_inside_def conc_init_def)
  ultimately show ?thesis by (rule zreach_step)
qed

theorem zone_mutual_exclusion_witness: "{t. \<exists>m. cc_pc one_inside t = Inside ''z'' m} = {1}"
proof -
  have "cc_pc one_inside 1 = Inside ''z'' 0" by (simp add: one_inside_def)
  with zone_mutual_exclusion [OF one_inside_reached this] show ?thesis by blast
qed

text \<open>
  Zones do not wait for each other: a goroutine that has looked up the mutex of
  its zone can take it at once unless some goroutine is inside that very zone, and
  one that is inside can always leave, so no reachable state is a deadlock.
\<close>

theorem zone_progress:
  assumes "zreach c" "cc_pc c t \<noteq> Idle"
  shows "(\<exists>c'. zstep t c c') \<or> (\<exists>z m t' m'. cc_pc c t = Holding z m \<and> cc_pc c t' = Inside z m' \<and> (\<exists>c'. zstep t' c c'))"
proof (cases "cc_pc c t")
  case (Entered z)
  then show ?thesis by (cases "locks_For (cc_locks c) z") (blast intro: z_for)
next
  case (Holding z m)
  show ?thesis
  proof (cases "cc_owner c m")
    case None
    with Holding show ?thesis by (blast intro: z_lock)
  next
    case (Some t')
    note inv = zreach_inv [OF assms(1)]
    from owner_inside [OF inv conc_invD(2) [OF inv Holding]] Some
    obtain t2 k where "cc_pc c t2 = Inside z k" by auto
    with Holding show ?thesis by (blast intro: z_unlock)
  qed
next
  case (Inside z m)
  then show ?thesis by (blast intro: z_unlock)
qed (use assms(2) in simp)

theorem zone_progress_witness: "\<exists>c'. zstep 1 one_inside c'"
  using zone_progress [OF one_inside_reached, of 1] by (auto simp: one_inside_def)

end
