(* ===== verification/Ownership.thy ===== *)
theory Ownership
  imports DnsTypes
begin

text \<open>
  Names and ownership marks of \<open>internal/orchestrator/orchestrator.go\<close>: the
  canonical form of a name, the \<open>owned-by\<close> form of a TXT value, and the
  \<open>ddo-<type>.<name>\<close> marker under which the TXT of a data record lives, with
  its wildcard encoding.
\<close>

section \<open>Definitions\<close>

definition normalizeName :: "string \<Rightarrow> string" where
  "normalizeName fqdn = ToLower (TrimSuffix fqdn ''.'')"

text \<open>The double quote is byte 34.\<close>

definition quote :: char where
  "quote = CHR 0x22"

definition owned_by_prefix :: string where
  "owned_by_prefix = quote # ''owned-by=''"

definition encodeOwnership :: "string \<Rightarrow> string" where
  "encodeOwnership label = owned_by_prefix @ label @ [quote]"

text \<open>
  Go slices \<open>txtValue[len(prefix) : len(txtValue)-len(suffix)]\<close>, which panics when
  the lower bound exceeds the upper one.
\<close>

definition go_slice :: "'a list \<Rightarrow> int \<Rightarrow> int \<Rightarrow> 'a list go" where
  "go_slice s lo hi =
     (if 0 \<le> lo \<and> lo \<le> hi \<and> hi \<le> int (length s)
      then Ok (drop (nat lo) (take (nat hi) s)) else Panic)"

definition decodeOwnership_go :: "string \<Rightarrow> string option go" where
  "decodeOwnership_go txtValue =
     (if \<not> HasPrefix txtValue owned_by_prefix \<or> \<not> HasSuffix txtValue [quote] then Ok None
      else bind_go (go_slice txtValue (int (length owned_by_prefix)) (int (length txtValue) - 1))
             (\<lambda>l. Ok (Some l)))"

text \<open>The panic never happens (\<open>decodeOwnership_go_total\<close>), so callers use the pure form.\<close>

definition decodeOwnership :: "string \<Rightarrow> string option" where
  "decodeOwnership txtValue =
     (if \<not> HasPrefix txtValue owned_by_prefix \<or> \<not> HasSuffix txtValue [quote] then None
      else Some (drop (length owned_by_prefix) (take (length txtValue - 1) txtValue)))"

text \<open>The argument is a pointer, nil being \<open>None\<close>.\<close>

definition ownerFromEndpoint :: "Endpoint option \<Rightarrow> string option" where
  "ownerFromEndpoint p =
     (case p of
        None \<Rightarrow> None
      | Some e \<Rightarrow>
          (case ep_Labels e of
             None \<Rightarrow> None
           | Some m \<Rightarrow>
               (case m ''owner'' of None \<Rightarrow> None | Some v \<Rightarrow> if v = [] then None else Some v)))"

definition wildcardSentinel :: string where
  "wildcardSentinel = ''-wildcard''"

definition ownershipNameFor :: "string \<Rightarrow> string \<Rightarrow> string" where
  "ownershipNameFor recType name =
     (let nm = normalizeName name; typeLabel = ToLower recType
      in case CutPrefix nm ''*.'' of
           Some rest \<Rightarrow> ''ddo-'' @ typeLabel @ wildcardSentinel @ ''.'' @ rest
         | None \<Rightarrow> ''ddo-'' @ typeLabel @ ''.'' @ nm)"

definition decodeOwnershipName :: "string \<Rightarrow> (string \<times> string) option" where
  "decodeOwnershipName marker =
     (let nm = normalizeName marker
      in if \<not> HasPrefix nm ''ddo-'' then None
         else case IndexByte nm CHR ''.'' of
                None \<Rightarrow> None
              | Some dot \<Rightarrow>
                  (let typeLabel = drop (length ''ddo-'') (take dot nm); rest = drop (dot + 1) nm
                   in case CutSuffix typeLabel wildcardSentinel of
                        Some t \<Rightarrow> Some (''*.'' @ rest, ToUpper t)
                      | None \<Rightarrow> Some (rest, ToUpper typeLabel)))"

section \<open>Canonical names\<close>

lemma normalizeName_idem:
  "\<not> HasSuffix (normalizeName s) ''.'' \<Longrightarrow> normalizeName (normalizeName s) = normalizeName s"
  by (simp add: normalizeName_def)

lemma normalizeName_id: "ToLower s = s \<Longrightarrow> \<not> HasSuffix s ''.'' \<Longrightarrow> normalizeName s = s"
  by (simp add: normalizeName_def)

lemma ToLower_normalizeName [simp]: "ToLower (normalizeName s) = normalizeName s"
  by (simp add: normalizeName_def)

section \<open>The owned-by value\<close>

lemma decodeOwnership_encode [simp]: "decodeOwnership (encodeOwnership l) = Some l"
  by (auto simp: decodeOwnership_def encodeOwnership_def owned_by_prefix_def HasPrefix_iff HasSuffix_iff)

lemma decodeOwnership_Some: "decodeOwnership v = Some l \<longleftrightarrow> v = encodeOwnership l"
proof
  assume d: "decodeOwnership v = Some l"
  then have "HasPrefix v owned_by_prefix" "HasSuffix v [quote]"
    by (auto simp: decodeOwnership_def split: if_splits)
  then obtain a b where a: "v = owned_by_prefix @ a" and b: "v = b @ [quote]"
    unfolding HasPrefix_iff HasSuffix_iff by blast
  have "a \<noteq> []"
    using a b by (auto simp: owned_by_prefix_def quote_def)
  then obtain a' c where "a = a' @ [c]" by (metis append_butlast_last_id)
  with a b have "v = encodeOwnership a'" by (auto simp: encodeOwnership_def)
  with d show "v = encodeOwnership l" by simp
qed simp

lemma encodeOwnership_inj [simp]: "encodeOwnership a = encodeOwnership b \<longleftrightarrow> a = b"
  by (metis decodeOwnership_encode option.inject)

text \<open>The two string guards imply the slice bounds.\<close>

lemma decodeOwnership_go_total: "decodeOwnership_go v = Ok (decodeOwnership v)"
proof (cases "decodeOwnership v")
  case None
  then show ?thesis by (auto simp: decodeOwnership_def decodeOwnership_go_def split: if_splits)
next
  case (Some l)
  then have "v = owned_by_prefix @ l @ [quote]"
    by (simp add: decodeOwnership_Some encodeOwnership_def)
  then show ?thesis
    by (auto simp: decodeOwnership_go_def decodeOwnership_def go_slice_def nat_diff_distrib
        nat_add_distrib)
qed

section \<open>Markers\<close>

text \<open>
  A marker names its data record back when the name is not empty and does not
  end in a dot once canonical, and the type is one label that does not itself
  end in the wildcard sentinel.
\<close>

definition markable :: "string \<Rightarrow> string \<Rightarrow> bool" where
  "markable t n \<longleftrightarrow> normalizeName n \<noteq> [] \<and> \<not> HasSuffix (normalizeName n) ''.'' \<and>
     CHR ''.'' \<notin> set t \<and> \<not> HasSuffix (ToLower t) wildcardSentinel"

locale marker_codec =
  fixes enc :: "string \<Rightarrow> string \<Rightarrow> string"
    and dec :: "string \<Rightarrow> (string \<times> string) option"
    and norm :: "string \<Rightarrow> string"
    and up :: "string \<Rightarrow> string"
    and good :: "string \<Rightarrow> string \<Rightarrow> bool"
  assumes dec_enc: "good t n \<Longrightarrow> dec (enc t n) = Some (norm n, up t)"
    and enc_norm: "norm n = norm n' \<Longrightarrow> enc t n = enc t n'"
begin

lemma enc_inj:
  assumes "good t n" "good t' n'" "enc t n = enc t' n'"
  shows "norm n = norm n' \<and> up t = up t'"
  using dec_enc [OF assms(1)] dec_enc [OF assms(2)] assms(3) by simp

lemma dec_unique: "good t n \<Longrightarrow> dec (enc t n) = Some (m, u) \<longleftrightarrow> m = norm n \<and> u = up t"
  by (auto simp: dec_enc)

end

lemma normalize_marker:
  assumes "normalizeName n \<noteq> []" "\<not> HasSuffix (normalizeName n) ''.''"
  shows "normalizeName (ownershipNameFor t n) = ownershipNameFor t n"
proof (rule normalizeName_id)
  show "ToLower (ownershipNameFor t n) = ownershipNameFor t n"
  proof (cases "CutPrefix (normalizeName n) ''*.''")
    case (Some r)
    then have "normalizeName n = ''*.'' @ r" by (simp add: CutPrefix_eq_Some)
    then have "ToLower r = r"
      using ToLower_normalizeName [of n] by simp
    with Some show ?thesis
      by (simp add: ownershipNameFor_def wildcardSentinel_def lower_char_def)
  qed (simp add: ownershipNameFor_def lower_char_def)
  show "\<not> HasSuffix (ownershipNameFor t n) ''.''"
  proof (cases "CutPrefix (normalizeName n) ''*.''")
    case (Some r)
    then have "normalizeName n = ''*.'' @ r" by (simp add: CutPrefix_eq_Some)
    with assms Some show ?thesis
      by (auto simp: ownershipNameFor_def HasSuffix_single split: if_splits)
  qed (use assms in \<open>auto simp: ownershipNameFor_def HasSuffix_single\<close>)
qed

lemma decode_marker:
  assumes "markable t n"
  shows "decodeOwnershipName (ownershipNameFor t n) = Some (normalizeName n, ToUpper t)"
proof -
  from assms have ne: "normalizeName n \<noteq> []" "\<not> HasSuffix (normalizeName n) ''.''"
    and t: "CHR ''.'' \<notin> set t" "\<not> HasSuffix (ToLower t) wildcardSentinel"
    by (auto simp: markable_def)
  note nm = normalize_marker [OF ne, of t]
  show ?thesis
  proof (cases "CutPrefix (normalizeName n) ''*.''")
    case None
    let ?l = "''ddo-'' @ ToLower t"
    have m: "ownershipNameFor t n = ?l @ CHR ''.'' # normalizeName n"
      using None by (simp add: ownershipNameFor_def)
    have "IndexByte (ownershipNameFor t n) CHR ''.'' = Some (length ?l)"
      unfolding m using t by (intro IndexByte_append) auto
    then show ?thesis
      using t by (simp add: decodeOwnershipName_def nm Let_def)
        (simp add: m CutSuffix_def HasPrefix_def)
  next
    case (Some r)
    then have n: "normalizeName n = ''*.'' @ r" by (simp add: CutPrefix_eq_Some)
    let ?l = "''ddo-'' @ ToLower t @ wildcardSentinel"
    have m: "ownershipNameFor t n = ?l @ CHR ''.'' # r"
      using Some by (simp add: ownershipNameFor_def)
    have "IndexByte (ownershipNameFor t n) CHR ''.'' = Some (length ?l)"
      unfolding m using t by (intro IndexByte_append) (auto simp: wildcardSentinel_def)
    then show ?thesis
      using t by (simp add: decodeOwnershipName_def nm Let_def)
        (simp add: m n HasPrefix_def)
  qed
qed

interpretation marker: marker_codec ownershipNameFor decodeOwnershipName normalizeName ToUpper markable
  by unfold_locales (simp_all add: decode_marker, simp add: ownershipNameFor_def)

section \<open>Properties\<close>

text \<open>
  C22. A marker name leads back to the record it marks: decoding the ownership
  TXT name built for a record yields the record's canonical name and its type in
  upper case, wildcard names included.
\<close>

theorem marker_roundtrip:
  assumes "markable t n"
  shows "decodeOwnershipName (ownershipNameFor t n) = Some (normalizeName n, ToUpper t)"
  using assms by (rule marker.dec_enc)

theorem marker_roundtrip_witness:
  "decodeOwnershipName (ownershipNameFor ''A'' ''*.Dev.Example.COM.'') = Some (''*.dev.example.com'', ''A'')"
  using marker_roundtrip [of "''A''" "''*.Dev.Example.COM.''"] by code_simp

text \<open>
  Two records share a marker only if they have the same canonical name and
  the same type: no record's ownership can be read off another record's TXT.
\<close>

theorem marker_unique:
  assumes "markable t n" "markable t' n'" "ownershipNameFor t n = ownershipNameFor t' n'"
  shows "normalizeName n = normalizeName n' \<and> ToUpper t = ToUpper t'"
  using assms by (rule marker.enc_inj)

theorem marker_unique_witness:
  "normalizeName ''App.example.com.'' = normalizeName ''app.example.com'' \<and> ToUpper ''a'' = ToUpper ''A''"
  by (rule marker_unique) code_simp+

text \<open>
  Reading an owner out of a TXT value never slices out of range, and it
  yields a label exactly when the value is the encoding of that label.
\<close>

theorem owner_value_exact:
  "decodeOwnership_go v = Ok (decodeOwnership v) \<and> (decodeOwnership v = Some l \<longleftrightarrow> v = encodeOwnership l)"
  by (simp add: decodeOwnership_go_total decodeOwnership_Some)

end
