(* ===== verification/Routing.thy ===== *)
theory Routing
  imports Ownership
begin

text \<open>
  Which names the sidecar serves and to which zone a name belongs:
  \<open>matchesDomainFilter\<close> and \<open>zoneFor\<close> of
  \<open>internal/orchestrator/orchestrator.go\<close>.
\<close>

section \<open>Definitions\<close>

text \<open>The test both functions share: equal, or a suffix on a label boundary.\<close>

definition under :: "string \<Rightarrow> string \<Rightarrow> bool" where
  "under name z \<longleftrightarrow> name = z \<or> HasSuffix name (''.'' @ z)"

definition matchesDomainFilter :: "Options \<Rightarrow> string \<Rightarrow> bool" where
  "matchesDomainFilter opts fqdn =
     (if opt_DomainFilter opts = [] then True
      else list_ex (under (normalizeName fqdn)) (opt_DomainFilter opts))"

definition zone_matches :: "Options \<Rightarrow> string \<Rightarrow> string list" where
  "zone_matches opts fqdn = filter (under (normalizeName fqdn)) (opt_Zones opts)"

text \<open>
  \<open>sort.Slice\<close> promises a sorted permutation and no stability; \<open>sort_key\<close> is one
  such sort and \<open>zoneFor_any_sort\<close> shows the choice is immaterial.
\<close>

definition zoneFor :: "Options \<Rightarrow> string \<Rightarrow> string" where
  "zoneFor opts fqdn =
     (case sort_key (\<lambda>z. - int (length z)) (zone_matches opts fqdn) of
        [] \<Rightarrow> []
      | z # _ \<Rightarrow> z)"

section \<open>Lemmas\<close>

lemma under_HasSuffix: "under name z \<Longrightarrow> HasSuffix name z"
  by (auto simp: under_def HasSuffix_iff)

lemma under_same_length: "under name z \<Longrightarrow> under name z' \<Longrightarrow> length z = length z' \<Longrightarrow> z = z'"
  using under_HasSuffix [of name z] under_HasSuffix [of name z'] by (simp add: HasSuffix_def)

lemma under_refl [simp]: "under z z"
  by (simp add: under_def)

lemma under_label: "under (l @ ''.'' @ z) z"
  by (simp add: under_def HasSuffix_iff)

lemma under_trans: "under a b \<Longrightarrow> under b c \<Longrightarrow> under a c"
  by (auto simp: under_def HasSuffix_iff)

lemma sorted_hd_longest:
  assumes "sorted (map (\<lambda>z. - int (length z)) (z # zs))" "z' \<in> set (z # zs)"
  shows "length z' \<le> length z"
  using assms by auto

lemma zoneFor_any_sort_aux:
  assumes perm: "mset ms = mset (zone_matches opts fqdn)"
    and sorted: "sorted_wrt (\<lambda>a b. length b \<le> length a) ms"
  shows "zoneFor opts fqdn = (case ms of [] \<Rightarrow> [] | z # _ \<Rightarrow> z)"
proof -
  let ?ss = "sort_key (\<lambda>z. - int (length z)) (zone_matches opts fqdn)"
  have same: "set ms = set ?ss"
    using perm by (metis mset_sort set_mset_mset)
  show ?thesis
  proof (cases ?ss)
    case Nil
    with same show ?thesis by (simp add: zoneFor_def)
  next
    case (Cons z zs)
    with same obtain m ms' where ms: "ms = m # ms'" by (cases ms) auto
    have "sorted (map (\<lambda>z. - int (length z)) (z # zs))"
      using sorted_sort_key Cons by metis
    then have "length m \<le> length z"
      using sorted_hd_longest same Cons ms by (metis list.set_intros(1))
    moreover have "length z \<le> length m"
      using sorted same Cons ms by (metis list.set_intros(1) order_refl set_ConsD sorted_wrt.simps(2))
    moreover have "z \<in> set (zone_matches opts fqdn)" "m \<in> set (zone_matches opts fqdn)"
      using perm ms Cons by (metis list.set_intros(1) set_sort, metis list.set_intros(1) set_mset_mset)
    then have "under (normalizeName fqdn) z" "under (normalizeName fqdn) m"
      by (simp_all add: zone_matches_def)
    ultimately have "z = m" by (metis le_antisym under_same_length)
    then show ?thesis using Cons ms by (simp add: zoneFor_def)
  qed
qed

lemma zoneFor_in:
  assumes "zoneFor opts fqdn \<noteq> []"
  shows "zoneFor opts fqdn \<in> set (opt_Zones opts)" "under (normalizeName fqdn) (zoneFor opts fqdn)"
proof -
  have "zoneFor opts fqdn \<in> set (sort_key (\<lambda>z. - int (length z)) (zone_matches opts fqdn))"
    using assms by (simp add: zoneFor_def del: set_sort split: list.splits)
  then show "zoneFor opts fqdn \<in> set (opt_Zones opts)" "under (normalizeName fqdn) (zoneFor opts fqdn)"
    by (auto simp: zone_matches_def)
qed

lemma zoneFor_longest_aux:
  assumes "z \<in> set (opt_Zones opts)" "under (normalizeName fqdn) z"
  shows "length z \<le> length (zoneFor opts fqdn)"
proof -
  let ?ss = "sort_key (\<lambda>z. - int (length z)) (zone_matches opts fqdn)"
  have z: "z \<in> set ?ss" using assms by (simp add: zone_matches_def)
  then obtain y ys where ss: "?ss = y # ys" by (cases ?ss) auto
  have "sorted (map (\<lambda>z. - int (length z)) (y # ys))"
    using sorted_sort_key ss by metis
  then have "length z \<le> length y"
    using sorted_hd_longest z ss by metis
  then show ?thesis by (simp add: zoneFor_def ss)
qed

lemma zoneFor_none:
  "(\<forall>z \<in> set (opt_Zones opts). \<not> under (normalizeName fqdn) z) \<Longrightarrow> zoneFor opts fqdn = []"
  using zoneFor_in by blast

section \<open>Properties\<close>

text \<open>
  C23. A name that lies in some configured zone is routed to a configured zone it
  lies in, on a label boundary, and to the longest such zone.
\<close>

theorem zoneFor_longest_match:
  assumes "z \<in> set (opt_Zones opts)" "z \<noteq> []" "under (normalizeName fqdn) z"
  shows "zoneFor opts fqdn \<in> set (opt_Zones opts) \<and> under (normalizeName fqdn) (zoneFor opts fqdn) \<and>
    length z \<le> length (zoneFor opts fqdn)"
proof -
  have l: "length z \<le> length (zoneFor opts fqdn)" using assms by (intro zoneFor_longest_aux) auto
  with assms(2) have "zoneFor opts fqdn \<noteq> []" by auto
  with l zoneFor_in show ?thesis by blast
qed

definition two_zones :: Options where
  "two_zones =
     \<lparr>opt_Hosts = [''dc1.example.com''], opt_Port = 53, opt_Zones = [''example.com'', ''dev.example.com''],
      opt_AxfrEnabled = True, opt_DefaultTTL = 3600, opt_MinTTL = 60, opt_CircuitBreakerThreshold = 3,
      opt_DomainFilter = [], opt_DryRun = False\<rparr>"

theorem zoneFor_longest_match_witness:
  "zoneFor two_zones ''App.Dev.example.com.'' \<in> set (opt_Zones two_zones) \<and>
   under (normalizeName ''App.Dev.example.com.'') (zoneFor two_zones ''App.Dev.example.com.'') \<and>
   length ''example.com'' \<le> length (zoneFor two_zones ''App.Dev.example.com.'')"
  by (rule zoneFor_longest_match) code_simp+

text \<open>
  \<open>sort.Slice\<close> need not be stable: whichever longest-first order it leaves the
  matching zones in, the first of them is the same zone.
\<close>

theorem zoneFor_any_sort:
  assumes "mset ms = mset (zone_matches opts fqdn)" "sorted_wrt (\<lambda>a b. length b \<le> length a) ms"
  shows "zoneFor opts fqdn = (case ms of [] \<Rightarrow> [] | z # _ \<Rightarrow> z)"
  using assms by (rule zoneFor_any_sort_aux)

theorem zoneFor_any_sort_witness:
  "zoneFor two_zones ''a.dev.example.com'' =
     (case [''dev.example.com'', ''example.com''] of [] \<Rightarrow> [] | z # _ \<Rightarrow> z)"
proof (rule zoneFor_any_sort)
  have "zone_matches two_zones ''a.dev.example.com'' = [''example.com'', ''dev.example.com'']" by code_simp
  then show "mset [''dev.example.com'', ''example.com''] = mset (zone_matches two_zones ''a.dev.example.com'')"
    by simp
qed simp

end
