(* ===== verification/Endpoints.thy ===== *)
theory Endpoints
  imports Routing
begin

text \<open>
  From external-dns endpoints to DNS records
  (\<open>internal/orchestrator/orchestrator.go\<close>): \<open>canonicalRdata\<close>, the TTL rule and
  \<open>endpointToRecords\<close>.
\<close>

section \<open>Endpoints to records\<close>

definition dotted :: "string \<Rightarrow> string" where
  "dotted t = (if \<not> HasSuffix t ''.'' then t @ ''.'' else t)"

text \<open>The empty string is the source's rejection value.\<close>

definition canonicalRdata :: "string \<Rightarrow> string \<Rightarrow> string" where
  "canonicalRdata rtype target =
     (let t = TrimSpace target
      in if t = [] then []
         else if rtype = ''A'' \<or> rtype = ''AAAA'' then ToLower t
         else if rtype = ''CNAME'' \<or> rtype = ''NS'' then dotted (ToLower t)
         else if rtype = ''MX'' then
           (case Fields t of [p, h] \<Rightarrow> p @ '' '' @ dotted (ToLower h) | _ \<Rightarrow> [])
         else [])"

definition supported_types :: "string list" where
  "supported_types = [''A'', ''AAAA'', ''CNAME'', ''NS'', ''MX'']"

definition clampTTL :: "Options \<Rightarrow> int \<Rightarrow> int" where
  "clampTTL opts recordTTL =
     (let ttl = (if recordTTL \<le> 0 then opt_DefaultTTL opts else recordTTL)
      in if ttl < opt_MinTTL opts then opt_MinTTL opts else ttl)"

definition endpointToRecords :: "Options \<Rightarrow> Endpoint option \<Rightarrow> Record list" where
  "endpointToRecords opts p =
     (case p of
        None \<Rightarrow> []
      | Some e \<Rightarrow>
          (if ep_Targets e = [] then []
           else let rtype = ToUpper (ep_RecordType e)
                in if rtype \<notin> set supported_types then []
                   else let ttl = clampTTL opts (ep_RecordTTL e); name = normalizeName (ep_DNSName e)
                        in map (\<lambda>v. \<lparr>rec_Name = name, rec_Type = rtype, rec_TTL = ttl, rec_Value = v\<rparr>)
                             (filter (\<lambda>v. v \<noteq> []) (map (canonicalRdata rtype) (ep_Targets e)))))"

section \<open>Canonical record data\<close>

lemma Fields_aux_nospace:
  "\<forall>c \<in> set s. \<not> isSpace c \<Longrightarrow> Fields_aux acc s = (if acc = [] \<and> s = [] then [] else [rev acc @ s])"
  by (induction s arbitrary: acc) auto

lemma Fields_aux_space:
  "\<forall>c \<in> set s. \<not> isSpace c \<Longrightarrow> isSpace d \<Longrightarrow> acc \<noteq> [] \<or> s \<noteq> [] \<Longrightarrow>
     Fields_aux acc (s @ d # t) = (rev acc @ s) # Fields_aux [] t"
  by (induction s arbitrary: acc) auto

lemma Fields_two:
  "\<forall>c \<in> set p. \<not> isSpace c \<Longrightarrow> \<forall>c \<in> set h. \<not> isSpace c \<Longrightarrow> p \<noteq> [] \<Longrightarrow> h \<noteq> [] \<Longrightarrow>
     Fields (p @ '' '' @ h) = [p, h]"
  by (simp add: Fields_def Fields_aux_space Fields_aux_nospace isSpace_def)

definition solid :: "string \<Rightarrow> bool" where
  "solid p \<longleftrightarrow> p \<noteq> [] \<and> (\<forall>c \<in> set p. \<not> isSpace c)"

lemma solid_rev_acc: "\<forall>c \<in> set acc. \<not> isSpace c \<Longrightarrow> acc \<noteq> [] \<Longrightarrow> solid (rev acc)"
  by (simp add: solid_def)

lemma Fields_aux_parts: "\<forall>c \<in> set acc. \<not> isSpace c \<Longrightarrow> list_all solid (Fields_aux acc s)"
proof (induction s arbitrary: acc)
  case Nil
  then show ?case by (simp add: solid_rev_acc)
next
  case (Cons c s)
  show ?case
  proof (cases "isSpace c")
    case True
    then show ?thesis using Cons.IH [of "[]"] Cons.prems by (simp add: solid_rev_acc)
  next
    case False
    then show ?thesis using Cons.IH [of "c # acc"] Cons.prems by simp
  qed
qed

lemma Fields_parts: "p \<in> set (Fields s) \<Longrightarrow> p \<noteq> [] \<and> (\<forall>c \<in> set p. \<not> isSpace c)"
  using Fields_aux_parts [of "[]" s] by (simp add: Fields_def list_all_iff solid_def)

lemma TrimSpace_ToLower: "TrimSpace (ToLower s) = ToLower (TrimSpace s)"
  by (simp add: TrimSpace_def TrimLeft_def TrimRight_def ToLower_def rev_map dropWhile_map comp_def)

lemma dotted_simps [simp]:
  "dotted t \<noteq> []" "dotted (dotted t) = dotted t" "HasSuffix (dotted t) ''.''"
  "last (dotted t) = CHR ''.''"
  by (auto simp: dotted_def HasSuffix_single)

lemma ToLower_dotted [simp]: "ToLower (dotted t) = dotted (ToLower t)"
  by (simp add: dotted_def)

lemma hd_dotted [simp]: "t \<noteq> [] \<Longrightarrow> hd (dotted t) = hd t"
  by (simp add: dotted_def)

lemma set_dotted: "set (dotted t) \<subseteq> insert CHR ''.'' (set t)"
  by (auto simp: dotted_def)

lemma TrimSpace_dotted: "TrimSpace t = t \<Longrightarrow> t \<noteq> [] \<Longrightarrow> TrimSpace (dotted t) = dotted t"
  using TrimSpace_ends [of t]
  by (intro TrimSpace_nonspace) (simp_all add: isSpace_def)

lemma nospace_ToLower: "\<forall>c \<in> set s. \<not> isSpace c \<Longrightarrow> \<forall>c \<in> set (ToLower s). \<not> isSpace c"
  by (auto simp: ToLower_def)

lemma canonicalRdata_MX_idem:
  assumes "canonicalRdata ''MX'' v \<noteq> []"
  shows "canonicalRdata ''MX'' (canonicalRdata ''MX'' v) = canonicalRdata ''MX'' v"
proof -
  from assms obtain p h where f: "Fields (TrimSpace v) = [p, h]"
    and c: "canonicalRdata ''MX'' v = p @ '' '' @ dotted (ToLower h)"
    by (auto simp: canonicalRdata_def Let_def split: if_splits list.splits)
  have p: "p \<noteq> []" "\<forall>c \<in> set p. \<not> isSpace c" and h: "h \<noteq> []" "\<forall>c \<in> set h. \<not> isSpace c"
    using f Fields_parts [of _ "TrimSpace v"] by auto
  have d: "\<forall>c \<in> set (dotted (ToLower h)). \<not> isSpace c"
    using nospace_ToLower [OF h(2)] set_dotted [of "ToLower h"] by (auto simp: isSpace_def)
  have "TrimSpace (p @ '' '' @ dotted (ToLower h)) = p @ '' '' @ dotted (ToLower h)"
    using p by (intro TrimSpace_nonspace) (simp_all add: isSpace_def)
  moreover have "Fields (p @ '' '' @ dotted (ToLower h)) = [p, dotted (ToLower h)]"
    using p d by (intro Fields_two) auto
  ultimately show ?thesis
    by (simp add: c) (simp add: canonicalRdata_def Let_def)
qed

lemma canonicalRdata_idem: "canonicalRdata t (canonicalRdata t v) = canonicalRdata t v"
proof (cases "canonicalRdata t v = []")
  case True
  then show ?thesis by (simp add: canonicalRdata_def TrimSpace_def TrimLeft_def)
next
  case False
  have tr: "TrimSpace (ToLower (TrimSpace v)) = ToLower (TrimSpace v)"
    by (simp add: TrimSpace_ToLower)
  consider "t = ''A'' \<or> t = ''AAAA''" | "t = ''CNAME'' \<or> t = ''NS''" | "t = ''MX''"
    using False by (auto simp: canonicalRdata_def Let_def split: if_splits)
  then show ?thesis
  proof cases
    case 1
    then show ?thesis using tr by (auto simp: canonicalRdata_def Let_def)
  next
    case 2
    with False have "ToLower (TrimSpace v) \<noteq> []"
      by (auto simp: canonicalRdata_def Let_def)
    then show ?thesis
      using 2 TrimSpace_dotted [OF tr] by (auto simp: canonicalRdata_def Let_def)
  next
    case 3
    then show ?thesis using canonicalRdata_MX_idem False by simp
  qed
qed

section \<open>Records of an endpoint\<close>

lemma clampTTL_ge: "opt_MinTTL opts \<le> clampTTL opts ttl"
  by (simp add: clampTTL_def Let_def)

lemma endpointToRecords_fields:
  assumes "r \<in> set (endpointToRecords opts (Some e))"
  shows "rec_Name r = normalizeName (ep_DNSName e)" "rec_Type r = ToUpper (ep_RecordType e)"
    "rec_Type r \<in> set supported_types" "rec_TTL r = clampTTL opts (ep_RecordTTL e)" "rec_Value r \<noteq> []"
    "rec_Value r \<in> canonicalRdata (rec_Type r) ` set (ep_Targets e)"
  using assms by (auto simp: endpointToRecords_def Let_def split: if_splits)

lemma endpointToRecords_None [simp]: "endpointToRecords opts None = []"
  by (simp add: endpointToRecords_def)

section \<open>Properties\<close>

text \<open>
  Canonical record data is a fixed point: normalising a target twice gives
  what normalising it once gives, so comparing targets after a round trip through
  the orchestrator never reports a spurious difference.
\<close>

theorem canonicalRdata_fixpoint: "canonicalRdata t (canonicalRdata t v) = canonicalRdata t v"
  by (rule canonicalRdata_idem)

text \<open>
  Every record made of an endpoint carries its canonical name, a supported
  type, non-empty canonical data of one of its targets, and a TTL no shorter
  than the configured minimum.
\<close>

theorem endpoint_records_valid:
  assumes "r \<in> set (endpointToRecords opts (Some e))"
  shows "rec_Name r = normalizeName (ep_DNSName e) \<and> rec_Type r \<in> set supported_types \<and>
    rec_Value r \<noteq> [] \<and> canonicalRdata (rec_Type r) (rec_Value r) = rec_Value r \<and>
    opt_MinTTL opts \<le> rec_TTL r"
proof -
  note f = endpointToRecords_fields [OF assms]
  obtain t where "rec_Value r = canonicalRdata (rec_Type r) t" using f(6) by auto
  then have "canonicalRdata (rec_Type r) (rec_Value r) = rec_Value r" by (simp add: canonicalRdata_idem)
  with f clampTTL_ge show ?thesis by simp
qed

definition mx_endpoint :: Endpoint where
  "mx_endpoint =
     \<lparr>ep_DNSName = ''Example.com'', ep_Targets = ['' 10  Mail.Example.com '', ''''], ep_RecordType = ''mx'',
      ep_RecordTTL = 5, ep_Labels = Some [''owner'' \<mapsto> ''prod'']\<rparr>"

definition mx_record :: Record where
  "mx_record = \<lparr>rec_Name = ''example.com'', rec_Type = ''MX'', rec_TTL = 60, rec_Value = ''10 mail.example.com.''\<rparr>"

lemma mx_endpoint_records: "endpointToRecords two_zones (Some mx_endpoint) = [mx_record]"
  by code_simp

theorem endpoint_records_valid_witness:
  "rec_Name mx_record = normalizeName (ep_DNSName mx_endpoint) \<and> rec_Type mx_record \<in> set supported_types \<and>
   rec_Value mx_record \<noteq> [] \<and>
   canonicalRdata (rec_Type mx_record) (rec_Value mx_record) = rec_Value mx_record \<and>
   opt_MinTTL two_zones \<le> rec_TTL mx_record"
  by (rule endpoint_records_valid) (simp add: mx_endpoint_records)

end
