(* ===== verification/ZoneView.thy ===== *)
theory ZoneView
  imports Endpoints
begin

text \<open>
  What the orchestrator reads out of a cached zone before it creates records
  (\<open>internal/orchestrator/orchestrator.go\<close>): \<open>indexByName\<close>, \<open>orphanOwnership\<close>
  and \<open>collisionReason\<close>.
\<close>

section \<open>Definitions\<close>

text \<open>A lookup in a Go map of slices: the nil slice when the key is absent.\<close>

definition slice_at :: "('k \<rightharpoonup> 'a list) \<Rightarrow> 'k \<Rightarrow> 'a list" where
  "slice_at m k = (case m k of None \<Rightarrow> [] | Some xs \<Rightarrow> xs)"

fun indexByName_aux :: "(string \<rightharpoonup> Record list) \<Rightarrow> Record list \<Rightarrow> (string \<rightharpoonup> Record list)" where
  "indexByName_aux out [] = out"
| "indexByName_aux out (r # rs) =
     (let k = normalizeName (rec_Name r) in indexByName_aux (out(k \<mapsto> slice_at out k @ [r])) rs)"

definition indexByName :: "Record list \<Rightarrow> (string \<rightharpoonup> Record list)" where
  "indexByName recs = indexByName_aux Map.empty recs"

text \<open>One iteration of the loop of \<open>orphanOwnership\<close>: the name it marks, if any.\<close>

definition orphan_of :: "(string \<rightharpoonup> Record list) \<Rightarrow> Record \<Rightarrow> string option" where
  "orphan_of byName r =
     (if rec_Type r \<noteq> ''TXT'' then None
      else case decodeOwnership (rec_Value r) of
             None \<Rightarrow> None
           | Some _ \<Rightarrow>
               (let nm = normalizeName (rec_Name r)
                in case decodeOwnershipName nm of
                     None \<Rightarrow> None
                   | Some (dataName, dataType) \<Rightarrow>
                       if list_ex (\<lambda>s. rec_Type s = dataType) (slice_at byName dataName)
                       then None else Some nm))"

definition orphanOwnership :: "Record list \<Rightarrow> string set" where
  "orphanOwnership recs = set (List.map_filter (orphan_of (indexByName recs)) recs)"

text \<open>
  The reason string is only logged and compared with \<open>\"\"\<close>; it is kept as a
  value that names the branch and its data.
\<close>

datatype collision =
    CnameCannotCoexist
  | CnameForbidsOthers
  | ExistingUnmanaged string string
  | OwnedByOther string string string string

fun first_owner :: "Record list \<Rightarrow> string" where
  "first_owner [] = []"
| "first_owner (s # ss) =
     (if rec_Type s \<noteq> ''TXT'' then first_owner ss
      else case decodeOwnership (rec_Value s) of Some owner \<Rightarrow> owner | None \<Rightarrow> first_owner ss)"

definition collisionReason :: "(string \<rightharpoonup> Record list) \<Rightarrow> Record \<Rightarrow> string \<Rightarrow> collision option" where
  "collisionReason cachedByName r requestOwner =
     (let sameName = slice_at cachedByName (normalizeName (rec_Name r));
          hasCname = list_ex (\<lambda>s. rec_Type s = ''CNAME'') sameName;
          hasNonCname = list_ex (\<lambda>s. rec_Type s \<noteq> ''CNAME'' \<and> rec_Type s \<noteq> ''TXT'') sameName;
          existingSameType = list_ex (\<lambda>s. rec_Type s = rec_Type r) sameName
      in if rec_Type r = ''CNAME'' \<and> hasNonCname then Some CnameCannotCoexist
         else if rec_Type r \<noteq> ''CNAME'' \<and> hasCname then Some CnameForbidsOthers
         else if existingSameType then
           (let existingOwner =
                  first_owner (slice_at cachedByName (ownershipNameFor (rec_Type r) (rec_Name r)))
            in if existingOwner = [] then Some (ExistingUnmanaged (rec_Type r) (rec_Name r))
               else if existingOwner \<noteq> requestOwner
               then Some (OwnedByOther (rec_Type r) (rec_Name r) existingOwner requestOwner)
               else None)
         else None)"

section \<open>The index\<close>

lemma slice_at_simps [simp]:
  "slice_at Map.empty k = []" "slice_at (m(j \<mapsto> xs)) k = (if k = j then xs else slice_at m k)"
  by (auto simp: slice_at_def)

lemma indexByName_aux:
  "slice_at (indexByName_aux out rs) k =
     slice_at out k @ filter (\<lambda>r. normalizeName (rec_Name r) = k) rs"
  by (induction rs arbitrary: out) (simp_all add: Let_def)

lemma slice_at_indexByName:
  "slice_at (indexByName recs) k = filter (\<lambda>r. normalizeName (rec_Name r) = k) recs"
  by (simp add: indexByName_def indexByName_aux)

section \<open>Orphaned marks\<close>

lemma orphanOwnership_iff:
  "nm \<in> orphanOwnership recs \<longleftrightarrow>
     (\<exists>r \<in> set recs. \<exists>dn dt. rec_Type r = ''TXT'' \<and> normalizeName (rec_Name r) = nm \<and>
        decodeOwnership (rec_Value r) \<noteq> None \<and> decodeOwnershipName nm = Some (dn, dt) \<and>
        (\<forall>s \<in> set recs. normalizeName (rec_Name s) = dn \<longrightarrow> rec_Type s \<noteq> dt))"
  (is "?L \<longleftrightarrow> ?R")
proof -
  have "?L \<longleftrightarrow> (\<exists>r \<in> set recs. orphan_of (indexByName recs) r = Some nm)"
    by (auto simp: orphanOwnership_def List.map_filter_def image_iff)
  also have "\<dots> \<longleftrightarrow> ?R"
    by (rule bex_cong [OF refl])
      (auto simp: orphan_of_def Let_def slice_at_indexByName list_ex_iff split: option.splits)
  finally show ?thesis .
qed

section \<open>Collisions\<close>

text \<open>The records of a name, as the check sees them.\<close>

definition at_name :: "Record list \<Rightarrow> string \<Rightarrow> Record set" where
  "at_name recs n = {s \<in> set recs. normalizeName (rec_Name s) = n}"

lemma list_ex_indexByName: "list_ex P (slice_at (indexByName recs) n) \<longleftrightarrow> (\<exists>s \<in> at_name recs n. P s)"
  by (auto simp: slice_at_indexByName at_name_def list_ex_iff)

definition registered_owner :: "Record list \<Rightarrow> Record \<Rightarrow> string" where
  "registered_owner recs r =
     first_owner (slice_at (indexByName recs) (ownershipNameFor (rec_Type r) (rec_Name r)))"

lemma no_collision_iff:
  "collisionReason (indexByName recs) r w = None \<longleftrightarrow>
     (let here = at_name recs (normalizeName (rec_Name r))
      in (rec_Type r = ''CNAME'' \<longrightarrow> (\<forall>s \<in> here. rec_Type s \<in> {''CNAME'', ''TXT''})) \<and>
         (rec_Type r \<noteq> ''CNAME'' \<longrightarrow> (\<forall>s \<in> here. rec_Type s \<noteq> ''CNAME'')) \<and>
         ((\<exists>s \<in> here. rec_Type s = rec_Type r) \<longrightarrow>
            registered_owner recs r = w \<and> w \<noteq> []))"
  by (auto simp: collisionReason_def Let_def list_ex_indexByName registered_owner_def)

lemma first_owner_found:
  "first_owner ss \<noteq> [] \<Longrightarrow>
     \<exists>s \<in> set ss. rec_Type s = ''TXT'' \<and> rec_Value s = encodeOwnership (first_owner ss)"
  by (induction ss rule: first_owner.induct)
    (auto split: if_splits option.splits simp: decodeOwnership_Some)

section \<open>Properties\<close>


definition a_rec :: "string \<Rightarrow> string \<Rightarrow> Record" where
  "a_rec name ip = \<lparr>rec_Name = name, rec_Type = ''A'', rec_TTL = 300, rec_Value = ip\<rparr>"

definition mark_rec :: "string \<Rightarrow> string \<Rightarrow> Record" where
  "mark_rec name owner = \<lparr>rec_Name = name, rec_Type = ''TXT'', rec_TTL = 300, rec_Value = encodeOwnership owner\<rparr>"


end
