(* ===== verification/Listing.thy ===== *)
theory Listing
  imports ZoneView
begin

text \<open>
  Reading endpoints back: \<open>endpointsFromRecords\<close> of
  \<open>internal/orchestrator/orchestrator.go\<close>, and its equivalence with a
  declarative reading (group the owned data records by name and type).
\<close>

section \<open>Definitions\<close>

type_synonym ownedMap = "string \<rightharpoonup> (string \<rightharpoonup> string)"

fun ownedTypes_aux :: "ownedMap \<Rightarrow> Record list \<Rightarrow> ownedMap" where
  "ownedTypes_aux m [] = m"
| "ownedTypes_aux m (r # rs) =
     ownedTypes_aux
       (if rec_Type r \<noteq> ''TXT'' then m
        else case decodeOwnership (rec_Value r) of
               None \<Rightarrow> m
             | Some owner \<Rightarrow>
                 (case decodeOwnershipName (rec_Name r) of
                    None \<Rightarrow> m
                  | Some (dataName, dataType) \<Rightarrow>
                      (let byType = (case m dataName of None \<Rightarrow> Map.empty | Some b \<Rightarrow> b)
                       in m(dataName \<mapsto> byType(dataType \<mapsto> owner))))) rs"

type_synonym epKey = "string \<times> string"

fun collect_aux ::
  "Options \<Rightarrow> string \<Rightarrow> ownedMap \<Rightarrow> (epKey \<rightharpoonup> Endpoint) \<Rightarrow> epKey list \<Rightarrow> Record list \<Rightarrow>
     (epKey \<rightharpoonup> Endpoint) \<times> epKey list" where
  "collect_aux opts zone owned bucketRecs order [] = (bucketRecs, order)"
| "collect_aux opts zone owned bucketRecs order (r # rs) =
     (if rec_Type r = ''TXT'' then collect_aux opts zone owned bucketRecs order rs
      else if \<not> matchesDomainFilter opts (rec_Name r) then collect_aux opts zone owned bucketRecs order rs
      else let name = normalizeName (rec_Name r)
           in case owned name of
                None \<Rightarrow> collect_aux opts zone owned bucketRecs order rs
              | Some ownerByType \<Rightarrow>
                  (case ownerByType (rec_Type r) of
                     None \<Rightarrow> collect_aux opts zone owned bucketRecs order rs
                   | Some owner \<Rightarrow>
                       (let k = (name, rec_Type r);
                            ep = (case bucketRecs k of
                                    Some ep \<Rightarrow> ep
                                  | None \<Rightarrow>
                                      \<lparr>ep_DNSName = name, ep_Targets = [], ep_RecordType = rec_Type r,
                                       ep_RecordTTL = rec_TTL r,
                                       ep_Labels = Some [''owner'' \<mapsto> owner,
                                                         ''resource'' \<mapsto> ''rfc2136/'' @ zone]\<rparr>);
                            order' = (if bucketRecs k = None then order @ [k] else order)
                        in collect_aux opts zone owned
                             (bucketRecs(k \<mapsto> ep\<lparr>ep_Targets := ep_Targets ep @ [rec_Value r]\<rparr>)) order' rs)))"

definition endpointsFromRecords :: "Options \<Rightarrow> Record list \<Rightarrow> string \<Rightarrow> Endpoint option list" where
  "endpointsFromRecords opts recs zone =
     (case collect_aux opts zone (ownedTypes_aux Map.empty recs) Map.empty [] recs of
        (bucketRecs, order) \<Rightarrow> map bucketRecs order)"

section \<open>The declarative reading\<close>

text \<open>The elements of a list in order of first occurrence.\<close>

definition firsts :: "'a list \<Rightarrow> 'a list" where
  "firsts xs = rev (remdups (rev xs))"

definition rec_key :: "Record \<Rightarrow> epKey" where
  "rec_key r = (normalizeName (rec_Name r), rec_Type r)"

text \<open>What one TXT record claims: an owner for a name and a type.\<close>

definition claim :: "Record \<Rightarrow> (epKey \<times> string) option" where
  "claim r =
     (if rec_Type r \<noteq> ''TXT'' then None
      else case decodeOwnership (rec_Value r) of
             None \<Rightarrow> None
           | Some owner \<Rightarrow> map_option (\<lambda>k. (k, owner)) (decodeOwnershipName (rec_Name r)))"

text \<open>The owner of a name and type: the last claim in zone order.\<close>

definition marked_owner :: "Record list \<Rightarrow> epKey \<Rightarrow> string option" where
  "marked_owner recs = map_of (rev (List.map_filter claim recs))"

definition listed :: "Options \<Rightarrow> (epKey \<Rightarrow> string option) \<Rightarrow> Record \<Rightarrow> bool" where
  "listed opts own r \<longleftrightarrow>
     rec_Type r \<noteq> ''TXT'' \<and> matchesDomainFilter opts (rec_Name r) \<and> own (rec_key r) \<noteq> None"

definition group :: "Options \<Rightarrow> (epKey \<Rightarrow> string option) \<Rightarrow> Record list \<Rightarrow> epKey \<Rightarrow> Record list" where
  "group opts own recs k = filter (\<lambda>r. listed opts own r \<and> rec_key r = k) recs"

definition group_endpoint ::
  "Options \<Rightarrow> string \<Rightarrow> (epKey \<Rightarrow> string option) \<Rightarrow> Record list \<Rightarrow> epKey \<Rightarrow> Endpoint" where
  "group_endpoint opts zone own recs k =
     \<lparr>ep_DNSName = fst k, ep_Targets = map rec_Value (group opts own recs k), ep_RecordType = snd k,
      ep_RecordTTL = rec_TTL (hd (group opts own recs k)),
      ep_Labels = Some [''owner'' \<mapsto> the (own k), ''resource'' \<mapsto> ''rfc2136/'' @ zone]\<rparr>"

definition listing_spec :: "Options \<Rightarrow> Record list \<Rightarrow> string \<Rightarrow> Endpoint list" where
  "listing_spec opts recs zone =
     map (group_endpoint opts zone (marked_owner recs) recs)
       (firsts (map rec_key (filter (listed opts (marked_owner recs)) recs)))"

section \<open>Equivalence\<close>

lemma firsts_snoc: "firsts (xs @ [x]) = (if x \<in> set xs then firsts xs else firsts xs @ [x])"
  by (simp add: firsts_def)

lemma firsts_simps [simp]: "set (firsts xs) = set xs" "distinct (firsts xs)" "firsts [] = []"
  by (simp_all add: firsts_def)

definition owner_at :: "ownedMap \<Rightarrow> epKey \<Rightarrow> string option" where
  "owner_at m k = (case m (fst k) of None \<Rightarrow> None | Some b \<Rightarrow> b (snd k))"

definition own_upd :: "ownedMap \<Rightarrow> string \<Rightarrow> string \<Rightarrow> string \<Rightarrow> ownedMap" where
  "own_upd m n t w = m(n \<mapsto> (case m n of None \<Rightarrow> Map.empty | Some b \<Rightarrow> b)(t \<mapsto> w))"

lemma owner_at_upd: "owner_at (own_upd m n t w) k = (if k = (n, t) then Some w else owner_at m k)"
  by (cases k) (auto simp: own_upd_def owner_at_def split: option.splits)

lemma owner_at_empty [simp]: "owner_at Map.empty k = None"
  by (simp add: owner_at_def)

lemma owner_at_ownedTypes_aux:
  "owner_at (ownedTypes_aux m rs) k =
     (case map_of (rev (List.map_filter claim rs)) k of None \<Rightarrow> owner_at m k | Some w \<Rightarrow> Some w)"
proof (induction rs arbitrary: m)
  case (Cons r rs)
  show ?case
  proof (cases "claim r")
    case None
    then have "ownedTypes_aux m (r # rs) = ownedTypes_aux m rs"
      by (auto simp: claim_def split: option.splits if_splits)
    with None show ?thesis by (simp add: Cons.IH List.map_filter_simps)
  next
    case (Some c)
    then obtain n t w where c: "c = ((n, t), w)" and r: "rec_Type r = ''TXT''"
      "decodeOwnership (rec_Value r) = Some w" "decodeOwnershipName (rec_Name r) = Some (n, t)"
      by (auto simp: claim_def split: option.splits if_splits)
    have "ownedTypes_aux m (r # rs) = ownedTypes_aux (own_upd m n t w) rs"
      using r by (simp add: Let_def own_upd_def)
    then have "owner_at (ownedTypes_aux m (r # rs)) k =
        (case map_of (rev (List.map_filter claim rs)) k of
           None \<Rightarrow> if k = (n, t) then Some w else owner_at m k | Some w \<Rightarrow> Some w)"
      by (simp only: Cons.IH owner_at_upd)
    with Some c show ?thesis
      by (auto simp: List.map_filter_simps map_add_def split: option.splits)
  qed
qed (simp add: List.map_filter_simps)

lemma owner_at_ownedTypes: "owner_at (ownedTypes_aux Map.empty recs) = marked_owner recs"
  by (rule ext) (simp add: owner_at_ownedTypes_aux marked_owner_def split: option.splits)

definition buckets_of ::
  "Options \<Rightarrow> string \<Rightarrow> (epKey \<Rightarrow> string option) \<Rightarrow> Record list \<Rightarrow> (epKey \<rightharpoonup> Endpoint)" where
  "buckets_of opts zone own ps k =
     (if group opts own ps k = [] then None else Some (group_endpoint opts zone own ps k))"

definition order_of :: "Options \<Rightarrow> (epKey \<Rightarrow> string option) \<Rightarrow> Record list \<Rightarrow> epKey list" where
  "order_of opts own ps = firsts (map rec_key (filter (listed opts own) ps))"

lemma group_snoc:
  "group opts own (ps @ [r]) k =
     (if listed opts own r \<and> rec_key r = k then group opts own ps k @ [r] else group opts own ps k)"
  by (simp add: group_def)

lemma group_Nil_iff: "group opts own ps k = [] \<longleftrightarrow> k \<notin> set (order_of opts own ps)"
  by (auto simp: group_def order_of_def filter_empty_conv)

lemma order_of_snoc:
  "order_of opts own (ps @ [r]) =
     (if listed opts own r \<and> rec_key r \<notin> set (order_of opts own ps)
      then order_of opts own ps @ [rec_key r] else order_of opts own ps)"
  by (auto simp: order_of_def firsts_snoc)

lemma buckets_of_skip:
  "\<not> listed opts own r \<Longrightarrow> buckets_of opts zone own (ps @ [r]) = buckets_of opts zone own ps"
  by (rule ext) (simp add: buckets_of_def group_snoc group_endpoint_def)

lemma buckets_of_add:
  assumes "listed opts own r" "own (rec_key r) = Some w"
  shows "buckets_of opts zone own (ps @ [r]) =
    (let k = rec_key r;
         ep = (case buckets_of opts zone own ps k of
                 Some ep \<Rightarrow> ep
               | None \<Rightarrow> \<lparr>ep_DNSName = fst k, ep_Targets = [], ep_RecordType = snd k,
                          ep_RecordTTL = rec_TTL r,
                          ep_Labels = Some [''owner'' \<mapsto> w, ''resource'' \<mapsto> ''rfc2136/'' @ zone]\<rparr>)
     in (buckets_of opts zone own ps)(k \<mapsto> ep\<lparr>ep_Targets := ep_Targets ep @ [rec_Value r]\<rparr>))"
  using assms
  by (intro ext) (auto simp: buckets_of_def group_snoc group_endpoint_def Let_def hd_append)

lemma collect_step:
  "collect_aux opts zone owned (buckets_of opts zone (owner_at owned) ps) (order_of opts (owner_at owned) ps) (r # rs) =
   collect_aux opts zone owned (buckets_of opts zone (owner_at owned) (ps @ [r]))
     (order_of opts (owner_at owned) (ps @ [r])) rs"
proof (cases "listed opts (owner_at owned) r")
  case False
  then show ?thesis
    by (auto simp: buckets_of_skip order_of_snoc listed_def rec_key_def owner_at_def Let_def
        split: option.splits)
next
  case True
  then obtain b w where o: "owned (normalizeName (rec_Name r)) = Some b" "b (rec_Type r) = Some w"
    by (auto simp: listed_def rec_key_def owner_at_def split: option.splits)
  then have w: "owner_at owned (rec_key r) = Some w"
    by (simp add: rec_key_def owner_at_def)
  have k: "buckets_of opts zone (owner_at owned) ps (rec_key r) = None \<longleftrightarrow>
      rec_key r \<notin> set (order_of opts (owner_at owned) ps)"
    by (simp add: buckets_of_def group_Nil_iff)
  note add = buckets_of_add [OF True w, unfolded rec_key_def fst_conv snd_conv Let_def]
  show ?thesis
  proof (cases "buckets_of opts zone (owner_at owned) ps (rec_key r)")
    case None
    with True o k show ?thesis
      by (simp add: add order_of_snoc Let_def) (simp add: listed_def rec_key_def)
  next
    case (Some ep)
    with True o k show ?thesis
      by (simp add: add order_of_snoc Let_def) (simp add: listed_def rec_key_def)
  qed
qed

lemma collect_all:
  "collect_aux opts zone owned (buckets_of opts zone (owner_at owned) ps) (order_of opts (owner_at owned) ps) rs =
   (buckets_of opts zone (owner_at owned) (ps @ rs), order_of opts (owner_at owned) (ps @ rs))"
proof (induction rs arbitrary: ps)
  case (Cons r rs)
  show ?case
    unfolding collect_step Cons.IH by simp
qed simp

lemma endpointsFromRecords_spec:
  "endpointsFromRecords opts recs zone = map Some (listing_spec opts recs zone)"
proof -
  let ?own = "marked_owner recs"
  have start: "buckets_of opts zone ?own [] = Map.empty" "order_of opts ?own [] = []"
    by (auto simp: buckets_of_def group_def order_of_def)
  have "collect_aux opts zone (ownedTypes_aux Map.empty recs) Map.empty [] recs =
      (buckets_of opts zone ?own recs, order_of opts ?own recs)"
    using collect_all [of opts zone "ownedTypes_aux Map.empty recs" "[]" recs]
    by (simp add: owner_at_ownedTypes start)
  moreover have "map (buckets_of opts zone ?own recs) (order_of opts ?own recs) =
      map (\<lambda>k. Some (group_endpoint opts zone ?own recs k)) (order_of opts ?own recs)"
    by (rule map_cong [OF refl]) (simp add: buckets_of_def group_Nil_iff)
  ultimately show ?thesis
    by (simp add: endpointsFromRecords_def listing_spec_def order_of_def)
qed

section \<open>Consequences\<close>

lemma marked_owner_Some:
  "marked_owner recs k = Some w \<Longrightarrow> \<exists>r \<in> set recs. claim r = Some (k, w)"
  by (auto simp: marked_owner_def List.map_filter_def dest!: map_of_SomeD) (metis option.collapse)

lemma claim_marks:
  assumes "claim r = Some (k, w)" "r \<in> set recs"
  shows "marked_owner recs k \<noteq> None"
proof -
  have "(k, w) \<in> set (List.map_filter claim recs)"
    using assms by (induction recs) (auto simp: List.map_filter_simps split: option.splits)
  then have "(k, w) \<in> set (rev (List.map_filter claim recs))" by simp
  then show ?thesis
    using weak_map_of_SomeI by (fastforce simp: marked_owner_def)
qed

lemma listing_spec_keys: "distinct (map (\<lambda>e. (ep_DNSName e, ep_RecordType e)) (listing_spec opts recs zone))"
  by (simp add: listing_spec_def comp_def group_endpoint_def)

lemma listing_specE:
  assumes "e \<in> set (listing_spec opts recs zone)"
  obtains k where "e = group_endpoint opts zone (marked_owner recs) recs k"
    "group opts (marked_owner recs) recs k \<noteq> []" "marked_owner recs k \<noteq> None"
proof -
  from assms obtain r where r: "r \<in> set recs" "listed opts (marked_owner recs) r"
    "e = group_endpoint opts zone (marked_owner recs) recs (rec_key r)"
    by (auto simp: listing_spec_def)
  then show thesis
    by (intro that [of "rec_key r"]) (auto simp: group_def filter_empty_conv listed_def)
qed

section \<open>Properties\<close>

text \<open>
  C7. The two-pass listing with its nested maps and its order slice computes the
  declarative reading: one endpoint per owned name and type, in order of first
  appearance, with the values in zone order and the TTL of the first record.
\<close>

theorem listing_equivalence:
  "endpointsFromRecords opts recs zone = map Some (listing_spec opts recs zone)"
  by (rule endpointsFromRecords_spec)

text \<open>
  C8. Nothing unowned is listed: every listed endpoint has a TXT record in the
  zone that marks its name and type, its owner label is copied verbatim from such
  a record, and each of its targets is the value of a data record of that name
  and type.
\<close>

theorem listing_sound:
  assumes "Some e \<in> set (endpointsFromRecords opts recs zone)"
  shows "\<exists>m l owner. m \<in> set recs \<and> rec_Type m = ''TXT'' \<and> ep_Labels e = Some l \<and> l ''owner'' = Some owner \<and>
     rec_Value m = encodeOwnership owner \<and>
     decodeOwnershipName (rec_Name m) = Some (ep_DNSName e, ep_RecordType e) \<and>
     ep_Targets e \<noteq> [] \<and>
     (\<forall>v \<in> set (ep_Targets e). \<exists>r \<in> set recs.
        rec_Value r = v \<and> rec_Type r = ep_RecordType e \<and> normalizeName (rec_Name r) = ep_DNSName e)"
proof -
  from assms have "e \<in> set (listing_spec opts recs zone)" by (auto simp: endpointsFromRecords_spec)
  then obtain k where e: "e = group_endpoint opts zone (marked_owner recs) recs k"
    and g: "group opts (marked_owner recs) recs k \<noteq> []" and "marked_owner recs k \<noteq> None"
    by (rule listing_specE)
  then obtain w where w: "marked_owner recs k = Some w" by auto
  then obtain m where "m \<in> set recs" "claim m = Some (k, w)" using marked_owner_Some by blast
  then have "m \<in> set recs \<and> rec_Type m = ''TXT'' \<and> rec_Value m = encodeOwnership w \<and>
      decodeOwnershipName (rec_Name m) = Some (ep_DNSName e, ep_RecordType e)"
    by (auto simp: claim_def decodeOwnership_Some e group_endpoint_def split: if_splits option.splits)
  moreover have "ep_Labels e = Some [''owner'' \<mapsto> w, ''resource'' \<mapsto> ''rfc2136/'' @ zone]"
    using w by (simp add: e group_endpoint_def)
  moreover have "\<forall>v \<in> set (ep_Targets e). \<exists>r \<in> set recs.
        rec_Value r = v \<and> rec_Type r = ep_RecordType e \<and> normalizeName (rec_Name r) = ep_DNSName e"
    by (auto simp: e group_endpoint_def group_def rec_key_def)
  ultimately show ?thesis using g by (auto simp: e group_endpoint_def)
qed

definition owned_zone :: "Record list" where
  "owned_zone = [a_rec ''x.example.com'' ''1.1.1.1'', mark_rec ''ddo-a.x.example.com'' ''prod'',
                 a_rec ''y.example.com'' ''2.2.2.2'', a_rec ''x.example.com'' ''3.3.3.3'']"

definition owned_endpoint :: Endpoint where
  "owned_endpoint = group_endpoint two_zones ''example.com'' (marked_owner owned_zone) owned_zone (''x.example.com'', ''A'')"

lemma owned_zone_spec: "listing_spec two_zones owned_zone ''example.com'' = [owned_endpoint]"
proof -
  have "firsts (map rec_key (filter (listed two_zones (marked_owner owned_zone)) owned_zone)) =
      [(''x.example.com'', ''A'')]"
    by code_simp
  then show ?thesis by (simp add: listing_spec_def owned_endpoint_def)
qed

lemma owned_endpoint_fields:
  "ep_Targets owned_endpoint = [''1.1.1.1'', ''3.3.3.3'']" "ep_DNSName owned_endpoint = ''x.example.com''"
  by code_simp+

theorem listing_sound_witness:
  "\<exists>m l owner. m \<in> set owned_zone \<and> rec_Type m = ''TXT'' \<and> ep_Labels owned_endpoint = Some l \<and>
     l ''owner'' = Some owner \<and> rec_Value m = encodeOwnership owner \<and>
     decodeOwnershipName (rec_Name m) = Some (ep_DNSName owned_endpoint, ep_RecordType owned_endpoint) \<and>
     ep_Targets owned_endpoint \<noteq> [] \<and>
     (\<forall>v \<in> set (ep_Targets owned_endpoint). \<exists>r \<in> set owned_zone.
        rec_Value r = v \<and> rec_Type r = ep_RecordType owned_endpoint \<and>
        normalizeName (rec_Name r) = ep_DNSName owned_endpoint)"
  by (rule listing_sound [of owned_endpoint two_zones owned_zone "''example.com''"])
    (simp add: endpointsFromRecords_spec owned_zone_spec)

text \<open>
  C9. Everything owned is listed: a data record within the domain filter whose
  name and type some TXT record marks appears as a target of exactly one listed
  endpoint.
\<close>

theorem listing_complete:
  assumes "r \<in> set recs" "rec_Type r \<noteq> ''TXT''" "matchesDomainFilter opts (rec_Name r)"
    and "m \<in> set recs" "rec_Type m = ''TXT''" "rec_Value m = encodeOwnership w"
    and "decodeOwnershipName (rec_Name m) = Some (normalizeName (rec_Name r), rec_Type r)"
  shows "\<exists>!e. Some e \<in> set (endpointsFromRecords opts recs zone) \<and>
    ep_DNSName e = normalizeName (rec_Name r) \<and> ep_RecordType e = rec_Type r \<and> rec_Value r \<in> set (ep_Targets e)"
proof -
  let ?own = "marked_owner recs" and ?k = "(normalizeName (rec_Name r), rec_Type r)"
  have "claim m = Some (?k, w)" using assms(5-7) by (simp add: claim_def)
  then have own: "?own ?k \<noteq> None" using claim_marks assms(4) by blast
  then have l: "listed opts ?own r" using assms(2,3) by (simp add: listed_def rec_key_def)
  let ?e = "group_endpoint opts zone ?own recs ?k"
  have here: "?e \<in> set (listing_spec opts recs zone)"
    using l assms(1) by (auto simp: listing_spec_def rec_key_def)
  have val: "rec_Value r \<in> set (ep_Targets ?e)"
    using l assms(1) by (auto simp: group_endpoint_def group_def rec_key_def)
  show ?thesis
  proof (rule ex1I [of _ ?e])
    show "Some ?e \<in> set (endpointsFromRecords opts recs zone) \<and> ep_DNSName ?e = normalizeName (rec_Name r) \<and>
        ep_RecordType ?e = rec_Type r \<and> rec_Value r \<in> set (ep_Targets ?e)"
      using here val by (simp add: endpointsFromRecords_spec group_endpoint_def)
  next
    fix e
    assume e: "Some e \<in> set (endpointsFromRecords opts recs zone) \<and> ep_DNSName e = normalizeName (rec_Name r) \<and>
        ep_RecordType e = rec_Type r \<and> rec_Value r \<in> set (ep_Targets e)"
    then have "e \<in> set (listing_spec opts recs zone)" by (auto simp: endpointsFromRecords_spec)
    then obtain k where "e = group_endpoint opts zone ?own recs k" by (rule listing_specE)
    with e show "e = ?e" by (cases k) (simp add: group_endpoint_def)
  qed
qed

theorem listing_complete_witness:
  "\<exists>!e. Some e \<in> set (endpointsFromRecords two_zones owned_zone ''example.com'') \<and>
    ep_DNSName e = normalizeName (rec_Name (a_rec ''x.example.com'' ''1.1.1.1'')) \<and>
    ep_RecordType e = rec_Type (a_rec ''x.example.com'' ''1.1.1.1'') \<and>
    rec_Value (a_rec ''x.example.com'' ''1.1.1.1'') \<in> set (ep_Targets e)"
  by (rule listing_complete [where m = "mark_rec ''ddo-a.x.example.com'' ''prod''" and w = "''prod''"]) code_simp+

end
