(* ===== verification/ChangeSet.thy ===== *)
theory ChangeSet
  imports Listing ZoneState
begin

text \<open>
  \<open>buildZoneChangeSet\<close> of \<open>internal/orchestrator/orchestrator.go\<close>: the
  prerequisites and changes of one zone, with the ownership TXT woven in.
  The lemmas say which prerequisite guards which change.
\<close>

section \<open>Definitions\<close>

record zoneChangeSet =
  cs_prereqs :: "Prereq list"
  cs_changes :: "Change list"

definition cs_empty :: zoneChangeSet where
  "cs_empty = \<lparr>cs_prereqs = [], cs_changes = []\<rparr>"

text \<open>Appending to both slices, as the loop bodies do.\<close>

definition cs_append :: "zoneChangeSet \<Rightarrow> zoneChangeSet \<Rightarrow> zoneChangeSet" where
  "cs_append a b =
     \<lparr>cs_prereqs = cs_prereqs a @ cs_prereqs b, cs_changes = cs_changes a @ cs_changes b\<rparr>"

definition nxrrset :: "string \<Rightarrow> string \<Rightarrow> Prereq" where
  "nxrrset name typ = \<lparr>pre_Kind = ''NXRRSET'', pre_Name = name, pre_Type = typ, pre_Value = []\<rparr>"

definition yx_txt :: "string \<Rightarrow> string \<Rightarrow> Prereq" where
  "yx_txt name val = \<lparr>pre_Kind = ''YXRRSET'', pre_Name = name, pre_Type = ''TXT'', pre_Value = val\<rparr>"

definition add_rec :: "Record \<Rightarrow> Change" where
  "add_rec r = \<lparr>chg_Op = ''add'', chg_Record = r\<rparr>"

definition del_rec :: "Record \<Rightarrow> Change" where
  "del_rec r = \<lparr>chg_Op = ''delete'', chg_Record = r\<rparr>"

definition txt_rec :: "string \<Rightarrow> int \<Rightarrow> string \<Rightarrow> Record" where
  "txt_rec name ttl val = \<lparr>rec_Name = name, rec_Type = ''TXT'', rec_TTL = ttl, rec_Value = val\<rparr>"

text \<open>One record of a create: skipped on a collision, without the TXT on an orphan.\<close>

definition create_emit ::
  "Options \<Rightarrow> (string \<rightharpoonup> Record list) \<Rightarrow> string set \<Rightarrow> string \<Rightarrow> Record \<Rightarrow> zoneChangeSet" where
  "create_emit opts cachedByName orphans owner r =
     (if opt_AxfrEnabled opts \<and> collisionReason cachedByName r owner \<noteq> None then cs_empty
      else let ownershipName = ownershipNameFor (rec_Type r) (rec_Name r);
               isOrphan = ownershipName \<in> orphans
           in \<lparr>cs_prereqs = [nxrrset (rec_Name r) (rec_Type r)] @
                 (if isOrphan then [] else [nxrrset ownershipName ''TXT'']),
               cs_changes = [add_rec r] @
                 (if isOrphan then []
                  else [add_rec (txt_rec ownershipName (rec_TTL r) (encodeOwnership owner))])\<rparr>)"

definition create_endpoint ::
  "Options \<Rightarrow> (string \<rightharpoonup> Record list) \<Rightarrow> string set \<Rightarrow> zoneChangeSet \<Rightarrow> Endpoint \<Rightarrow> zoneChangeSet" where
  "create_endpoint opts cachedByName orphans cs e =
     (case ownerFromEndpoint (Some e) of
        None \<Rightarrow> cs
      | Some owner \<Rightarrow>
          foldl (\<lambda>cs r. cs_append cs (create_emit opts cachedByName orphans owner r)) cs
            (endpointToRecords opts (Some e)))"

definition old_emit :: "string \<Rightarrow> Record \<Rightarrow> zoneChangeSet" where
  "old_emit owner r =
     \<lparr>cs_prereqs = [yx_txt (ownershipNameFor (rec_Type r) (rec_Name r)) (encodeOwnership owner)],
      cs_changes = [del_rec r]\<rparr>"

definition new_emit :: "Record \<Rightarrow> zoneChangeSet" where
  "new_emit r = \<lparr>cs_prereqs = [], cs_changes = [add_rec r]\<rparr>"

text \<open>
  The update loop ranges over \<open>updOld\<close> and indexes \<open>updNew\<close>; an index past its
  end panics.
\<close>

fun update_endpoints ::
  "Options \<Rightarrow> zoneChangeSet \<Rightarrow> Endpoint list \<Rightarrow> Endpoint list \<Rightarrow> zoneChangeSet go" where
  "update_endpoints opts cs [] news = Ok cs"
| "update_endpoints opts cs (oldE # olds) news =
     (case ownerFromEndpoint (Some oldE) of
        None \<Rightarrow> update_endpoints opts cs olds (tl news)
      | Some owner \<Rightarrow>
          (case news of
             [] \<Rightarrow> Panic
           | newE # news' \<Rightarrow>
               (let cs1 = foldl (\<lambda>cs r. cs_append cs (old_emit owner r)) cs
                            (endpointToRecords opts (Some oldE));
                    cs2 = foldl (\<lambda>cs r. cs_append cs (new_emit r)) cs1
                            (endpointToRecords opts (Some newE))
                in update_endpoints opts cs2 olds news')))"

definition delete_emit :: "string \<Rightarrow> Record \<Rightarrow> zoneChangeSet" where
  "delete_emit owner r =
     (let ownershipName = ownershipNameFor (rec_Type r) (rec_Name r)
      in \<lparr>cs_prereqs = [yx_txt ownershipName (encodeOwnership owner)],
          cs_changes = [del_rec r, del_rec (txt_rec ownershipName 0 (encodeOwnership owner))]\<rparr>)"

definition delete_endpoint :: "Options \<Rightarrow> zoneChangeSet \<Rightarrow> Endpoint \<Rightarrow> zoneChangeSet" where
  "delete_endpoint opts cs e =
     (case ownerFromEndpoint (Some e) of
        None \<Rightarrow> cs
      | Some owner \<Rightarrow>
          foldl (\<lambda>cs r. cs_append cs (delete_emit owner r)) cs (endpointToRecords opts (Some e)))"

text \<open>\<open>cached, _ := o.cache.Get(zone)\<close>: a missing entry is the nil slice.\<close>

definition buildZoneChangeSet ::
  "Options \<Rightarrow> AXFRCache \<Rightarrow> string \<Rightarrow> Endpoint list \<Rightarrow> Endpoint list \<Rightarrow> Endpoint list \<Rightarrow>
     Endpoint list \<Rightarrow> zoneChangeSet go" where
  "buildZoneChangeSet opts cache zone creates updOld updNew dels =
     (let cached = slice_at (cache_Get cache) zone;
          cachedByName = indexByName cached;
          orphans = orphanOwnership cached;
          cs1 = foldl (create_endpoint opts cachedByName orphans) cs_empty creates
      in bind_go (update_endpoints opts cs1 updOld updNew)
           (\<lambda>cs2. Ok (foldl (delete_endpoint opts) cs2 dels)))"

section \<open>Concatenation form\<close>

text \<open>
  Every loop only appends, so the result is the concatenation of what the
  single records contribute.
\<close>

lemma cs_append_simps [simp]:
  "cs_prereqs (cs_append a b) = cs_prereqs a @ cs_prereqs b"
  "cs_changes (cs_append a b) = cs_changes a @ cs_changes b"
  "cs_prereqs cs_empty = []" "cs_changes cs_empty = []"
  by (simp_all add: cs_append_def cs_empty_def)

lemma cs_eqI: "cs_prereqs a = cs_prereqs b \<Longrightarrow> cs_changes a = cs_changes b \<Longrightarrow> a = (b :: zoneChangeSet)"
  by simp

lemma cs_append_monoid [simp]:
  "cs_append a cs_empty = a" "cs_append cs_empty a = a"
  "cs_append (cs_append a b) c = cs_append a (cs_append b c)"
  by (auto intro!: cs_eqI)

definition cs_concat :: "zoneChangeSet list \<Rightarrow> zoneChangeSet" where
  "cs_concat cs = foldr cs_append cs cs_empty"

lemma cs_concat_simps [simp]:
  "cs_concat [] = cs_empty" "cs_concat (c # cs) = cs_append c (cs_concat cs)"
  "cs_concat (cs @ ds) = cs_append (cs_concat cs) (cs_concat ds)"
  "cs_prereqs (cs_concat cs) = concat (map cs_prereqs cs)"
  "cs_changes (cs_concat cs) = concat (map cs_changes cs)"
proof -
  show "cs_concat [] = cs_empty" "cs_concat (c # cs) = cs_append c (cs_concat cs)" for c cs
    by (simp_all add: cs_concat_def)
  then show "cs_concat (cs @ ds) = cs_append (cs_concat cs) (cs_concat ds)"
    "cs_prereqs (cs_concat cs) = concat (map cs_prereqs cs)"
    "cs_changes (cs_concat cs) = concat (map cs_changes cs)"
    by (induction cs) simp_all
qed

lemma foldl_cs_append: "foldl (\<lambda>cs r. cs_append cs (f r)) cs rs = cs_append cs (cs_concat (map f rs))"
  by (induction rs arbitrary: cs) simp_all

text \<open>The fragments contributed by creates, updates and deletes.\<close>

definition owned_records :: "Options \<Rightarrow> Endpoint \<Rightarrow> (string \<times> Record) list" where
  "owned_records opts e =
     (case ownerFromEndpoint (Some e) of
        None \<Rightarrow> []
      | Some owner \<Rightarrow> map (Pair owner) (endpointToRecords opts (Some e)))"

definition create_part ::
  "Options \<Rightarrow> Record list \<Rightarrow> Endpoint \<Rightarrow> zoneChangeSet" where
  "create_part opts cached e =
     cs_concat (map (\<lambda>(w, r). create_emit opts (indexByName cached) (orphanOwnership cached) w r)
       (owned_records opts e))"

definition update_part :: "Options \<Rightarrow> Endpoint \<times> Endpoint \<Rightarrow> zoneChangeSet" where
  "update_part opts = (\<lambda>(oldE, newE).
     case ownerFromEndpoint (Some oldE) of
       None \<Rightarrow> cs_empty
     | Some owner \<Rightarrow>
         cs_append (cs_concat (map (old_emit owner) (endpointToRecords opts (Some oldE))))
           (cs_concat (map new_emit (endpointToRecords opts (Some newE)))))"

definition delete_part :: "Options \<Rightarrow> Endpoint \<Rightarrow> zoneChangeSet" where
  "delete_part opts e = cs_concat (map (\<lambda>(w, r). delete_emit w r) (owned_records opts e))"

lemma create_loop:
  "foldl (create_endpoint opts (indexByName cached) (orphanOwnership cached)) cs es =
     cs_append cs (cs_concat (map (create_part opts cached) es))"
proof (induction es arbitrary: cs)
  case (Cons e es)
  have "create_endpoint opts (indexByName cached) (orphanOwnership cached) cs e =
      cs_append cs (create_part opts cached e)"
    by (simp add: create_endpoint_def create_part_def owned_records_def foldl_cs_append comp_def
        split: option.splits)
  then show ?case by (simp add: Cons.IH)
qed simp

lemma delete_loop:
  "foldl (delete_endpoint opts) cs es = cs_append cs (cs_concat (map (delete_part opts) es))"
proof (induction es arbitrary: cs)
  case (Cons e es)
  have "delete_endpoint opts cs e = cs_append cs (delete_part opts e)"
    by (simp add: delete_endpoint_def delete_part_def owned_records_def foldl_cs_append comp_def
        split: option.splits)
  then show ?case by (simp add: Cons.IH)
qed simp

lemma update_loop:
  "length olds = length news \<Longrightarrow>
     update_endpoints opts cs olds news =
       Ok (cs_append cs (cs_concat (map (update_part opts) (zip olds news))))"
proof (induction olds news arbitrary: cs rule: list_induct2)
  case (Cons x xs y ys)
  then show ?case
    by (simp add: update_part_def foldl_cs_append Let_def split: option.splits)
qed simp

lemma buildZoneChangeSet_eq:
  assumes "length olds = length news"
  shows "buildZoneChangeSet opts cache zone creates olds news dels =
    Ok (cs_concat (map (create_part opts (slice_at (cache_Get cache) zone)) creates @
          map (update_part opts) (zip olds news) @ map (delete_part opts) dels))"
  using assms
  by (simp add: buildZoneChangeSet_def Let_def create_loop update_loop delete_loop)

section \<open>Where a change or prerequisite comes from\<close>

lemma build_sets:
  assumes "buildZoneChangeSet opts cache zone creates olds news dels = Ok cs" "length olds = length news"
  shows
    "set (cs_changes cs) =
       (\<Union>e \<in> set creates. set (cs_changes (create_part opts (slice_at (cache_Get cache) zone) e))) \<union>
       (\<Union>p \<in> set (zip olds news). set (cs_changes (update_part opts p))) \<union>
       (\<Union>e \<in> set dels. set (cs_changes (delete_part opts e)))"
    "set (cs_prereqs cs) =
       (\<Union>e \<in> set creates. set (cs_prereqs (create_part opts (slice_at (cache_Get cache) zone) e))) \<union>
       (\<Union>p \<in> set (zip olds news). set (cs_prereqs (update_part opts p))) \<union>
       (\<Union>e \<in> set dels. set (cs_prereqs (delete_part opts e)))"
proof -
  from assms have "cs = cs_concat (map (create_part opts (slice_at (cache_Get cache) zone)) creates @
      map (update_part opts) (zip olds news) @ map (delete_part opts) dels)"
    by (simp add: buildZoneChangeSet_eq)
  then show
    "set (cs_changes cs) =
       (\<Union>e \<in> set creates. set (cs_changes (create_part opts (slice_at (cache_Get cache) zone) e))) \<union>
       (\<Union>p \<in> set (zip olds news). set (cs_changes (update_part opts p))) \<union>
       (\<Union>e \<in> set dels. set (cs_changes (delete_part opts e)))"
    "set (cs_prereqs cs) =
       (\<Union>e \<in> set creates. set (cs_prereqs (create_part opts (slice_at (cache_Get cache) zone) e))) \<union>
       (\<Union>p \<in> set (zip olds news). set (cs_prereqs (update_part opts p))) \<union>
       (\<Union>e \<in> set dels. set (cs_prereqs (delete_part opts e)))"
    by (simp_all add: Un_assoc)
qed

lemma owned_records_iff:
  "(w, r) \<in> set (owned_records opts e) \<longleftrightarrow>
     ownerFromEndpoint (Some e) = Some w \<and> r \<in> set (endpointToRecords opts (Some e))"
  by (auto simp: owned_records_def split: option.splits)

lemma endpoint_record_not_TXT: "r \<in> set (endpointToRecords opts p) \<Longrightarrow> rec_Type r \<noteq> ''TXT''"
  using endpointToRecords_fields(3) [of r opts]
  by (cases p) (auto simp: supported_types_def)

text \<open>A create adds a record only if it passed the collision check, and guards it.\<close>

lemma create_part_adds:
  assumes "c \<in> set (cs_changes (create_part opts cached e))"
  shows "chg_Op c = ''add''"
    "rec_Type (chg_Record c) \<noteq> ''TXT'' \<Longrightarrow>
       \<exists>w. ownerFromEndpoint (Some e) = Some w \<and> chg_Record c \<in> set (endpointToRecords opts (Some e)) \<and>
         (opt_AxfrEnabled opts \<longrightarrow> collisionReason (indexByName cached) (chg_Record c) w = None) \<and>
         nxrrset (rec_Name (chg_Record c)) (rec_Type (chg_Record c))
           \<in> set (cs_prereqs (create_part opts cached e))"
proof -
  from assms obtain w r where wr: "(w, r) \<in> set (owned_records opts e)"
    and c: "c \<in> set (cs_changes (create_emit opts (indexByName cached) (orphanOwnership cached) w r))"
    by (auto simp: create_part_def)
  show "chg_Op c = ''add''"
    using c by (auto simp: create_emit_def add_rec_def Let_def split: if_splits)
  assume "rec_Type (chg_Record c) \<noteq> ''TXT''"
  with c have r: "chg_Record c = r"
    "opt_AxfrEnabled opts \<longrightarrow> collisionReason (indexByName cached) r w = None"
    by (auto simp: create_emit_def add_rec_def txt_rec_def Let_def split: if_splits)
  then have "nxrrset (rec_Name r) (rec_Type r) \<in>
      set (cs_prereqs (create_emit opts (indexByName cached) (orphanOwnership cached) w r))"
    by (auto simp: create_emit_def Let_def)
  then have "nxrrset (rec_Name r) (rec_Type r) \<in> set (cs_prereqs (create_part opts cached e))"
    using wr by (auto simp: create_part_def intro!: bexI [of _ "(w, r)"])
  with wr r show "\<exists>w. ownerFromEndpoint (Some e) = Some w \<and>
      chg_Record c \<in> set (endpointToRecords opts (Some e)) \<and>
      (opt_AxfrEnabled opts \<longrightarrow> collisionReason (indexByName cached) (chg_Record c) w = None) \<and>
      nxrrset (rec_Name (chg_Record c)) (rec_Type (chg_Record c))
        \<in> set (cs_prereqs (create_part opts cached e))"
    by (auto simp: owned_records_iff)
qed

text \<open>A delete of a data record is guarded by its marker carrying the requester's label.\<close>

lemma update_part_dels:
  assumes "c \<in> set (cs_changes (update_part opts (oldE, newE)))" "chg_Op c \<noteq> ''add''"
  shows "\<exists>w r. ownerFromEndpoint (Some oldE) = Some w \<and> r \<in> set (endpointToRecords opts (Some oldE)) \<and>
    c = del_rec r \<and>
    yx_txt (ownershipNameFor (rec_Type r) (rec_Name r)) (encodeOwnership w)
      \<in> set (cs_prereqs (update_part opts (oldE, newE)))"
proof -
  from assms obtain w where w: "ownerFromEndpoint (Some oldE) = Some w"
    by (auto simp: update_part_def split: option.splits)
  with assms obtain r where "r \<in> set (endpointToRecords opts (Some oldE))" "c = del_rec r"
    by (auto simp: update_part_def old_emit_def new_emit_def add_rec_def)
  with w show ?thesis
    by (auto simp: update_part_def old_emit_def)
qed

lemma delete_part_dels:
  assumes "c \<in> set (cs_changes (delete_part opts e))"
  shows "\<exists>w r. ownerFromEndpoint (Some e) = Some w \<and> r \<in> set (endpointToRecords opts (Some e)) \<and>
    (let m = ownershipNameFor (rec_Type r) (rec_Name r)
     in (c = del_rec r \<or> c = del_rec (txt_rec m 0 (encodeOwnership w))) \<and>
        yx_txt m (encodeOwnership w) \<in> set (cs_prereqs (delete_part opts e)))"
proof -
  from assms obtain w r where wr: "(w, r) \<in> set (owned_records opts e)"
    and c: "c \<in> set (cs_changes (delete_emit w r))"
    by (auto simp: delete_part_def)
  have "yx_txt (ownershipNameFor (rec_Type r) (rec_Name r)) (encodeOwnership w)
      \<in> set (cs_prereqs (delete_part opts e))"
    using wr by (auto simp: delete_part_def delete_emit_def Let_def intro!: bexI [of _ "(w, r)"])
  with wr c show ?thesis
    by (auto simp: owned_records_iff delete_emit_def Let_def)
qed

section \<open>What the server checks\<close>

text \<open>
  The meaning of prerequisites on the contents \<open>Z\<close> of a zone, as RFC 2136
  section 3.2 states it: NXRRSET asks for an empty RRset, the value-dependent
  YXRRSET records of one name and type together list the RRset's exact values.
\<close>

definition rrset :: "Record set \<Rightarrow> string \<Rightarrow> string \<Rightarrow> Record set" where
  "rrset Z n t = {s \<in> Z. normalizeName (rec_Name s) = normalizeName n \<and> rec_Type s = t}"

definition required_values :: "Prereq set \<Rightarrow> string \<Rightarrow> string \<Rightarrow> string set" where
  "required_values P n t =
     {pre_Value q | q. q \<in> P \<and> pre_Kind q = ''YXRRSET'' \<and>
        normalizeName (pre_Name q) = normalizeName n \<and> pre_Type q = t}"

definition prereqs_hold :: "Record set \<Rightarrow> Prereq set \<Rightarrow> bool" where
  "prereqs_hold Z P \<longleftrightarrow>
     (\<forall>p \<in> P. (pre_Kind p = ''NXRRSET'' \<longrightarrow> rrset Z (pre_Name p) (pre_Type p) = {}) \<and>
             (pre_Kind p = ''YXRRSET'' \<longrightarrow>
                rec_Value ` rrset Z (pre_Name p) (pre_Type p) =
                required_values P (pre_Name p) (pre_Type p)))"

lemma prereqs_hold_nx:
  assumes "prereqs_hold Z P" "nxrrset n t \<in> P"
  shows "rrset Z n t = {}"
proof -
  let ?p = "nxrrset n t"
  have "pre_Kind ?p = ''NXRRSET'' \<longrightarrow> rrset Z (pre_Name ?p) (pre_Type ?p) = {}"
    using assms unfolding prereqs_hold_def by blast
  then show ?thesis by (simp add: nxrrset_def)
qed

lemma prereqs_hold_yx:
  assumes "prereqs_hold Z P" "yx_txt n v \<in> P"
  shows "v \<in> rec_Value ` rrset Z n ''TXT''"
proof -
  let ?p = "yx_txt n v"
  have "pre_Kind ?p = ''YXRRSET'' \<longrightarrow>
      rec_Value ` rrset Z (pre_Name ?p) (pre_Type ?p) = required_values P (pre_Name ?p) (pre_Type ?p)"
    using assms unfolding prereqs_hold_def by blast
  then have "rec_Value ` rrset Z n ''TXT'' = required_values P n ''TXT''"
    by (simp add: yx_txt_def)
  moreover have "pre_Value ?p \<in> required_values P n ''TXT''"
    unfolding required_values_def using assms(2)
    by (intro CollectI exI [of _ ?p]) (simp add: yx_txt_def)
  ultimately show ?thesis by (simp add: yx_txt_def)
qed

section \<open>Well-formed change sets\<close>

definition wf_prereq :: "Prereq \<Rightarrow> bool" where
  "wf_prereq p \<longleftrightarrow> pre_Type p \<in> set (''TXT'' # supported_types) \<and>
     (pre_Kind p = ''NXRRSET'' \<or> pre_Kind p = ''YXRRSET'' \<and> pre_Value p \<noteq> [])"

definition wf_change :: "Change \<Rightarrow> bool" where
  "wf_change c \<longleftrightarrow> chg_Op c \<in> {''add'', ''delete''} \<and>
     rec_Type (chg_Record c) \<in> set (''TXT'' # supported_types) \<and> rec_Value (chg_Record c) \<noteq> []"

definition wf_cs :: "zoneChangeSet \<Rightarrow> bool" where
  "wf_cs cs \<longleftrightarrow> list_all wf_prereq (cs_prereqs cs) \<and> list_all wf_change (cs_changes cs)"

lemma wf_cs_concat: "(\<And>c. c \<in> set cs \<Longrightarrow> wf_cs c) \<Longrightarrow> wf_cs (cs_concat cs)"
  by (induction cs) (auto simp: wf_cs_def cs_empty_def)

lemma encodeOwnership_nonempty [simp]: "encodeOwnership w \<noteq> []"
  by (simp add: encodeOwnership_def)

lemma endpoint_record_wf:
  "r \<in> set (endpointToRecords opts (Some e)) \<Longrightarrow>
     rec_Type r \<in> set supported_types \<and> rec_Value r \<noteq> []"
  using endpointToRecords_fields by blast

lemmas emit_defs = create_emit_def old_emit_def new_emit_def delete_emit_def nxrrset_def yx_txt_def
  add_rec_def del_rec_def txt_rec_def

lemma wf_parts:
  "wf_cs (create_part opts cached e)" "wf_cs (update_part opts p)" "wf_cs (delete_part opts e)"
proof -
  show "wf_cs (create_part opts cached e)"
    unfolding create_part_def
    by (rule wf_cs_concat)
      (auto simp: owned_records_iff wf_cs_def wf_prereq_def wf_change_def emit_defs Let_def cs_empty_def
        dest: endpoint_record_wf)
  show "wf_cs (delete_part opts e)"
    unfolding delete_part_def
    by (rule wf_cs_concat)
      (auto simp: owned_records_iff wf_cs_def wf_prereq_def wf_change_def emit_defs Let_def
        dest: endpoint_record_wf)
  show "wf_cs (update_part opts p)"
    by (cases p)
      (auto simp: update_part_def wf_cs_def wf_prereq_def wf_change_def emit_defs list_all_iff
        dest: endpoint_record_wf split: option.splits)
qed

lemma buildZoneChangeSet_wf:
  assumes "buildZoneChangeSet opts cache zone creates olds news dels = Ok cs" "length olds = length news"
  shows "wf_cs cs"
proof -
  from assms have "cs = cs_concat (map (create_part opts (slice_at (cache_Get cache) zone)) creates @
      map (update_part opts) (zip olds news) @ map (delete_part opts) dels)"
    by (simp add: buildZoneChangeSet_eq)
  moreover have "wf_cs (cs_concat (map (create_part opts (slice_at (cache_Get cache) zone)) creates @
      map (update_part opts) (zip olds news) @ map (delete_part opts) dels))"
    by (rule wf_cs_concat) (auto simp: wf_parts)
  ultimately show ?thesis by simp
qed

section \<open>Deleting what was listed\<close>

text \<open>
  Which records of a zone a deletion takes away (RFC 2136 section 3.4.2.4): same
  name, same type, same data.  Data are compared in canonical form, names in them
  being equal whatever their case and final dot; TXT data byte for byte.
\<close>

definition same_data :: "string \<Rightarrow> string \<Rightarrow> string \<Rightarrow> bool" where
  "same_data t v v' \<longleftrightarrow> (if t = ''TXT'' then v = v' else canonicalRdata t v = canonicalRdata t v')"

definition deletes :: "Change \<Rightarrow> Record \<Rightarrow> bool" where
  "deletes c s \<longleftrightarrow> chg_Op c = ''delete'' \<and> rec_Type (chg_Record c) = rec_Type s \<and>
     normalizeName (rec_Name (chg_Record c)) = normalizeName (rec_Name s) \<and>
     same_data (rec_Type s) (rec_Value (chg_Record c)) (rec_Value s)"

text \<open>The owner's marker stands at its usual name, alone, and nowhere else.\<close>

definition marked_once :: "Record list \<Rightarrow> epKey \<Rightarrow> string \<Rightarrow> bool" where
  "marked_once recs k w \<longleftrightarrow>
     rec_Value ` rrset (set recs) (ownershipNameFor (snd k) (fst k)) ''TXT'' = {encodeOwnership w} \<and>
     (\<forall>m \<in> set recs. map_option fst (claim m) = Some k \<longrightarrow> normalizeName (rec_Name m) = ownershipNameFor (snd k) (fst k))"

lemma supported_upper: "t \<in> set supported_types \<Longrightarrow> ToUpper t = t \<and> t \<noteq> ''TXT''"
  by (auto simp: supported_types_def ToUpper_def upper_char_def)

lemma listed_endpoint:
  assumes "Some e \<in> set (endpointsFromRecords opts recs zone)"
  obtains w where "marked_owner recs (ep_DNSName e, ep_RecordType e) = Some w"
    "ep_Labels e = Some [''owner'' \<mapsto> w, ''resource'' \<mapsto> ''rfc2136/'' @ zone]" "ep_Targets e \<noteq> []"
    "\<forall>r \<in> set recs. rec_key r = (ep_DNSName e, ep_RecordType e) \<longrightarrow> rec_Value r \<in> set (ep_Targets e)"
proof -
  let ?own = "marked_owner recs"
  from assms have "e \<in> set (listing_spec opts recs zone)" by (auto simp: endpointsFromRecords_spec)
  then obtain k where e: "e = group_endpoint opts zone ?own recs k" and g: "group opts ?own recs k \<noteq> []"
    and "?own k \<noteq> None" by (rule listing_specE)
  then obtain w where w: "?own k = Some w" by auto
  obtain r0 where r0: "listed opts ?own r0" "rec_key r0 = k" using g by (auto simp: group_def filter_empty_conv)
  have "r \<in> set (group opts ?own recs k)" if "r \<in> set recs" "rec_key r = k" for r
    using that r0 by (auto simp: group_def listed_def rec_key_def matchesDomainFilter_def)
  with e g w show thesis by (intro that [of w]) (auto simp: group_endpoint_def)
qed

lemma delete_part_members:
  assumes "ownerFromEndpoint (Some e) = Some w"
  shows "set (cs_changes (delete_part opts e)) = (\<Union>r \<in> set (endpointToRecords opts (Some e)).
      {del_rec r, del_rec (txt_rec (ownershipNameFor (rec_Type r) (rec_Name r)) 0 (encodeOwnership w))})"
    "set (cs_prereqs (delete_part opts e)) = (\<lambda>r. yx_txt (ownershipNameFor (rec_Type r) (rec_Name r)) (encodeOwnership w)) `
      set (endpointToRecords opts (Some e))"
  using assms by (auto simp: delete_part_def owned_records_def delete_emit_def Let_def)

lemma endpointToRecords_set:
  assumes "ep_RecordType e \<in> set supported_types"
  shows "set (endpointToRecords opts (Some e)) =
    (\<lambda>v. \<lparr>rec_Name = normalizeName (ep_DNSName e), rec_Type = ep_RecordType e,
         rec_TTL = clampTTL opts (ep_RecordTTL e), rec_Value = canonicalRdata (ep_RecordType e) v\<rparr>) `
      {v \<in> set (ep_Targets e). canonicalRdata (ep_RecordType e) v \<noteq> []}"
  using supported_upper [OF assms] assms by (auto simp: endpointToRecords_def Let_def)

lemma decodeOwnershipName_cong:
  "normalizeName a = normalizeName b \<Longrightarrow> decodeOwnershipName a = decodeOwnershipName b"
  by (simp add: decodeOwnershipName_def)

text \<open>What the deletion of a listed endpoint takes away: its records and its marker.\<close>

lemma deleted_records:
  assumes own: "ownerFromEndpoint (Some e) = Some w" and n: "normalizeName n = n" and k: "ep_DNSName e = n" "ep_RecordType e = t"
    and t: "t \<in> set supported_types" "markable t n"
    and data: "\<forall>v \<in> set (ep_Targets e). canonicalRdata t v \<noteq> []" "ep_Targets e \<noteq> []"
    and all: "\<forall>r \<in> set recs. rec_key r = (n, t) \<longrightarrow> rec_Value r \<in> set (ep_Targets e)"
    and once: "marked_once recs (n, t) w" and s: "s \<in> set recs"
  shows "(\<exists>c \<in> set (cs_changes (delete_part opts e)). deletes c s) \<longleftrightarrow>
    rec_key s = (n, t) \<or> (\<exists>w'. claim s = Some ((n, t), w'))"
proof -
  let ?m = "ownershipNameFor t n"
  note mem = delete_part_members(1) [OF own] endpointToRecords_set [of e opts]
  have m: "normalizeName ?m = ?m" "decodeOwnershipName ?m = Some (n, t)"
    using t n normalize_marker decode_marker [OF t(2)] supported_upper [OF t(1)] by (auto simp: markable_def)
  obtain v0 where v0: "v0 \<in> set (ep_Targets e)" using data(2) by (cases "ep_Targets e") auto
  have "(\<exists>c \<in> set (cs_changes (delete_part opts e)). deletes c s) \<longleftrightarrow>
      (\<exists>v \<in> set (ep_Targets e). rec_key s = (n, t) \<and> canonicalRdata t v = canonicalRdata t (rec_Value s)) \<or>
      rec_Type s = ''TXT'' \<and> normalizeName (rec_Name s) = ?m \<and> rec_Value s = encodeOwnership w"
    using v0 data t(1) k m(1) n supported_upper [OF t(1)]
    by (auto simp: mem deletes_def same_data_def del_rec_def txt_rec_def rec_key_def canonicalRdata_idem)
  also have "(\<exists>v \<in> set (ep_Targets e). rec_key s = (n, t) \<and> canonicalRdata t v = canonicalRdata t (rec_Value s)) \<longleftrightarrow>
      rec_key s = (n, t)"
    using all s by auto
  also have "rec_Type s = ''TXT'' \<and> normalizeName (rec_Name s) = ?m \<and> rec_Value s = encodeOwnership w \<longleftrightarrow>
      (\<exists>w'. claim s = Some ((n, t), w'))"
  proof
    assume a: "rec_Type s = ''TXT'' \<and> normalizeName (rec_Name s) = ?m \<and> rec_Value s = encodeOwnership w"
    with m decodeOwnershipName_cong [of "rec_Name s" ?m] have "decodeOwnershipName (rec_Name s) = Some (n, t)" by simp
    with a show "\<exists>w'. claim s = Some ((n, t), w')" by (simp add: claim_def)
  next
    assume "\<exists>w'. claim s = Some ((n, t), w')"
    then obtain w' where c: "claim s = Some ((n, t), w')" by blast
    with once s have nm: "normalizeName (rec_Name s) = ?m" by (auto simp: marked_once_def)
    moreover have "rec_Type s = ''TXT''" using c by (simp add: claim_def split: if_splits)
    ultimately have "s \<in> rrset (set recs) ?m ''TXT''" using s m(1) by (simp add: rrset_def)
    with once have "rec_Value s = encodeOwnership w" unfolding marked_once_def by auto
    with nm \<open>rec_Type s = ''TXT''\<close>
    show "rec_Type s = ''TXT'' \<and> normalizeName (rec_Name s) = ?m \<and> rec_Value s = encodeOwnership w" by simp
  qed
  finally show ?thesis .
qed

text \<open>The prerequisites of the deletion hold in the zone the endpoint was listed from.\<close>

lemma deletion_admitted:
  assumes own: "ownerFromEndpoint (Some e) = Some w" and n: "normalizeName n = n" and k: "ep_DNSName e = n" "ep_RecordType e = t"
    and t: "t \<in> set supported_types" and once: "marked_once recs (n, t) w"
  shows "prereqs_hold (set recs) (set (cs_prereqs (delete_part opts e)))"
proof -
  let ?m = "ownershipNameFor t n" and ?P = "set (cs_prereqs (delete_part opts e))"
  have P: "?P \<subseteq> {yx_txt ?m (encodeOwnership w)}"
    using k t n by (auto simp: delete_part_members(2) [OF own] endpointToRecords_set)
  show ?thesis
  proof (cases "?P = {}")
    case True
    then show ?thesis by (simp add: prereqs_hold_def)
  next
    case False
    then have "?P = {yx_txt ?m (encodeOwnership w)}" using subset_singletonD [OF P] by simp
    moreover have "required_values {yx_txt ?m (encodeOwnership w)} ?m ''TXT'' = {encodeOwnership w}"
      by (auto simp: required_values_def yx_txt_def)
    ultimately show ?thesis using once by (simp add: prereqs_hold_def marked_once_def) (simp add: yx_txt_def)
  qed
qed

lemma listed_records: "Some e \<in> set (endpointsFromRecords opts recs zone) \<Longrightarrow> \<exists>r \<in> set recs. rec_key r = (ep_DNSName e, ep_RecordType e)"
  by (auto simp: endpointsFromRecords_spec listing_spec_def group_endpoint_def)

section \<open>Properties\<close>

text \<open>
  C2. No record is deleted on somebody else's behalf: if the server applies the
  UPDATE, that is, if its prerequisites hold of the zone, then for every record it
  deletes the zone contains the marker of the data record in question, carrying
  exactly the owner label that came with the request for that record.
\<close>

theorem deletes_guarded:
  assumes "buildZoneChangeSet opts cache zone creates olds news dels = Ok cs" "length olds = length news"
    and "c \<in> set (cs_changes cs)" "chg_Op c \<noteq> ''add''"
    and "prereqs_hold Z (set (cs_prereqs cs))"
  shows "\<exists>e w r t. e \<in> set olds \<union> set dels \<and> ownerFromEndpoint (Some e) = Some w \<and>
    r \<in> set (endpointToRecords opts (Some e)) \<and>
    chg_Record c \<in> {r, txt_rec (ownershipNameFor (rec_Type r) (rec_Name r)) 0 (encodeOwnership w)} \<and>
    t \<in> rrset Z (ownershipNameFor (rec_Type r) (rec_Name r)) ''TXT'' \<and> rec_Value t = encodeOwnership w"
proof -
  note sets = build_sets [OF assms(1,2)]
  have key: "\<exists>e w r. e \<in> set olds \<union> set dels \<and> ownerFromEndpoint (Some e) = Some w \<and>
      r \<in> set (endpointToRecords opts (Some e)) \<and>
      chg_Record c \<in> {r, txt_rec (ownershipNameFor (rec_Type r) (rec_Name r)) 0 (encodeOwnership w)} \<and>
      yx_txt (ownershipNameFor (rec_Type r) (rec_Name r)) (encodeOwnership w) \<in> set (cs_prereqs cs)"
  proof -
    from assms(3) sets(1) consider
        e where "e \<in> set creates" "c \<in> set (cs_changes (create_part opts (slice_at (cache_Get cache) zone) e))"
      | oldE newE where "(oldE, newE) \<in> set (zip olds news)" "c \<in> set (cs_changes (update_part opts (oldE, newE)))"
      | e where "e \<in> set dels" "c \<in> set (cs_changes (delete_part opts e))"
      by auto
    then show ?thesis
    proof cases
      case 1
      then show ?thesis using create_part_adds(1) assms(4) by blast
    next
      case 2
      have "oldE \<in> set olds" using 2(1) by (rule set_zip_leftD)
      moreover have "set (cs_prereqs (update_part opts (oldE, newE))) \<subseteq> set (cs_prereqs cs)"
        using 2(1) sets(2) by blast
      ultimately show ?thesis
        using update_part_dels [OF 2(2) assms(4)] by (auto simp: del_rec_def) blast
    next
      case 3
      have "set (cs_prereqs (delete_part opts e)) \<subseteq> set (cs_prereqs cs)"
        using 3(1) sets(2) by blast
      then show ?thesis
        using 3(1) delete_part_dels [OF 3(2)] by (auto simp: del_rec_def Let_def) blast+
    qed
  qed
  then show ?thesis using prereqs_hold_yx [OF assms(5)] by (auto simp: image_iff) metis+
qed

definition prod_endpoint :: "string \<Rightarrow> string \<Rightarrow> Endpoint" where
  "prod_endpoint name ip =
     \<lparr>ep_DNSName = name, ep_Targets = [ip], ep_RecordType = ''A'', ep_RecordTTL = 300,
      ep_Labels = Some [''owner'' \<mapsto> ''prod'']\<rparr>"

lemma prod_endpoint_eval:
  "ownerFromEndpoint (Some (prod_endpoint n ip)) = Some ''prod''"
  "endpointToRecords two_zones (Some (prod_endpoint ''x.example.com'' ''1.1.1.1'')) =
     [a_rec ''x.example.com'' ''1.1.1.1'']"
  by (simp add: prod_endpoint_def ownerFromEndpoint_def, code_simp)

definition cache_with :: "Record list \<Rightarrow> AXFRCache" where
  "cache_with recs = cache_Put NewAXFRCache ''example.com'' recs"

definition x_delete :: zoneChangeSet where
  "x_delete = delete_emit ''prod'' (a_rec ''x.example.com'' ''1.1.1.1'')"

lemma x_delete_built:
  "buildZoneChangeSet two_zones (cache_with owned_zone) ''example.com'' [] [] []
     [prod_endpoint ''x.example.com'' ''1.1.1.1''] = Ok x_delete"
  by (simp add: buildZoneChangeSet_eq delete_part_def owned_records_def prod_endpoint_eval x_delete_def)

lemma prereqs_hold_single: "rec_Value ` rrset Z n ''TXT'' = {v} \<Longrightarrow> prereqs_hold Z {yx_txt n v}"
  by (simp add: prereqs_hold_def required_values_def yx_txt_def)

lemma rrset_Cons:
  "rrset (insert s Z) n t =
     (if normalizeName (rec_Name s) = normalizeName n \<and> rec_Type s = t then insert s (rrset Z n t) else rrset Z n t)"
  by (auto simp: rrset_def)

lemma rrset_empty [simp]: "rrset {} n t = {}"
  by (simp add: rrset_def)

lemma owned_zone_marker:
  "rrset (set owned_zone) ''ddo-a.x.example.com'' ''TXT'' = {mark_rec ''ddo-a.x.example.com'' ''prod''}"
  by (simp add: owned_zone_def a_rec_def mark_rec_def rrset_Cons)

lemma x_delete_holds: "prereqs_hold (set owned_zone) (set (cs_prereqs x_delete))"
proof -
  have "cs_prereqs x_delete = [yx_txt ''ddo-a.x.example.com'' (encodeOwnership ''prod'')]" by code_simp
  then show ?thesis
    using prereqs_hold_single [of "set owned_zone" "''ddo-a.x.example.com''" "encodeOwnership ''prod''"]
    by (simp add: owned_zone_marker) (simp add: mark_rec_def)
qed

theorem deletes_guarded_witness:
  "\<exists>e w r t. e \<in> set [] \<union> set [prod_endpoint ''x.example.com'' ''1.1.1.1''] \<and>
    ownerFromEndpoint (Some e) = Some w \<and> r \<in> set (endpointToRecords two_zones (Some e)) \<and>
    chg_Record (del_rec (a_rec ''x.example.com'' ''1.1.1.1''))
      \<in> {r, txt_rec (ownershipNameFor (rec_Type r) (rec_Name r)) 0 (encodeOwnership w)} \<and>
    t \<in> rrset (set owned_zone) (ownershipNameFor (rec_Type r) (rec_Name r)) ''TXT'' \<and>
    rec_Value t = encodeOwnership w"
  by (rule deletes_guarded [OF x_delete_built _ _ _ x_delete_holds])
    (simp_all add: x_delete_def delete_emit_def del_rec_def Let_def)

lemma create_part_nx:
  assumes "c \<in> set (cs_changes (create_part opts cached e))"
  shows "nxrrset (rec_Name (chg_Record c)) (rec_Type (chg_Record c)) \<in> set (cs_prereqs (create_part opts cached e))"
proof -
  from assms obtain w r where wr: "(w, r) \<in> set (owned_records opts e)"
    and c: "c \<in> set (cs_changes (create_emit opts (indexByName cached) (orphanOwnership cached) w r))"
    by (auto simp: create_part_def)
  then have "nxrrset (rec_Name (chg_Record c)) (rec_Type (chg_Record c)) \<in>
      set (cs_prereqs (create_emit opts (indexByName cached) (orphanOwnership cached) w r))"
    by (auto simp: create_emit_def add_rec_def txt_rec_def Let_def split: if_splits)
  with wr show ?thesis by (auto simp: create_part_def intro!: bexI [of _ "(w, r)"])
qed

lemma create_part_owner:
  "c \<in> set (cs_changes (create_part opts cached e)) \<Longrightarrow> ownerFromEndpoint (Some e) \<noteq> None"
  by (auto simp: create_part_def owned_records_iff)

lemma update_part_adds:
  assumes "c \<in> set (cs_changes (update_part opts (oldE, newE)))" "chg_Op c = ''add''"
  shows "ownerFromEndpoint (Some oldE) \<noteq> None \<and> chg_Record c \<in> set (endpointToRecords opts (Some newE))"
  using assms by (auto simp: update_part_def old_emit_def new_emit_def del_rec_def add_rec_def split: option.splits)

text \<open>
  C3. Nothing existing is created over: if the server applies the UPDATE, then
  every record it adds either is new data of an update of an endpoint that had an
  owner label, or comes from a create with an owner label, is added to an RRset
  that is empty in the zone, and, data records with transfers enabled, passed the
  collision check for that owner against the cached zone.
\<close>

theorem creates_guarded:
  assumes "buildZoneChangeSet opts cache zone creates olds news dels = Ok cs" "length olds = length news"
    and "c \<in> set (cs_changes cs)" "chg_Op c = ''add''"
    and "prereqs_hold Z (set (cs_prereqs cs))"
  shows "(\<exists>(oldE, newE) \<in> set (zip olds news).
       ownerFromEndpoint (Some oldE) \<noteq> None \<and> chg_Record c \<in> set (endpointToRecords opts (Some newE))) \<or>
    (\<exists>e \<in> set creates. \<exists>w. ownerFromEndpoint (Some e) = Some w \<and>
       rrset Z (rec_Name (chg_Record c)) (rec_Type (chg_Record c)) = {} \<and>
       (rec_Type (chg_Record c) \<noteq> ''TXT'' \<and> opt_AxfrEnabled opts \<longrightarrow>
          collisionReason (indexByName (slice_at (cache_Get cache) zone)) (chg_Record c) w = None))"
proof -
  note sets = build_sets [OF assms(1,2)]
  let ?cached = "slice_at (cache_Get cache) zone"
  from assms(3) sets(1) consider
      e where "e \<in> set creates" "c \<in> set (cs_changes (create_part opts ?cached e))"
    | oldE newE where "(oldE, newE) \<in> set (zip olds news)" "c \<in> set (cs_changes (update_part opts (oldE, newE)))"
    | e where "e \<in> set dels" "c \<in> set (cs_changes (delete_part opts e))"
    by auto
  then show ?thesis
  proof cases
    case 1
    obtain w where w: "ownerFromEndpoint (Some e) = Some w" using create_part_owner [OF 1(2)] by blast
    have "nxrrset (rec_Name (chg_Record c)) (rec_Type (chg_Record c)) \<in> set (cs_prereqs cs)"
      using create_part_nx [OF 1(2)] 1(1) sets(2) by blast
    then have "rrset Z (rec_Name (chg_Record c)) (rec_Type (chg_Record c)) = {}"
      by (rule prereqs_hold_nx [OF assms(5)])
    moreover have "rec_Type (chg_Record c) \<noteq> ''TXT'' \<and> opt_AxfrEnabled opts \<longrightarrow>
        collisionReason (indexByName ?cached) (chg_Record c) w = None"
      using create_part_adds(2) [OF 1(2)] w by auto
    ultimately show ?thesis using 1(1) w by blast
  next
    case 2
    then show ?thesis using update_part_adds [OF 2(2) assms(4)] by blast
  next
    case 3
    then show ?thesis
      using delete_part_dels [OF 3(2)] assms(4) by (auto simp: del_rec_def Let_def)
  qed
qed

definition x_create :: zoneChangeSet where
  "x_create = create_emit two_zones (indexByName []) (orphanOwnership []) ''prod'' (a_rec ''x.example.com'' ''1.1.1.1'')"

lemma x_create_eq:
  "x_create = \<lparr>cs_prereqs = [nxrrset ''x.example.com'' ''A'', nxrrset ''ddo-a.x.example.com'' ''TXT''],
     cs_changes = [add_rec (a_rec ''x.example.com'' ''1.1.1.1''),
                   add_rec (txt_rec ''ddo-a.x.example.com'' 300 (encodeOwnership ''prod''))]\<rparr>"
  by code_simp

lemma x_create_built:
  "buildZoneChangeSet two_zones (cache_with []) ''example.com''
     [prod_endpoint ''x.example.com'' ''1.1.1.1''] [] [] [] = Ok x_create"
  by (simp add: buildZoneChangeSet_eq create_part_def owned_records_def prod_endpoint_eval x_create_def
      cache_with_def axfr_cache.get_put slice_at_def)

theorem creates_guarded_witness:
  "(\<exists>(oldE, newE) \<in> set (zip [] []).
       ownerFromEndpoint (Some oldE) \<noteq> None \<and>
       chg_Record (add_rec (a_rec ''x.example.com'' ''1.1.1.1'')) \<in> set (endpointToRecords two_zones (Some newE))) \<or>
    (\<exists>e \<in> set [prod_endpoint ''x.example.com'' ''1.1.1.1'']. \<exists>w. ownerFromEndpoint (Some e) = Some w \<and>
       rrset {} (rec_Name (chg_Record (add_rec (a_rec ''x.example.com'' ''1.1.1.1''))))
         (rec_Type (chg_Record (add_rec (a_rec ''x.example.com'' ''1.1.1.1'')))) = {} \<and>
       (rec_Type (chg_Record (add_rec (a_rec ''x.example.com'' ''1.1.1.1''))) \<noteq> ''TXT'' \<and>
          opt_AxfrEnabled two_zones \<longrightarrow>
          collisionReason (indexByName (slice_at (cache_Get (cache_with [])) ''example.com''))
            (chg_Record (add_rec (a_rec ''x.example.com'' ''1.1.1.1''))) w = None))"
  by (rule creates_guarded [OF x_create_built])
    (simp_all add: x_create_eq add_rec_def prereqs_hold_def nxrrset_def)





text \<open>
  An update whose old endpoint yields no record (no target, or an unsupported
  type) still adds the new endpoint's records, and then the UPDATE carries no
  prerequisite at all: the ownership check the update rule promises is absent.
\<close>

theorem update_without_old_records_unguarded:
  assumes "ownerFromEndpoint (Some oldE) = Some w" "endpointToRecords opts (Some oldE) = []"
  shows "buildZoneChangeSet opts cache zone [] [oldE] [newE] [] =
    Ok \<lparr>cs_prereqs = [], cs_changes = map add_rec (endpointToRecords opts (Some newE))\<rparr>"
proof -
  have "cs_concat (map new_emit rs) = \<lparr>cs_prereqs = [], cs_changes = map add_rec rs\<rparr>" for rs
    by (induction rs) (auto simp: cs_empty_def new_emit_def cs_append_def)
  then show ?thesis using assms by (simp add: buildZoneChangeSet_eq update_part_def)
qed

definition bare_endpoint :: Endpoint where
  "bare_endpoint = (prod_endpoint ''x.example.com'' ''1.1.1.1'')\<lparr>ep_Targets := []\<rparr>"

theorem update_without_old_records_unguarded_witness:
  "buildZoneChangeSet two_zones (cache_with []) ''example.com'' [] [bare_endpoint]
     [prod_endpoint ''x.example.com'' ''1.1.1.1''] [] =
   Ok \<lparr>cs_prereqs = [],
       cs_changes = map add_rec (endpointToRecords two_zones (Some (prod_endpoint ''x.example.com'' ''1.1.1.1'')))\<rparr>"
  by (rule update_without_old_records_unguarded [where w = "''prod''"])
    (simp_all add: bare_endpoint_def prod_endpoint_def ownerFromEndpoint_def endpointToRecords_def)



definition unlisted :: "Record list" where
  "unlisted = (case buildZoneChangeSet two_zones (cache_with []) ''example.com'' [] [] [] [owned_endpoint] of
      Ok cs \<Rightarrow> filter (\<lambda>s. list_all (\<lambda>c. \<not> deletes c s) (cs_changes cs)) owned_zone | _ \<Rightarrow> [])"

lemma owned_zone_labels:
  "ep_Labels owned_endpoint = Some [''owner'' \<mapsto> ''prod'', ''resource'' \<mapsto> ''rfc2136/example.com'']"
proof -
  have "marked_owner owned_zone (''x.example.com'', ''A'') = Some ''prod''" by code_simp
  then show ?thesis by (simp add: owned_endpoint_def group_endpoint_def)
qed

lemma owned_once: "marked_once owned_zone (ep_DNSName owned_endpoint, ep_RecordType owned_endpoint) ''prod''"
  by code_simp

lemma unlisted_rest: "unlisted = [a_rec ''y.example.com'' ''2.2.2.2'']"
  by code_simp


end
