(* ===== verification/Breaker.thy ===== *)
theory Breaker
  imports GoStrings
begin

text \<open>
  The per-DC circuit breaker of \<open>internal/state/dcbreaker.go\<close>.  The abstract
  view of one DC is a small state machine (\<open>circuit\<close>); the three maps of the
  struct implement it, one DC at a time.  Times and durations are nanoseconds;
  the clock reading is an argument of the operations that take one.
\<close>

section \<open>Definitions\<close>

definition second :: int where "second = 1000000000"
definition hour :: int where "hour = 3600 * second"

lemmas time_defs = second_def hour_def

record DCBreaker =
  br_Threshold :: int
  br_fails :: "string \<rightharpoonup> int"
  br_opens :: "string \<rightharpoonup> int"
  br_openUntil :: "string \<rightharpoonup> int"

text \<open>Reading a Go map of integers: absent keys read as zero.\<close>

definition int_at :: "(string \<rightharpoonup> int) \<Rightarrow> string \<Rightarrow> int" where
  "int_at m k = (case m k of None \<Rightarrow> 0 | Some v \<Rightarrow> v)"

definition NewDCBreaker :: "int \<Rightarrow> DCBreaker" where
  "NewDCBreaker threshold =
     \<lparr>br_Threshold = (if threshold < 1 then 1 else threshold),
      br_fails = Map.empty, br_opens = Map.empty, br_openUntil = Map.empty\<rparr>"

definition IsAvailable :: "DCBreaker \<Rightarrow> int \<Rightarrow> string \<Rightarrow> bool \<times> DCBreaker" where
  "IsAvailable b now dc =
     (case br_openUntil b dc of
        None \<Rightarrow> (True, b)
      | Some openUntil \<Rightarrow>
          (if now < openUntil then (False, b)
           else (True, b\<lparr>br_openUntil := (br_openUntil b)(dc := None),
                         br_fails := (br_fails b)(dc \<mapsto> 0)\<rparr>)))"

definition RecordSuccess :: "DCBreaker \<Rightarrow> string \<Rightarrow> DCBreaker" where
  "RecordSuccess b dc =
     b\<lparr>br_openUntil := (br_openUntil b)(dc := None),
       br_fails := (br_fails b)(dc \<mapsto> 0),
       br_opens := (br_opens b)(dc \<mapsto> 0)\<rparr>"

text \<open>The doubling loop, with the early exit at one hour.\<close>

fun cooldown_loop :: "nat \<Rightarrow> int \<Rightarrow> int" where
  "cooldown_loop 0 cooldown = cooldown"
| "cooldown_loop (Suc n) cooldown =
     (let cooldown = cooldown * 2 in if cooldown \<ge> hour then hour else cooldown_loop n cooldown)"

definition RecordFailure :: "DCBreaker \<Rightarrow> int \<Rightarrow> string \<Rightarrow> int \<times> DCBreaker" where
  "RecordFailure b now dc =
     (let b1 = b\<lparr>br_fails := (br_fails b)(dc \<mapsto> int_at (br_fails b) dc + 1)\<rparr>
      in if int_at (br_fails b1) dc < br_Threshold b1 then (0, b1)
         else if br_openUntil b1 dc \<noteq> None then (0, b1)
         else let opens = int_at (br_opens b1) dc;
                  cooldown = cooldown_loop (nat opens) (60 * second)
              in (cooldown, b1\<lparr>br_openUntil := (br_openUntil b1)(dc \<mapsto> now + cooldown),
                              br_opens := (br_opens b1)(dc \<mapsto> opens + 1)\<rparr>))"

section \<open>The abstract circuit\<close>

text \<open>
  \<open>Closed n k\<close>: \<open>n\<close> consecutive failures, opened \<open>k\<close> times since the last
  success.  \<open>Open u k\<close>: unavailable until \<open>u\<close>.
\<close>

datatype circuit = Closed int int | Open int int

definition backoff :: "int \<Rightarrow> int" where
  "backoff k = min (60 * second * 2 ^ nat k) hour"

fun circuit_fail :: "int \<Rightarrow> int \<Rightarrow> circuit \<Rightarrow> circuit" where
  "circuit_fail thr now (Closed n k) =
     (if n + 1 < thr then Closed (n + 1) k else Open (now + backoff k) (k + 1))"
| "circuit_fail thr now (Open u k) = Open u k"

fun circuit_probe :: "int \<Rightarrow> circuit \<Rightarrow> bool \<times> circuit" where
  "circuit_probe now (Closed n k) = (True, Closed n k)"
| "circuit_probe now (Open u k) = (if now < u then (False, Open u k) else (True, Closed 0 k))"

definition circuit_of :: "DCBreaker \<Rightarrow> string \<Rightarrow> circuit" where
  "circuit_of b dc =
     (case br_openUntil b dc of
        None \<Rightarrow> Closed (int_at (br_fails b) dc) (int_at (br_opens b) dc)
      | Some u \<Rightarrow> Open u (int_at (br_opens b) dc))"

text \<open>An open circuit has reached the threshold, a closed one has not.\<close>

definition breaker_inv :: "DCBreaker \<Rightarrow> bool" where
  "breaker_inv b \<longleftrightarrow> 1 \<le> br_Threshold b \<and>
     (\<forall>dc. 0 \<le> int_at (br_fails b) dc \<and> 0 \<le> int_at (br_opens b) dc \<and>
        (br_openUntil b dc = None \<longrightarrow> int_at (br_fails b) dc < br_Threshold b) \<and>
        (br_openUntil b dc \<noteq> None \<longrightarrow> br_Threshold b \<le> int_at (br_fails b) dc))"

section \<open>The interface the orchestrator relies on\<close>

locale dc_breaker =
  fixes available :: "'b \<Rightarrow> int \<Rightarrow> string \<Rightarrow> bool \<times> 'b"
    and success :: "'b \<Rightarrow> string \<Rightarrow> 'b"
    and failure :: "'b \<Rightarrow> int \<Rightarrow> string \<Rightarrow> int \<times> 'b"
    and circ :: "'b \<Rightarrow> string \<Rightarrow> circuit"
    and thr :: "'b \<Rightarrow> int"
    and inv :: "'b \<Rightarrow> bool"
  assumes available_result: "inv b \<Longrightarrow> fst (available b now dc) = fst (circuit_probe now (circ b dc))"
    and available_circ: "inv b \<Longrightarrow>
      circ (snd (available b now dc)) d = (if d = dc then snd (circuit_probe now (circ b dc)) else circ b d)"
    and success_circ: "inv b \<Longrightarrow> circ (success b dc) d = (if d = dc then Closed 0 0 else circ b d)"
    and failure_circ: "inv b \<Longrightarrow>
      circ (snd (failure b now dc)) d = (if d = dc then circuit_fail (thr b) now (circ b dc) else circ b d)"
    and available_inv: "inv b \<Longrightarrow> inv (snd (available b now dc)) \<and> thr (snd (available b now dc)) = thr b"
    and success_inv: "inv b \<Longrightarrow> inv (success b dc) \<and> thr (success b dc) = thr b"
    and failure_inv: "inv b \<Longrightarrow> inv (snd (failure b now dc)) \<and> thr (snd (failure b now dc)) = thr b"
begin

lemmas circ_simps = available_circ success_circ failure_circ
lemmas inv_simps = available_inv success_inv failure_inv

text \<open>A run of failures reported at the given clock readings.\<close>

fun failures :: "'b \<Rightarrow> string \<Rightarrow> int list \<Rightarrow> 'b" where
  "failures b dc [] = b"
| "failures b dc (t # ts) = failures (snd (failure b t dc)) dc ts"

lemma failures_closed:
  "inv b \<Longrightarrow> circ b dc = Closed n k \<Longrightarrow> n + int (length ts) < thr b \<Longrightarrow>
     circ (failures b dc ts) dc = Closed (n + int (length ts)) k"
  by (induction ts arbitrary: b n) (simp_all add: failure_circ failure_inv)

lemma failures_open:
  "inv b \<Longrightarrow> circ b dc = Open u k \<Longrightarrow> circ (failures b dc ts) dc = Open u k"
  by (induction ts arbitrary: b) (simp_all add: failure_circ failure_inv)

lemma failures_append: "failures b dc (xs @ ys) = failures (failures b dc xs) dc ys"
  by (induction xs arbitrary: b) simp_all

lemma failures_inv: "inv b \<Longrightarrow> inv (failures b dc ts) \<and> thr (failures b dc ts) = thr b"
  by (induction ts arbitrary: b) (simp_all add: failure_inv)

text \<open>Exactly the failure that makes the streak reach the threshold opens the circuit.\<close>

lemma threshold_opens:
  assumes "inv b" "circ b dc = Closed n k" "n + int (length ts) + 1 = thr b"
  shows "circ (failures b dc (ts @ [t])) dc = Open (t + backoff k) (k + 1)"
proof -
  have "circ (failures b dc ts) dc = Closed (thr b - 1) k"
    using failures_closed [OF assms(1,2), of ts] assms(3) by simp
  then show ?thesis
    using failures_inv [OF assms(1), of dc ts] by (simp add: failures_append failure_circ)
qed

text \<open>Reports about different DCs commute, so a set of them can be reported in any order.\<close>

definition report :: "(string \<Rightarrow> bool) \<Rightarrow> int \<Rightarrow> 'b \<Rightarrow> string \<Rightarrow> 'b" where
  "report ok now b dc = (if ok dc then success b dc else snd (failure b now dc))"

lemma report_inv: "inv b \<Longrightarrow> inv (report ok now b dc) \<and> thr (report ok now b dc) = thr b"
  by (simp add: report_def success_inv failure_inv)

lemma reports_circ:
  "inv b \<Longrightarrow> distinct dcs \<Longrightarrow>
     circ (foldl (report ok now) b dcs) d =
       (if d \<in> set dcs then (if ok d then Closed 0 0 else circuit_fail (thr b) now (circ b d))
        else circ b d)"
proof (induction dcs arbitrary: b)
  case (Cons x xs)
  then show ?case
    using Cons.IH [of "report ok now b x"]
    by (auto simp: report_inv) (auto simp: report_def success_circ failure_circ)
qed simp

end

section \<open>The struct implements the circuit\<close>

lemma cooldown_loop_eq:
  assumes "0 < c" "c \<le> hour"
  shows "cooldown_loop n c = min (c * 2 ^ n) hour"
  using assms
proof (induction n arbitrary: c)
  case (Suc n)
  show ?case
  proof (cases "hour \<le> c * 2")
    case True
    have "c * 2 * 1 \<le> c * 2 * 2 ^ n"
      using Suc.prems by (intro mult_left_mono) auto
    with True have "hour \<le> c * 2 ^ Suc n" by (simp add: mult.assoc)
    with True show ?thesis by (simp add: Let_def)
  next
    case False
    then have "cooldown_loop n (c * 2) = min (c * 2 * 2 ^ n) hour"
      using Suc.prems by (intro Suc.IH) auto
    with False show ?thesis by (simp add: Let_def mult.assoc)
  qed
qed simp

lemma cooldown_backoff: "cooldown_loop (nat k) (60 * second) = backoff k"
  by (simp add: cooldown_loop_eq backoff_def time_defs)

lemma int_at_upd [simp]: "int_at (m(k \<mapsto> v)) j = (if j = k then v else int_at m j)"
  by (simp add: int_at_def)

lemma int_at_empty [simp]: "int_at Map.empty k = 0"
  by (simp add: int_at_def)

lemma IsAvailable_circuit:
  "fst (IsAvailable b now dc) = fst (circuit_probe now (circuit_of b dc))"
  "circuit_of (snd (IsAvailable b now dc)) d =
     (if d = dc then snd (circuit_probe now (circuit_of b dc)) else circuit_of b d)"
  by (auto simp: IsAvailable_def circuit_of_def split: option.splits)

lemma RecordSuccess_circuit:
  "circuit_of (RecordSuccess b dc) d = (if d = dc then Closed 0 0 else circuit_of b d)"
  by (auto simp: RecordSuccess_def circuit_of_def split: option.splits)

lemma RecordFailure_circuit:
  assumes "breaker_inv b"
  shows "circuit_of (snd (RecordFailure b now dc)) d =
    (if d = dc then circuit_fail (br_Threshold b) now (circuit_of b dc) else circuit_of b d)"
proof (cases "br_openUntil b dc")
  case None
  then show ?thesis
    by (auto simp: RecordFailure_def circuit_of_def Let_def cooldown_backoff split: option.splits)
next
  case (Some u)
  then have "br_Threshold b \<le> int_at (br_fails b) dc"
    using assms by (auto simp: breaker_inv_def)
  with Some show ?thesis
    by (auto simp: RecordFailure_def circuit_of_def Let_def split: option.splits)
qed

lemma RecordFailure_result:
  assumes "breaker_inv b"
  shows "fst (RecordFailure b now dc) =
    (case circuit_of b dc of
       Open _ _ \<Rightarrow> 0
     | Closed n k \<Rightarrow> if n + 1 < br_Threshold b then 0 else backoff k)"
  using assms
  by (auto simp: RecordFailure_def circuit_of_def Let_def cooldown_backoff breaker_inv_def
      split: option.splits)

lemma NewDCBreaker_inv: "breaker_inv (NewDCBreaker t)"
  by (simp add: breaker_inv_def NewDCBreaker_def)

lemma IsAvailable_inv:
  "breaker_inv b \<Longrightarrow>
     breaker_inv (snd (IsAvailable b now dc)) \<and> br_Threshold (snd (IsAvailable b now dc)) = br_Threshold b"
  by (auto simp: breaker_inv_def IsAvailable_def split: option.splits)

lemma RecordSuccess_inv:
  "breaker_inv b \<Longrightarrow>
     breaker_inv (RecordSuccess b dc) \<and> br_Threshold (RecordSuccess b dc) = br_Threshold b"
  by (auto simp: breaker_inv_def RecordSuccess_def)

lemma RecordFailure_inv:
  "breaker_inv b \<Longrightarrow>
     breaker_inv (snd (RecordFailure b now dc)) \<and> br_Threshold (snd (RecordFailure b now dc)) = br_Threshold b"
  by (auto simp: breaker_inv_def RecordFailure_def Let_def add_nonneg_nonneg)
    (metis (full_types) add_increasing2 zero_le_one)

interpretation breaker: dc_breaker IsAvailable RecordSuccess RecordFailure circuit_of br_Threshold breaker_inv
  by unfold_locales
    (simp_all add: IsAvailable_circuit RecordSuccess_circuit RecordFailure_circuit
      IsAvailable_inv RecordSuccess_inv RecordFailure_inv)

section \<open>Properties\<close>

text \<open>
  C18. The three maps of the struct implement one circuit per DC: availability
  answers, successes and failures act on the DC's circuit as the state machine
  says and leave every other DC's circuit alone, and the invariant is kept.
\<close>

theorem breaker_refines_circuit:
  assumes "breaker_inv b"
  shows "fst (IsAvailable b now dc) = fst (circuit_probe now (circuit_of b dc)) \<and>
    circuit_of (snd (IsAvailable b now dc)) =
      (circuit_of b)(dc := snd (circuit_probe now (circuit_of b dc))) \<and>
    circuit_of (RecordSuccess b dc) = (circuit_of b)(dc := Closed 0 0) \<and>
    circuit_of (snd (RecordFailure b now dc)) =
      (circuit_of b)(dc := circuit_fail (br_Threshold b) now (circuit_of b dc)) \<and>
    breaker_inv (snd (IsAvailable b now dc)) \<and> breaker_inv (RecordSuccess b dc) \<and>
    breaker_inv (snd (RecordFailure b now dc))"
  using assms
  by (auto simp: breaker.available_result breaker.circ_simps breaker.inv_simps fun_eq_iff)

theorem breaker_refines_circuit_witness:
  "circuit_of (snd (RecordFailure (NewDCBreaker 3) 7 ''dc1'')) =
     (circuit_of (NewDCBreaker 3))(''dc1'' := circuit_fail (br_Threshold (NewDCBreaker 3)) 7 (circuit_of (NewDCBreaker 3) ''dc1''))"
  using breaker_refines_circuit [OF NewDCBreaker_inv, of 3 7 "''dc1''"] by blast

text \<open>
  C19. A DC whose circuit is closed after \<open>n\<close> failures, and that then fails until the
  streak is exactly the threshold, is unavailable from the last failure until its
  backoff has passed, and available again from then on; one failure fewer leaves it
  available at all times.
\<close>

theorem threshold_failures_open:
  assumes "breaker_inv b" "circuit_of b dc = Closed n k" "n + int (length ts) + 1 = br_Threshold b"
  shows "fst (IsAvailable (breaker.failures b dc ts) now dc) \<and>
    (fst (IsAvailable (breaker.failures b dc (ts @ [t])) now dc) \<longleftrightarrow> t + backoff k \<le> now)"
proof -
  have "circuit_of (breaker.failures b dc ts) dc = Closed (n + int (length ts)) k"
    using assms by (intro breaker.failures_closed) simp_all
  moreover have "circuit_of (breaker.failures b dc (ts @ [t])) dc = Open (t + backoff k) (k + 1)"
    by (rule breaker.threshold_opens) fact+
  ultimately show ?thesis
    using breaker.failures_inv [OF assms(1)] by (auto simp: breaker.available_result)
qed

theorem threshold_failures_open_witness:
  "fst (IsAvailable (breaker.failures (NewDCBreaker 3) ''dc1'' [5, 6]) 8 ''dc1'') \<and>
   (fst (IsAvailable (breaker.failures (NewDCBreaker 3) ''dc1'' ([5, 6] @ [7])) 8 ''dc1'') \<longleftrightarrow> 7 + backoff 0 \<le> 8)"
  by (rule threshold_failures_open [OF NewDCBreaker_inv, where n = 0])
    (simp_all add: circuit_of_def NewDCBreaker_def)

text \<open>
  The cooldown a failure starts is zero when the circuit does not open, and
  otherwise one minute doubled once per earlier opening and capped at one hour;
  the loop computes it exactly, for every number of openings.
\<close>

theorem cooldown_exact:
  assumes "breaker_inv b"
  shows "fst (RecordFailure b now dc) =
    (case circuit_of b dc of
       Open _ _ \<Rightarrow> 0
     | Closed n k \<Rightarrow>
         if n + 1 < br_Threshold b then 0
         else min (60 * 1000000000 * 2 ^ nat k) (3600 * 1000000000))"
  using RecordFailure_result [OF assms, of now dc]
  by (simp add: backoff_def time_defs split: circuit.splits)

theorem cooldown_exact_witness:
  "fst (RecordFailure (NewDCBreaker 1) 0 ''dc1'') = 60 * 1000000000"
  using cooldown_exact [OF NewDCBreaker_inv, of 1 0 "''dc1''"]
  by (simp add: circuit_of_def NewDCBreaker_def)

text \<open>
  A success after a cooldown forgets how often the circuit had opened: the
  next opening, after a full streak of failures, lasts one minute again, whatever
  the number of openings before.
\<close>

theorem success_resets_backoff:
  assumes "breaker_inv b" "circuit_of b dc = Open u k" "int (length ts) + 1 = br_Threshold b"
  shows "circuit_of (breaker.failures (RecordSuccess (snd (IsAvailable b u dc)) dc) dc (ts @ [t])) dc =
    Open (t + 60 * 1000000000) 1"
proof -
  let ?b = "RecordSuccess (snd (IsAvailable b u dc)) dc"
  have i: "breaker_inv ?b" "br_Threshold ?b = br_Threshold b"
    using assms(1) by (simp_all add: breaker.inv_simps)
  have c: "circuit_of ?b dc = Closed 0 0" using assms(1) by (simp add: breaker.circ_simps breaker.inv_simps)
  have "0 + int (length ts) + 1 = br_Threshold ?b" using i(2) assms(3) by (simp only: add_0)
  from breaker.threshold_opens [OF i(1) c this] show ?thesis by (simp add: backoff_def time_defs)
qed

definition open_breaker :: DCBreaker where
  "open_breaker = \<lparr>br_Threshold = 1, br_fails = [''dc1'' \<mapsto> 1], br_opens = [''dc1'' \<mapsto> 5],
                  br_openUntil = [''dc1'' \<mapsto> 100]\<rparr>"

theorem success_resets_backoff_witness:
  "circuit_of (breaker.failures (RecordSuccess (snd (IsAvailable open_breaker 100 ''dc1'')) ''dc1'') ''dc1''
     ([] @ [200])) ''dc1'' = Open (200 + 60 * 1000000000) 1"
proof (rule success_resets_backoff)
  show "breaker_inv open_breaker" by (simp add: breaker_inv_def open_breaker_def int_at_def)
  show "circuit_of open_breaker ''dc1'' = Open 100 5" by (simp add: open_breaker_def circuit_of_def int_at_def)
qed (simp add: open_breaker_def)

end
