(* ===== verification/Failover.thy ===== *)
theory Failover
  imports ChangeSet Breaker
begin

text \<open>
  The orchestrator's state and its walk over the domain controllers
  (\<open>internal/orchestrator/orchestrator.go\<close>): \<open>availableDCs\<close>, \<open>dcOrderForZone\<close>,
  \<open>axfrZone\<close>, \<open>isFailoverEligible\<close> and \<open>applyZone\<close>.

  The outside world is a record of functions of a step counter: the n-th time
  the program reads the clock, polls its context, sends a message or ranges over
  a map, the world answers with its n-th answer.  Nothing is assumed about the
  answers, so every statement holds for every schedule of replies and clock
  readings.  \<open>w_Update\<close> answers \<open>None\<close> when the client panicked instead of returning.
  \<open>o_wire\<close> records the calls made, in order; the program never reads \<open>o_tick\<close> or
  \<open>o_wire\<close>.
\<close>

section \<open>World and state\<close>

datatype wire =
    AxfrCall string string
  | UpdateCall string string "Prereq list" "Change list"

record world =
  w_now :: "nat \<Rightarrow> int"
  w_ctxErr :: "nat \<Rightarrow> string option"
  w_AXFR :: "nat \<Rightarrow> string \<Rightarrow> int \<Rightarrow> string \<Rightarrow> RecordsResult"
  w_Update :: "nat \<Rightarrow> string \<Rightarrow> int \<Rightarrow> string \<Rightarrow> Prereq list \<Rightarrow> Change list \<Rightarrow> ApplyResult option"
  w_range :: "nat \<Rightarrow> string list \<Rightarrow> string list"

record Orchestrator =
  o_cache :: AXFRCache
  o_pins :: ZonePins
  o_zlocks :: ZoneLocks
  o_breaker :: DCBreaker
  o_tick :: nat
  o_wire :: "wire list"

definition New :: "Options \<Rightarrow> Orchestrator" where
  "New opts =
     \<lparr>o_cache = NewAXFRCache, o_pins = NewZonePins, o_zlocks = NewZoneLocks,
      o_breaker = NewDCBreaker (opt_CircuitBreakerThreshold opts), o_tick = 0, o_wire = []\<rparr>"

definition tick :: "Orchestrator \<Rightarrow> Orchestrator" where
  "tick s = s\<lparr>o_tick := Suc (o_tick s)\<rparr>"

definition send :: "wire \<Rightarrow> Orchestrator \<Rightarrow> Orchestrator" where
  "send m s = s\<lparr>o_wire := o_wire s @ [m]\<rparr>"

section \<open>Choosing DCs\<close>

definition probe :: "world \<Rightarrow> Orchestrator \<Rightarrow> string \<Rightarrow> bool \<times> Orchestrator" where
  "probe W s dc =
     (case IsAvailable (o_breaker s) (w_now W (o_tick s)) dc of
        (ok, b) \<Rightarrow> (ok, tick (s\<lparr>o_breaker := b\<rparr>)))"

fun availableDCs_aux :: "world \<Rightarrow> Orchestrator \<Rightarrow> string list \<Rightarrow> string list \<Rightarrow> string list \<times> Orchestrator" where
  "availableDCs_aux W s out [] = (out, s)"
| "availableDCs_aux W s out (dc # dcs) =
     (case probe W s dc of
        (ok, s') \<Rightarrow> availableDCs_aux W s' (if ok then out @ [dc] else out) dcs)"

definition availableDCs :: "Options \<Rightarrow> world \<Rightarrow> Orchestrator \<Rightarrow> string list \<times> Orchestrator" where
  "availableDCs opts W s = availableDCs_aux W s [] (opt_Hosts opts)"

fun order_loop :: "string list \<Rightarrow> string list \<Rightarrow> string list" where
  "order_loop order [] = order"
| "order_loop order (dc # dcs) =
     (if length order = 1 \<and> dc = hd order then order_loop order dcs
      else order_loop (order @ [dc]) dcs)"

definition dcOrderForZone :: "ZonePins \<Rightarrow> string \<Rightarrow> string list \<Rightarrow> string list" where
  "dcOrderForZone pins zone available =
     (let order = (case pins_Get pins zone of
                     None \<Rightarrow> []
                   | Some pinned \<Rightarrow> if pinned \<in> set available then [pinned] else [])
      in order_loop order available)"

section \<open>Reading a zone\<close>

text \<open>The \<open>tried\<close> map is only used as a set of keys.\<close>

definition set_add :: "string \<Rightarrow> string list \<Rightarrow> string list" where
  "set_add k ks = (if k \<in> set ks then ks else ks @ [k])"

definition axfr_error :: "string \<Rightarrow> RecordsResult \<Rightarrow> string" where
  "axfr_error dc res = ''dc='' @ dc @ '' phase='' @ rr_Phase res @ '': '' @ rr_Message res"

fun axfr_loop ::
  "Options \<Rightarrow> world \<Rightarrow> string \<Rightarrow> Orchestrator \<Rightarrow> string list \<Rightarrow> string option \<Rightarrow> string list \<Rightarrow>
     (Record list \<times> string) go \<times> Orchestrator \<times> string list" where
  "axfr_loop opts W zone s tried lastErr [] =
     (Err (case lastErr of None \<Rightarrow> ''no DCs available'' | Some e \<Rightarrow> e), s, tried)"
| "axfr_loop opts W zone s tried lastErr (dc # dcs) =
     (case w_ctxErr W (o_tick s) of
        Some e \<Rightarrow> (Err e, tick s, tried)
      | None \<Rightarrow>
          (let s1 = tick s;
               tried1 = set_add dc tried;
               res = w_AXFR W (o_tick s1) dc (opt_Port opts) zone;
               s2 = tick (send (AxfrCall dc zone) s1)
           in if rr_OK res then (Ok (rr_Records res, dc), s2, tried1)
              else axfr_loop opts W zone s2 tried1 (Some (axfr_error dc res)) dcs))"

definition axfrZone ::
  "Options \<Rightarrow> world \<Rightarrow> Orchestrator \<Rightarrow> string \<Rightarrow> string list \<Rightarrow> string list \<Rightarrow>
     (Record list \<times> string) go \<times> Orchestrator \<times> string list" where
  "axfrZone opts W s zone available tried =
     axfr_loop opts W zone s tried None (dcOrderForZone (o_pins s) zone available)"

section \<open>Writing a zone\<close>

definition failoverRcodes :: "string list" where
  "failoverRcodes = [''SERVFAIL'', ''REFUSED'', ''NOTAUTH'']"

definition isFailoverEligible :: "ApplyResult \<Rightarrow> bool" where
  "isFailoverEligible res \<longleftrightarrow> ar_Retryable res \<or> ar_Rcode res \<in> set failoverRcodes"

definition update_failure :: "string \<Rightarrow> ApplyResult \<Rightarrow> string" where
  "update_failure dc res =
     ''dc='' @ dc @ '' rcode='' @ ar_Rcode res @ '' phase='' @ ar_Phase res @ '' msg='' @ ar_Message res"

text \<open>\<open>n\<close> is the length of the whole order, quoted in the final error.\<close>

fun update_loop_dcs ::
  "Options \<Rightarrow> world \<Rightarrow> string \<Rightarrow> zoneChangeSet \<Rightarrow> nat \<Rightarrow> Orchestrator \<Rightarrow> string \<Rightarrow> string list \<Rightarrow>
     unit go \<times> Orchestrator" where
  "update_loop_dcs opts W zone cs n s lastFailure [] =
     (Err (''UPDATE exhausted '' @ Itoa (int n) @ '' DC(s); last: '' @ lastFailure), s)"
| "update_loop_dcs opts W zone cs n s lastFailure (dc # dcs) =
     (case w_ctxErr W (o_tick s) of
        Some e \<Rightarrow> (Err e, tick s)
      | None \<Rightarrow>
          (let s1 = tick s;
               s2 = tick (send (UpdateCall dc zone (cs_prereqs cs) (cs_changes cs)) s1)
           in case w_Update W (o_tick s1) dc (opt_Port opts) zone (cs_prereqs cs) (cs_changes cs) of
                None \<Rightarrow> (Panic, s2)
              | Some res \<Rightarrow>
                  (if ar_OK res then
                     (Ok (), s2\<lparr>o_pins := pins_Set (o_pins s2) zone dc,
                                o_breaker := RecordSuccess (o_breaker s2) dc\<rparr>)
                   else if \<not> isFailoverEligible res then
                     (Err (''UPDATE failed (non-retryable): '' @ update_failure dc res), s2)
                   else
                     (let b = snd (RecordFailure (o_breaker s2) (w_now W (o_tick s2)) dc)
                      in update_loop_dcs opts W zone cs n (tick (s2\<lparr>o_breaker := b\<rparr>))
                           (update_failure dc res) dcs))))"

definition no_dcs :: string where
  "no_dcs = ''no DCs available (all circuits open)''"

definition applyZone ::
  "Options \<Rightarrow> world \<Rightarrow> Orchestrator \<Rightarrow> string \<Rightarrow> zoneChangeSet \<Rightarrow> unit go \<times> Orchestrator" where
  "applyZone opts W s zone cs =
     (let s0 = s\<lparr>o_zlocks := snd (locks_For (o_zlocks s) zone)\<rparr>
      in case availableDCs opts W s0 of
           (available, s1) \<Rightarrow>
             (if available = [] then (Err no_dcs, s1)
              else let order = dcOrderForZone (o_pins s1) zone available
                   in update_loop_dcs opts W zone cs (length order) s1 [] order))"

section \<open>Frame\<close>

text \<open>Which fields the steps of a walk can change.\<close>

lemma tick_send_frame [simp]:
  "o_cache (tick s) = o_cache s" "o_pins (tick s) = o_pins s" "o_zlocks (tick s) = o_zlocks s"
  "o_breaker (tick s) = o_breaker s" "o_wire (tick s) = o_wire s" "o_tick (tick s) = Suc (o_tick s)"
  "o_cache (send m s) = o_cache s" "o_pins (send m s) = o_pins s" "o_zlocks (send m s) = o_zlocks s"
  "o_breaker (send m s) = o_breaker s" "o_wire (send m s) = o_wire s @ [m]" "o_tick (send m s) = o_tick s"
  by (simp_all add: tick_def send_def)

lemma probe_frame [frame]:
  "o_cache (snd (probe W s dc)) = o_cache s" "o_pins (snd (probe W s dc)) = o_pins s"
  "o_zlocks (snd (probe W s dc)) = o_zlocks s" "o_wire (snd (probe W s dc)) = o_wire s"
  by (simp_all add: probe_def split: prod.splits)

lemma availableDCs_aux_frame:
  "availableDCs_aux W s out dcs = (r, s') \<Longrightarrow>
     o_cache s' = o_cache s \<and> o_pins s' = o_pins s \<and> o_zlocks s' = o_zlocks s \<and> o_wire s' = o_wire s"
proof (induction dcs arbitrary: s out)
  case (Cons dc dcs)
  then show ?case
    using probe_frame [of W s dc] by (fastforce split: prod.splits)
qed simp

lemma availableDCs_frame:
  "availableDCs opts W s = (r, s') \<Longrightarrow>
     o_cache s' = o_cache s \<and> o_pins s' = o_pins s \<and> o_zlocks s' = o_zlocks s \<and> o_wire s' = o_wire s"
  unfolding availableDCs_def by (rule availableDCs_aux_frame)

lemma probe_breaker_inv:
  "breaker_inv (o_breaker s) \<Longrightarrow>
     breaker_inv (o_breaker (snd (probe W s dc))) \<and>
     br_Threshold (o_breaker (snd (probe W s dc))) = br_Threshold (o_breaker s)"
  using breaker.available_inv [of "o_breaker s" "w_now W (o_tick s)" dc]
  by (cases "IsAvailable (o_breaker s) (w_now W (o_tick s)) dc") (simp add: probe_def)

lemma availableDCs_aux_inv:
  "availableDCs_aux W s out dcs = (r, s') \<Longrightarrow> breaker_inv (o_breaker s) \<Longrightarrow> breaker_inv (o_breaker s')"
proof (induction dcs arbitrary: s out)
  case (Cons dc dcs)
  then show ?case
    using probe_breaker_inv [of s W dc] by (fastforce split: prod.splits)
qed simp

lemma availableDCs_aux_sub:
  "availableDCs_aux W s out dcs = (r, s') \<Longrightarrow> \<exists>r'. r = out @ r' \<and> set r' \<subseteq> set dcs \<and> (distinct dcs \<longrightarrow> distinct r')"
proof (induction dcs arbitrary: s out)
  case (Cons dc dcs)
  obtain ok s1 where p: "probe W s dc = (ok, s1)" by fastforce
  with Cons.prems have "availableDCs_aux W s1 (if ok then out @ [dc] else out) dcs = (r, s')" by simp
  then obtain r' where r': "r = (if ok then out @ [dc] else out) @ r'" "set r' \<subseteq> set dcs"
    "distinct dcs \<longrightarrow> distinct r'"
    using Cons.IH by blast
  show ?case
  proof (cases ok)
    case True
    with r' show ?thesis by (intro exI [of _ "dc # r'"]) auto
  next
    case False
    with r' show ?thesis by (intro exI [of _ r']) auto
  qed
qed simp

lemma availableDCs_sub:
  "availableDCs opts W s = (r, s') \<Longrightarrow>
     set r \<subseteq> set (opt_Hosts opts) \<and> (distinct (opt_Hosts opts) \<longrightarrow> distinct r)"
  using availableDCs_aux_sub [of W s "[]" "opt_Hosts opts" r s'] by (auto simp: availableDCs_def)

section \<open>The walk order\<close>

lemma order_loop_long: "length order \<noteq> 1 \<Longrightarrow> order \<noteq> [] \<Longrightarrow> order_loop order dcs = order @ dcs"
  by (induction dcs arbitrary: order) auto

lemma order_loop_one:
  "x \<notin> set dcs \<Longrightarrow> order_loop [x] dcs = x # dcs"
  by (cases dcs) (auto simp: order_loop_long)

lemma order_loop_pinned:
  "distinct available \<Longrightarrow> order_loop [x] available =
     (if available \<noteq> [] \<and> hd available = x then available else x # available)"
  by (cases available) (auto simp: order_loop_one order_loop_long)

lemma order_loop_free: "distinct available \<Longrightarrow> order_loop [] available = available"
  by (cases available) (auto simp: order_loop_one)

text \<open>
  With distinct available DCs the order is the available list, except that a
  pinned DC that is not its head is put in front and stays in its old place too.
\<close>

lemma dcOrderForZone_eq:
  assumes "distinct available"
  shows "dcOrderForZone pins zone available =
    (case pins_Get pins zone of
       None \<Rightarrow> available
     | Some pinned \<Rightarrow>
         if pinned \<in> set available \<and> hd available \<noteq> pinned then pinned # available else available)"
  using assms
  by (auto simp: dcOrderForZone_def order_loop_pinned order_loop_free split: option.splits)

lemma order_loop_set: "set (order_loop order dcs) = set order \<union> set dcs"
proof (induction order dcs rule: order_loop.induct)
  case (2 order dc dcs)
  then show ?case by (cases order) auto
qed simp

lemma dcOrderForZone_set: "set (dcOrderForZone pins zone available) = set available"
  by (auto simp: dcOrderForZone_def order_loop_set Let_def split: option.splits)

section \<open>Traces of the walks\<close>

text \<open>
  What an UPDATE walk did: it contacted a prefix of the order with the same
  message each time, and how it ended is told by the last answer.
\<close>

lemma update_loop_trace:
  assumes "update_loop_dcs opts W zone cs n s lf dcs = (r, s')"
  shows "\<exists>tried. o_wire s' = o_wire s @ map (\<lambda>dc. UpdateCall dc zone (cs_prereqs cs) (cs_changes cs)) tried \<and>
    (\<exists>rest. dcs = tried @ rest) \<and> o_cache s' = o_cache s \<and> o_zlocks s' = o_zlocks s \<and>
    (r = Ok () \<longrightarrow> tried \<noteq> [] \<and> pins_Get (o_pins s') zone = Some (last tried)) \<and>
    (r \<noteq> Ok () \<longrightarrow> o_pins s' = o_pins s)"
  using assms
proof (induction dcs arbitrary: s lf)
  case Nil
  then show ?case by auto
next
  case (Cons dc dcs)
  let ?m = "\<lambda>dc. UpdateCall dc zone (cs_prereqs cs) (cs_changes cs)"
  show ?case
  proof (cases "w_ctxErr W (o_tick s)")
    case (Some e)
    with Cons.prems show ?thesis by auto
  next
    case None
    define a where "a = w_Update W (Suc (o_tick s)) dc (opt_Port opts) zone (cs_prereqs cs) (cs_changes cs)"
    show ?thesis
    proof (cases "\<forall>res. a = Some res \<longrightarrow> ar_OK res \<or> \<not> isFailoverEligible res")
      case True
      with Cons.prems None show ?thesis
        by (intro exI [of _ "[dc]"]) (auto simp: a_def Let_def split: if_splits option.splits)
    next
      case False
      then obtain res where res: "a = Some res" "\<not> ar_OK res" "isFailoverEligible res" by blast
      define s2 where "s2 = tick (send (?m dc) (tick s))"
      define s1 where "s1 = tick (s2\<lparr>o_breaker :=
          snd (RecordFailure (o_breaker s2) (w_now W (o_tick s2)) dc)\<rparr>)"
      have rec: "update_loop_dcs opts W zone cs n s1 (update_failure dc res) dcs = (r, s')"
        using Cons.prems None res by (simp add: a_def s1_def s2_def Let_def)
      have s1: "o_wire s1 = o_wire s @ [?m dc]" "o_cache s1 = o_cache s"
        "o_zlocks s1 = o_zlocks s" "o_pins s1 = o_pins s"
        by (simp_all add: s1_def s2_def)
      from Cons.IH [OF rec] obtain tried rest where
        t: "o_wire s' = o_wire s1 @ map ?m tried" "dcs = tried @ rest" "o_cache s' = o_cache s1"
          "o_zlocks s' = o_zlocks s1" "r = Ok () \<longrightarrow> tried \<noteq> [] \<and> pins_Get (o_pins s') zone = Some (last tried)"
          "r \<noteq> Ok () \<longrightarrow> o_pins s' = o_pins s1"
        by blast
      with s1 show ?thesis by (intro exI [of _ "dc # tried"]) auto
    qed
  qed
qed

text \<open>
  The answers of a walk, one per call: every one but the last is a failure that
  makes the next DC worth trying, and the last decides.
\<close>

definition failed_over :: "ApplyResult option \<Rightarrow> bool" where
  "failed_over a \<longleftrightarrow>
     (\<exists>res. a = Some res \<and> \<not> ar_OK res \<and> (ar_Retryable res \<or> ar_Rcode res \<in> {''SERVFAIL'', ''REFUSED'', ''NOTAUTH''}))"

lemma failed_over_eligible:
  "failed_over a \<longleftrightarrow> (\<exists>res. a = Some res \<and> \<not> ar_OK res \<and> isFailoverEligible res)"
  by (simp add: failed_over_def isFailoverEligible_def failoverRcodes_def)

definition walk_verdict :: "(string \<times> ApplyResult option) list \<Rightarrow> unit go \<Rightarrow> bool" where
  "walk_verdict calls r \<longleftrightarrow>
     (\<forall>c \<in> set (butlast calls). failed_over (snd c)) \<and>
     (if calls = [] \<or> failed_over (snd (last calls)) then \<exists>e. r = Err e
      else case last calls of
             (dc, None) \<Rightarrow> r = Panic
           | (dc, Some res) \<Rightarrow>
               r = (if ar_OK res then Ok () else Err (''UPDATE failed (non-retryable): '' @ update_failure dc res)))"

lemma walk_verdict_Cons:
  "failed_over a \<Longrightarrow> walk_verdict calls r \<Longrightarrow> walk_verdict ((dc, a) # calls) r"
  by (auto simp: walk_verdict_def)

lemma walk_verdict_one:
  "walk_verdict [(dc, Some res)] r \<longleftrightarrow>
     (if failed_over (Some res) then \<exists>e. r = Err e
      else r = (if ar_OK res then Ok () else Err (''UPDATE failed (non-retryable): '' @ update_failure dc res)))"
  "walk_verdict [(dc, None)] r \<longleftrightarrow> r = Panic"
  "walk_verdict [] r \<longleftrightarrow> (\<exists>e. r = Err e)"
  by (auto simp: walk_verdict_def failed_over_eligible)

lemma update_loop_answers:
  assumes "update_loop_dcs opts W zone cs n s lf dcs = (r, s')"
  shows "\<exists>calls. o_wire s' = o_wire s @ map (\<lambda>(dc, a). UpdateCall dc zone (cs_prereqs cs) (cs_changes cs)) calls \<and>
    (\<exists>rest. dcs = map fst calls @ rest) \<and> walk_verdict calls r \<and>
    (\<forall>(dc, a) \<in> set calls. \<exists>t \<ge> o_tick s. a = w_Update W t dc (opt_Port opts) zone (cs_prereqs cs) (cs_changes cs))"
  using assms
proof (induction dcs arbitrary: s lf)
  case Nil
  then show ?case by (intro exI [of _ "[]"]) (auto simp: walk_verdict_one)
next
  case (Cons dc dcs)
  let ?m = "UpdateCall dc zone (cs_prereqs cs) (cs_changes cs)"
  let ?a = "w_Update W (Suc (o_tick s)) dc (opt_Port opts) zone (cs_prereqs cs) (cs_changes cs)"
  have t: "o_tick s \<le> Suc (o_tick s)" by simp
  show ?case
  proof (cases "w_ctxErr W (o_tick s)")
    case (Some e)
    with Cons.prems show ?thesis by (intro exI [of _ "[]"]) (auto simp: walk_verdict_one)
  next
    case None
    show ?thesis
    proof (cases "failed_over ?a")
      case False
      with Cons.prems None t show ?thesis
        by (intro exI [of _ "[(dc, ?a)]"])
          (auto simp: Let_def walk_verdict_one failed_over_eligible split: if_splits option.splits
            intro!: exI [of _ "Suc (o_tick s)"])
    next
      case True
      then obtain res where res: "?a = Some res" "\<not> ar_OK res" "isFailoverEligible res"
        by (auto simp: failed_over_eligible)
      define s2 where "s2 = tick (send ?m (tick s))"
      define s1 where "s1 = tick (s2\<lparr>o_breaker := snd (RecordFailure (o_breaker s2) (w_now W (o_tick s2)) dc)\<rparr>)"
      have "update_loop_dcs opts W zone cs n s1 (update_failure dc res) dcs = (r, s')"
        using Cons.prems None res by (simp add: s1_def s2_def Let_def)
      from Cons.IH [OF this] obtain calls where c:
        "o_wire s' = o_wire s1 @ map (\<lambda>(dc, a). UpdateCall dc zone (cs_prereqs cs) (cs_changes cs)) calls"
        "\<exists>rest. dcs = map fst calls @ rest" "walk_verdict calls r"
        "\<forall>(dc, a) \<in> set calls. \<exists>t \<ge> o_tick s1. a = w_Update W t dc (opt_Port opts) zone (cs_prereqs cs) (cs_changes cs)"
        by blast
      have s1: "o_wire s1 = o_wire s @ [?m]" "o_tick s \<le> o_tick s1" by (simp_all add: s1_def s2_def)
      have "\<exists>t \<ge> o_tick s. a = w_Update W t d (opt_Port opts) zone (cs_prereqs cs) (cs_changes cs)"
        if "(d, a) \<in> set ((dc, ?a) # calls)" for d a
      proof (cases "(d, a) \<in> set calls")
        case True
        then show ?thesis using bspec [OF c(4) True] order_trans [OF s1(2)] by auto
      next
        case False
        with that t show ?thesis by (intro exI [of _ "Suc (o_tick s)"]) simp
      qed
      then have "\<forall>(d, a) \<in> set ((dc, ?a) # calls).
          \<exists>t \<ge> o_tick s. a = w_Update W t d (opt_Port opts) zone (cs_prereqs cs) (cs_changes cs)" by blast
      moreover have "\<exists>rest. dc # dcs = map fst ((dc, ?a) # calls) @ rest" using c(2) by simp
      moreover have "o_wire s' = o_wire s @ map (\<lambda>(dc, a). UpdateCall dc zone (cs_prereqs cs) (cs_changes cs)) ((dc, ?a) # calls)"
        using c(1) s1(1) by simp
      ultimately show ?thesis using walk_verdict_Cons [OF True c(3)] by blast
    qed
  qed
qed

text \<open>A permanent refusal ends the walk: nothing is sent after it.\<close>

lemma update_loop_permanent:
  assumes "w_ctxErr W (o_tick s) = None"
    and "w_Update W (Suc (o_tick s)) dc (opt_Port opts) zone (cs_prereqs cs) (cs_changes cs) = Some res"
    and "\<not> ar_OK res" "\<not> isFailoverEligible res"
  shows "\<exists>e s'. update_loop_dcs opts W zone cs n s lf (dc # dcs) = (Err e, s') \<and>
    o_wire s' = o_wire s @ [UpdateCall dc zone (cs_prereqs cs) (cs_changes cs)]"
  using assms by (auto simp: Let_def)

lemma update_loop_inv:
  "update_loop_dcs opts W zone cs n s lf dcs = (r, s') \<Longrightarrow> breaker_inv (o_breaker s) \<Longrightarrow>
     breaker_inv (o_breaker s')"
proof (induction dcs arbitrary: s lf)
  case (Cons dc dcs)
  then show ?case
    by (auto simp: Let_def breaker.success_inv breaker.failure_inv split: option.splits if_splits)
qed auto

text \<open>A walk panics only if the client did, answering for this change set.\<close>

definition never_panics :: "Options \<Rightarrow> world \<Rightarrow> string \<Rightarrow> zoneChangeSet \<Rightarrow> bool" where
  "never_panics opts W zone cs \<longleftrightarrow>
     (\<forall>n dc. w_Update W n dc (opt_Port opts) zone (cs_prereqs cs) (cs_changes cs) \<noteq> None)"

lemma update_loop_not_Panic:
  "update_loop_dcs opts W zone cs n s lf dcs = (r, s') \<Longrightarrow> never_panics opts W zone cs \<Longrightarrow> r \<noteq> Panic"
proof (induction dcs arbitrary: s lf)
  case (Cons dc dcs)
  have "w_Update W (Suc (o_tick s)) dc (opt_Port opts) zone (cs_prereqs cs) (cs_changes cs) \<noteq> None"
    using Cons.prems(2) unfolding never_panics_def by blast
  with Cons show ?case
    by (auto simp: Let_def split: option.splits if_splits)
qed auto

section \<open>Properties\<close>

text \<open>
  The order in which a zone's DCs are tried, for distinct available DCs: the
  pinned DC first when it is available, then the available ones as configured; a
  pinned DC that is available but not their head is not removed from its old
  place, so it is tried twice.
\<close>

theorem dc_order_exact:
  assumes "distinct available"
  shows "dcOrderForZone pins zone available =
    (case pins_Get pins zone of
       None \<Rightarrow> available
     | Some pinned \<Rightarrow>
         if pinned \<in> set available \<and> hd available \<noteq> pinned then pinned # available else available)"
  using assms by (rule dcOrderForZone_eq)

theorem dc_order_exact_witness:
  "dcOrderForZone (pins_Set NewZonePins ''z'' ''dc2'') ''z'' [''dc1'', ''dc2''] = [''dc2'', ''dc1'', ''dc2'']"
  using dc_order_exact [of "[''dc1'', ''dc2'']" "pins_Set NewZonePins ''z'' ''dc2''" "''z''"]
  by (simp add: zone_pins.get_put)

end
