(* ===== verification/Orchestration.thy ===== *)
theory Orchestration
  imports Failover
begin

text \<open>
  The two entry points of \<open>internal/orchestrator/orchestrator.go\<close>: \<open>ListRecords\<close>
  (transfer every zone, keep the breaker's books, rebuild the endpoints) and
  \<open>ApplyChanges\<close> (group by zone, build, send).  The order in which Go ranges
  over a map is an answer of the world.
\<close>

section \<open>ListRecords\<close>

fun list_zones ::
  "Options \<Rightarrow> world \<Rightarrow> string list \<Rightarrow> Orchestrator \<Rightarrow> string list \<Rightarrow> string list \<Rightarrow>
     Endpoint option list \<Rightarrow> string list \<Rightarrow>
     Orchestrator \<times> string list \<times> string list \<times> Endpoint option list" where
  "list_zones opts W available s tried succeeded out [] = (s, tried, succeeded, out)"
| "list_zones opts W available s tried succeeded out (zone # zones) =
     (case axfrZone opts W s zone available tried of
        (res, s1, tried1) \<Rightarrow>
          (case res of
             Ok (recs, dc) \<Rightarrow>
               list_zones opts W available
                 (s1\<lparr>o_pins := pins_Set (o_pins s1) zone dc, o_cache := cache_Put (o_cache s1) zone recs\<rparr>)
                 tried1 (set_add dc succeeded) (out @ endpointsFromRecords opts recs zone) zones
           | _ \<Rightarrow>
               list_zones opts W available (s1\<lparr>o_cache := cache_Drop (o_cache s1) zone\<rparr>)
                 tried1 succeeded out zones))"

fun bookkeep :: "world \<Rightarrow> string list \<Rightarrow> Orchestrator \<Rightarrow> string list \<Rightarrow> Orchestrator" where
  "bookkeep W succeeded s [] = s"
| "bookkeep W succeeded s (dc # dcs) =
     (if dc \<in> set succeeded
      then bookkeep W succeeded (s\<lparr>o_breaker := RecordSuccess (o_breaker s) dc\<rparr>) dcs
      else bookkeep W succeeded
             (tick (s\<lparr>o_breaker := snd (RecordFailure (o_breaker s) (w_now W (o_tick s)) dc)\<rparr>)) dcs)"

definition ListRecords ::
  "Options \<Rightarrow> world \<Rightarrow> Orchestrator \<Rightarrow> Endpoint option list go \<times> Orchestrator" where
  "ListRecords opts W s =
     (if \<not> opt_AxfrEnabled opts then (Ok [], s)
      else case availableDCs opts W s of
             (available, s1) \<Rightarrow>
               (if available = [] then (Err no_dcs, s1)
                else case list_zones opts W available s1 [] [] [] (opt_Zones opts) of
                       (s2, tried, succeeded, out) \<Rightarrow>
                         (Ok out, bookkeep W succeeded (tick s2) (w_range W (o_tick s2) tried))))"

section \<open>ApplyChanges\<close>

record zoneOps =
  zo_create :: "Endpoint list"
  zo_updateOld :: "Endpoint list"
  zo_updateNew :: "Endpoint list"
  zo_del :: "Endpoint list"

definition zoneOps_new :: zoneOps where
  "zoneOps_new = \<lparr>zo_create = [], zo_updateOld = [], zo_updateNew = [], zo_del = []\<rparr>"

text \<open>
  \<open>byZone\<close> is a Go map; it is kept as an association list with distinct keys so
  that ranging over it is executable.  \<open>bucket\<close> creates missing entries.
\<close>

type_synonym byZone = "(string \<times> zoneOps) list"

fun bucket :: "byZone \<Rightarrow> string \<Rightarrow> (zoneOps \<Rightarrow> zoneOps) \<Rightarrow> byZone" where
  "bucket [] k f = [(k, f zoneOps_new)]"
| "bucket ((k', v) # m) k f = (if k' = k then (k', f v) # m else (k', v) # bucket m k f)"

definition addCreate :: "Options \<Rightarrow> byZone \<Rightarrow> Endpoint option \<Rightarrow> byZone" where
  "addCreate opts m p =
     (case p of
        None \<Rightarrow> m
      | Some e \<Rightarrow>
          (if \<not> matchesDomainFilter opts (ep_DNSName e) then m
           else let z = zoneFor opts (ep_DNSName e)
                in if z = [] then m else bucket m z (\<lambda>v. v\<lparr>zo_create := zo_create v @ [e]\<rparr>)))"

definition addDelete :: "Options \<Rightarrow> byZone \<Rightarrow> Endpoint option \<Rightarrow> byZone" where
  "addDelete opts m p =
     (case p of
        None \<Rightarrow> m
      | Some e \<Rightarrow>
          (if \<not> matchesDomainFilter opts (ep_DNSName e) then m
           else let z = zoneFor opts (ep_DNSName e)
                in if z = [] then m else bucket m z (\<lambda>v. v\<lparr>zo_del := zo_del v @ [e]\<rparr>)))"

definition addUpdate :: "Options \<Rightarrow> byZone \<Rightarrow> Endpoint option \<times> Endpoint option \<Rightarrow> byZone" where
  "addUpdate opts m = (\<lambda>(oldP, newP).
     case (oldP, newP) of
       (Some oldE, Some newE) \<Rightarrow>
         (if \<not> matchesDomainFilter opts (ep_DNSName newE) then m
          else let z = zoneFor opts (ep_DNSName newE)
               in if z = [] then m
                  else bucket m z (\<lambda>v. v\<lparr>zo_updateOld := zo_updateOld v @ [oldE],
                                          zo_updateNew := zo_updateNew v @ [newE]\<rparr>))
     | _ \<Rightarrow> m)"

text \<open>Updates are paired up to the shorter of the two slices, which is what \<open>zip\<close> does.\<close>

definition groupByZone :: "Options \<Rightarrow> Changes \<Rightarrow> byZone" where
  "groupByZone opts ch =
     foldl (addUpdate opts)
       (foldl (addDelete opts) (foldl (addCreate opts) [] (ch_Create ch)) (ch_Delete ch))
       (zip (ch_UpdateOld ch) (ch_UpdateNew ch))"

definition or_first :: "string option \<Rightarrow> string \<Rightarrow> string option" where
  "or_first firstErr e = (case firstErr of None \<Rightarrow> Some e | Some _ \<Rightarrow> firstErr)"

fun apply_zones ::
  "Options \<Rightarrow> world \<Rightarrow> byZone \<Rightarrow> Orchestrator \<Rightarrow> string option \<Rightarrow> string list \<Rightarrow>
     unit go \<times> Orchestrator" where
  "apply_zones opts W m s firstErr [] = (case firstErr of None \<Rightarrow> Ok () | Some e \<Rightarrow> Err e, s)"
| "apply_zones opts W m s firstErr (zone # zones) =
     (case map_of m zone of
        None \<Rightarrow> apply_zones opts W m s firstErr zones
      | Some ops \<Rightarrow>
          (case buildZoneChangeSet opts (o_cache s) zone
                  (zo_create ops) (zo_updateOld ops) (zo_updateNew ops) (zo_del ops) of
             Panic \<Rightarrow> (Panic, s)
           | Err e \<Rightarrow> apply_zones opts W m s (or_first firstErr e) zones
           | Ok cs \<Rightarrow>
               (if cs_changes cs = [] then apply_zones opts W m s firstErr zones
                else if opt_DryRun opts then apply_zones opts W m s firstErr zones
                else case applyZone opts W s zone cs of
                       (Ok _, s1) \<Rightarrow> apply_zones opts W m s1 firstErr zones
                     | (Err e, s1) \<Rightarrow> apply_zones opts W m s1 (or_first firstErr e) zones
                     | (Panic, s1) \<Rightarrow> (Panic, s1))))"

definition ApplyChanges :: "Options \<Rightarrow> world \<Rightarrow> Orchestrator \<Rightarrow> Changes \<Rightarrow> unit go \<times> Orchestrator" where
  "ApplyChanges opts W s ch =
     (let m = groupByZone opts ch
      in apply_zones opts W m (tick s) None (w_range W (o_tick s) (map fst m)))"

definition Zones :: "Options \<Rightarrow> string list" where
  "Zones opts = opt_Zones opts"

section \<open>Transfers\<close>

lemma set_add_set [simp]: "set (set_add k ks) = insert k (set ks)"
  by (auto simp: set_add_def)

lemma set_add_distinct [simp]: "distinct ks \<Longrightarrow> distinct (set_add k ks)"
  by (simp add: set_add_def)

text \<open>
  A walk over the DCs for a transfer sends only AXFR requests, changes nothing
  else, and a success is an answer of the world to one of them.
\<close>

lemma axfr_loop_trace:
  assumes "axfr_loop opts W zone s tried le dcs = (r, s', tried')"
  shows "\<exists>ds rest. dcs = ds @ rest \<and> o_wire s' = o_wire s @ map (\<lambda>dc. AxfrCall dc zone) ds \<and>
      set tried' = set tried \<union> set ds \<and> (distinct tried \<longrightarrow> distinct tried') \<and>
      o_cache s' = o_cache s \<and> o_pins s' = o_pins s \<and> o_zlocks s' = o_zlocks s \<and>
      o_breaker s' = o_breaker s \<and> o_tick s \<le> o_tick s' \<and> r \<noteq> Panic \<and>
      (\<forall>recs dc. r = Ok (recs, dc) \<longrightarrow> ds \<noteq> [] \<and> last ds = dc \<and>
         (\<exists>n. o_tick s \<le> n \<and> rr_OK (w_AXFR W n dc (opt_Port opts) zone) \<and>
            recs = rr_Records (w_AXFR W n dc (opt_Port opts) zone)))"
  using assms
proof (induction dcs arbitrary: s tried le)
  case Nil
  then show ?case by auto
next
  case (Cons dc dcs)
  show ?case
  proof (cases "w_ctxErr W (o_tick s)")
    case (Some e)
    with Cons.prems show ?thesis by (intro exI [of _ "[]"] exI [of _ "dc # dcs"]) auto
  next
    case None
    define res where "res = w_AXFR W (Suc (o_tick s)) dc (opt_Port opts) zone"
    define s2 where "s2 = tick (send (AxfrCall dc zone) (tick s))"
    have s2: "o_wire s2 = o_wire s @ [AxfrCall dc zone]" "o_cache s2 = o_cache s" "o_pins s2 = o_pins s"
      "o_zlocks s2 = o_zlocks s" "o_breaker s2 = o_breaker s" "o_tick s2 = Suc (Suc (o_tick s))"
      by (simp_all add: s2_def)
    show ?thesis
    proof (cases "rr_OK res")
      case True
      with Cons.prems None have "r = Ok (rr_Records res, dc)" "s' = s2" "tried' = set_add dc tried"
        by (auto simp: res_def s2_def Let_def)
      with s2 True show ?thesis
        by (intro exI [of _ "[dc]"] exI [of _ dcs]) (auto simp: res_def intro!: exI [of _ "Suc (o_tick s)"])
    next
      case False
      with Cons.prems None have "axfr_loop opts W zone s2 (set_add dc tried) (Some (axfr_error dc res)) dcs
          = (r, s', tried')"
        by (simp add: res_def s2_def Let_def)
      from Cons.IH [OF this] obtain ds rest where
        ds: "dcs = ds @ rest" "o_wire s' = o_wire s2 @ map (\<lambda>dc. AxfrCall dc zone) ds"
          "set tried' = set (set_add dc tried) \<union> set ds"
          "distinct (set_add dc tried) \<longrightarrow> distinct tried'"
          "o_cache s' = o_cache s2" "o_pins s' = o_pins s2" "o_zlocks s' = o_zlocks s2"
          "o_breaker s' = o_breaker s2" "o_tick s2 \<le> o_tick s'" "r \<noteq> Panic"
          "\<forall>recs dc. r = Ok (recs, dc) \<longrightarrow> ds \<noteq> [] \<and> last ds = dc \<and>
             (\<exists>n. o_tick s2 \<le> n \<and> rr_OK (w_AXFR W n dc (opt_Port opts) zone) \<and>
                recs = rr_Records (w_AXFR W n dc (opt_Port opts) zone))"
        by blast
      have "\<forall>recs d. r = Ok (recs, d) \<longrightarrow> dc # ds \<noteq> [] \<and> last (dc # ds) = d \<and>
             (\<exists>n. o_tick s \<le> n \<and> rr_OK (w_AXFR W n d (opt_Port opts) zone) \<and>
                recs = rr_Records (w_AXFR W n d (opt_Port opts) zone))"
        using ds(11) s2(6) by (metis Suc_leD last.simps list.distinct(1))
      with ds s2 show ?thesis
        by (intro exI [of _ "dc # ds"] exI [of _ rest]) auto
    qed
  qed
qed

lemma axfrZone_trace:
  assumes "axfrZone opts W s zone available tried = (r, s', tried')"
  shows "\<exists>ds. set ds \<subseteq> set available \<and> o_wire s' = o_wire s @ map (\<lambda>dc. AxfrCall dc zone) ds \<and>
      set tried' = set tried \<union> set ds \<and> (distinct tried \<longrightarrow> distinct tried')"
    "o_cache s' = o_cache s" "o_pins s' = o_pins s" "o_zlocks s' = o_zlocks s"
    "o_breaker s' = o_breaker s" "o_tick s \<le> o_tick s'" "r \<noteq> Panic"
    "r = Ok (recs, dc) \<Longrightarrow> dc \<in> set tried' \<and> dc \<in> set available \<and>
       (\<exists>n. o_tick s \<le> n \<and> rr_OK (w_AXFR W n dc (opt_Port opts) zone) \<and>
          recs = rr_Records (w_AXFR W n dc (opt_Port opts) zone))"
proof -
  from axfr_loop_trace [OF assms [unfolded axfrZone_def]] obtain ds rest where
    ds: "dcOrderForZone (o_pins s) zone available = ds @ rest"
      "o_wire s' = o_wire s @ map (\<lambda>dc. AxfrCall dc zone) ds"
      "set tried' = set tried \<union> set ds" "distinct tried \<longrightarrow> distinct tried'"
    and eq: "o_cache s' = o_cache s" "o_pins s' = o_pins s" "o_zlocks s' = o_zlocks s"
      "o_breaker s' = o_breaker s" "o_tick s \<le> o_tick s'" "r \<noteq> Panic"
    and ok: "\<forall>recs dc. r = Ok (recs, dc) \<longrightarrow> ds \<noteq> [] \<and> last ds = dc \<and>
         (\<exists>n. o_tick s \<le> n \<and> rr_OK (w_AXFR W n dc (opt_Port opts) zone) \<and>
            recs = rr_Records (w_AXFR W n dc (opt_Port opts) zone))"
    by blast
  have sub: "set ds \<subseteq> set available"
    using ds(1) dcOrderForZone_set [of "o_pins s" zone available] by (metis Un_upper1 set_append)
  with ds show "\<exists>ds. set ds \<subseteq> set available \<and> o_wire s' = o_wire s @ map (\<lambda>dc. AxfrCall dc zone) ds \<and>
      set tried' = set tried \<union> set ds \<and> (distinct tried \<longrightarrow> distinct tried')"
    by blast
  show "o_cache s' = o_cache s" "o_pins s' = o_pins s" "o_zlocks s' = o_zlocks s"
    "o_breaker s' = o_breaker s" "o_tick s \<le> o_tick s'" "r \<noteq> Panic"
    by (rule eq)+
  assume "r = Ok (recs, dc)"
  with ok have "ds \<noteq> []" "last ds = dc" and n: "\<exists>n. o_tick s \<le> n \<and>
      rr_OK (w_AXFR W n dc (opt_Port opts) zone) \<and> recs = rr_Records (w_AXFR W n dc (opt_Port opts) zone)"
    by auto
  then have "dc \<in> set ds" by (metis last_in_set)
  with n sub ds(3) show "dc \<in> set tried' \<and> dc \<in> set available \<and>
       (\<exists>n. o_tick s \<le> n \<and> rr_OK (w_AXFR W n dc (opt_Port opts) zone) \<and>
          recs = rr_Records (w_AXFR W n dc (opt_Port opts) zone))"
    by blast
qed

section \<open>The zones of one cycle\<close>

text \<open>The endpoints a cache shows for a list of zones.\<close>

definition cache_view :: "Options \<Rightarrow> AXFRCache \<Rightarrow> string list \<Rightarrow> Endpoint option list" where
  "cache_view opts c zones =
     concat (map (\<lambda>z. case cache_Get c z of None \<Rightarrow> [] | Some recs \<Rightarrow> endpointsFromRecords opts recs z) zones)"

text \<open>Records that some DC answered for the zone from step \<open>n\<close> on.\<close>

definition transferred :: "Options \<Rightarrow> world \<Rightarrow> nat \<Rightarrow> string \<Rightarrow> Record list \<Rightarrow> bool" where
  "transferred opts W n zone recs \<longleftrightarrow>
     (\<exists>m dc. n \<le> m \<and> rr_OK (w_AXFR W m dc (opt_Port opts) zone) \<and>
        recs = rr_Records (w_AXFR W m dc (opt_Port opts) zone))"

lemma transferred_mono: "transferred opts W n z r \<Longrightarrow> m \<le> n \<Longrightarrow> transferred opts W m z r"
  unfolding transferred_def by (metis le_trans)

text \<open>One iteration of the zone loop, in two cases.\<close>

lemma list_zones_cases:
  assumes "list_zones opts W available s tried succeeded out (zone # zones) = R"
  obtains (transfer) recs dc s1 tried1
    where "axfrZone opts W s zone available tried = (Ok (recs, dc), s1, tried1)"
      "list_zones opts W available
         (s1\<lparr>o_pins := pins_Set (o_pins s1) zone dc, o_cache := cache_Put (o_cache s1) zone recs\<rparr>)
         tried1 (set_add dc succeeded) (out @ endpointsFromRecords opts recs zone) zones = R"
  | (failed) res s1 tried1
    where "axfrZone opts W s zone available tried = (res, s1, tried1)" "\<forall>p. res \<noteq> Ok p"
      "list_zones opts W available (s1\<lparr>o_cache := cache_Drop (o_cache s1) zone\<rparr>) tried1 succeeded out zones = R"
proof -
  obtain res s1 tried1 where ax: "axfrZone opts W s zone available tried = (res, s1, tried1)"
    using prod_cases3 by blast
  show thesis
  proof (cases res)
    case (Ok p)
    then obtain recs dc where "res = Ok (recs, dc)" by (cases p) simp
    then show thesis using ax assms by (intro transfer) auto
  qed (use ax assms in \<open>auto intro!: failed\<close>)
qed

lemma list_zones_cache_frame:
  "list_zones opts W available s tried succeeded out zones = (s', tried', succeeded', out') \<Longrightarrow>
     z \<notin> set zones \<Longrightarrow> cache_Get (o_cache s') z = cache_Get (o_cache s) z"
proof (induction zones arbitrary: s tried succeeded out)
  case (Cons zone zones)
  from Cons.prems(1) show ?case
  proof (cases rule: list_zones_cases)
    case (transfer recs dc s1 tried1)
    then show ?thesis
      using Cons.IH [OF transfer(2)] Cons.prems(2) axfrZone_trace(2) [OF transfer(1)]
      by (simp add: axfr_cache.get_put)
  next
    case (failed res s1 tried1)
    then show ?thesis
      using Cons.IH [OF failed(3)] Cons.prems(2) axfrZone_trace(2) [OF failed(1)]
      by (simp add: axfr_cache.get_drop)
  qed
qed simp

lemma list_zones_books:
  "list_zones opts W available s tried succeeded out zones = (s', tried', succeeded', out') \<Longrightarrow>
     set succeeded \<subseteq> set tried \<Longrightarrow>
     o_breaker s' = o_breaker s \<and> o_zlocks s' = o_zlocks s \<and> set succeeded' \<subseteq> set tried' \<and>
     set tried \<subseteq> set tried' \<and> set tried' \<subseteq> set tried \<union> set available \<and> (distinct tried \<longrightarrow> distinct tried')"
proof (induction zones arbitrary: s tried succeeded out)
  case (Cons zone zones)
  from Cons.prems(1) show ?case
  proof (cases rule: list_zones_cases)
    case (transfer recs dc s1 tried1)
    note fr = axfrZone_trace [OF transfer(1)]
    have "set (set_add dc succeeded) \<subseteq> set tried1"
      using fr(1) fr(8) [OF refl] Cons.prems(2) by auto
    then show ?thesis
      using Cons.IH [OF transfer(2)] fr(1,4,5) by auto
  next
    case (failed res s1 tried1)
    note fr = axfrZone_trace [OF failed(1)]
    have "set succeeded \<subseteq> set tried1"
      using fr(1) Cons.prems(2) by auto
    then show ?thesis
      using Cons.IH [OF failed(3)] fr(1,4,5) by auto
  qed
qed simp

lemma list_zones_pins:
  "list_zones opts W available s tried succeeded out zones = (s', tried', succeeded', out') \<Longrightarrow>
     pins_Get (o_pins s') z = Some dc \<Longrightarrow>
     pins_Get (o_pins s) z = Some dc \<or> dc \<in> set available \<and> z \<in> set zones"
proof (induction zones arbitrary: s tried succeeded out)
  case (Cons zone zones)
  from Cons.prems(1) show ?case
  proof (cases rule: list_zones_cases)
    case (transfer recs d s1 tried1)
    note fr = axfrZone_trace [OF transfer(1)]
    show ?thesis
      using Cons.IH [OF transfer(2) Cons.prems(2)] fr(3) fr(8) [OF refl]
      by (auto simp: zone_pins.get_put split: if_splits)
  next
    case (failed res s1 tried1)
    show ?thesis
      using Cons.IH [OF failed(3) Cons.prems(2)] axfrZone_trace(3) [OF failed(1)] by auto
  qed
qed simp

lemma list_zones_view:
  assumes "list_zones opts W available s tried succeeded out zones = (s', tried', succeeded', out')"
    "distinct zones"
  shows "out' = out @ cache_view opts (o_cache s') zones \<and>
    (\<forall>z \<in> set zones. \<forall>recs. cache_Get (o_cache s') z = Some recs \<longrightarrow> transferred opts W (o_tick s) z recs)"
  using assms
proof (induction zones arbitrary: s tried succeeded out)
  case Nil
  then show ?case by (simp add: cache_view_def)
next
  case (Cons zone zones)
  note keep = list_zones_cache_frame [where z = zone]
  from Cons.prems(1) show ?case
  proof (cases rule: list_zones_cases)
    case (transfer recs dc s1 tried1)
    note fr = axfrZone_trace [OF transfer(1)]
    have got: "cache_Get (o_cache s') zone = Some recs"
      using keep [OF transfer(2)] Cons.prems(2) by simp
    have t: "transferred opts W (o_tick s) zone recs"
      using fr(8) [OF refl] by (auto simp: transferred_def)
    show ?thesis
      using Cons.IH [OF transfer(2)] Cons.prems(2) got t fr(6)
      by (auto simp: cache_view_def dest: transferred_mono)
  next
    case (failed res s1 tried1)
    have gone: "cache_Get (o_cache s') zone = None"
      using keep [OF failed(3)] Cons.prems(2) by simp
    show ?thesis
      using Cons.IH [OF failed(3)] Cons.prems(2) gone axfrZone_trace(6) [OF failed(1)]
      by (auto simp: cache_view_def dest: transferred_mono)
  qed
qed

section \<open>Bookkeeping\<close>

lemma bookkeep_frame [frame]:
  "o_cache (bookkeep W ok s dcs) = o_cache s" "o_pins (bookkeep W ok s dcs) = o_pins s"
  "o_zlocks (bookkeep W ok s dcs) = o_zlocks s" "o_wire (bookkeep W ok s dcs) = o_wire s"
  by (induction dcs arbitrary: s) simp_all

lemma bookkeep_inv:
  "breaker_inv (o_breaker s) \<Longrightarrow> breaker_inv (o_breaker (bookkeep W ok s dcs))"
  by (induction dcs arbitrary: s) (simp_all add: breaker.success_inv breaker.failure_inv)

text \<open>With a clock that stands still, the loop is a series of reports to the breaker.\<close>

lemma bookkeep_reports:
  "(\<And>n. w_now W n = t) \<Longrightarrow>
     o_breaker (bookkeep W ok s dcs) =
       foldl (breaker.report (\<lambda>dc. dc \<in> set ok) t) (o_breaker s) dcs"
  by (induction dcs arbitrary: s) (simp_all add: breaker.report_def)

lemma availableDCs_tick: "availableDCs opts W s = (r, s') \<Longrightarrow> o_tick s \<le> o_tick s'"
proof -
  have "o_tick s \<le> o_tick (snd (availableDCs_aux W s out dcs))" for s out dcs
  proof (induction dcs arbitrary: s out)
    case (Cons dc dcs)
    obtain ok s1 where p: "probe W s dc = (ok, s1)" by fastforce
    then have "o_tick s1 = Suc (o_tick s)" by (auto simp: probe_def split: prod.splits)
    then show ?case
      using Cons.IH [of s1 "if ok then out @ [dc] else out"] p by simp
  qed simp
  then show "availableDCs opts W s = (r, s') \<Longrightarrow> o_tick s \<le> o_tick s'"
    by (metis availableDCs_def snd_conv)
qed

section \<open>Properties\<close>


definition quiet_world :: world where
  "quiet_world =
     \<lparr>w_now = (\<lambda>_. 0), w_ctxErr = (\<lambda>_. None),
      w_AXFR = (\<lambda>_ _ _ _. \<lparr>rr_OK = True, rr_Records = owned_zone, rr_Rcode = [], rr_Phase = [],
                         rr_Message = [], rr_Retryable = False\<rparr>),
      w_Update = (\<lambda>_ _ _ _ _ _. Some \<lparr>ar_OK = True, ar_Rcode = ''NOERROR'', ar_Phase = [], ar_Message = [],
                            ar_Retryable = False\<rparr>),
      w_range = (\<lambda>_ ks. ks)\<rparr>"

lemma quiet_listing:
  "fst (ListRecords two_zones quiet_world (New two_zones)) =
     Ok (endpointsFromRecords two_zones owned_zone ''example.com'' @
         endpointsFromRecords two_zones owned_zone ''dev.example.com'')"
  by (simp add: ListRecords_def availableDCs_def probe_def IsAvailable_def New_def NewDCBreaker_def two_zones_def
      axfrZone_def dcOrderForZone_def quiet_world_def Let_def zone_pins.get_new zone_pins.get_put tick_def send_def)


text \<open>
  The breaker's books after a listing do not depend on the order in which Go
  ranges over the map of tried DCs: any two orders of the same distinct DCs leave
  every DC's circuit in the same state (at one clock reading).
\<close>

theorem bookkeeping_order_irrelevant:
  assumes "breaker_inv (o_breaker s)" "distinct dcs" "mset dcs = mset dcs'" "\<And>n. w_now W n = t"
  shows "circuit_of (o_breaker (bookkeep W ok s dcs)) = circuit_of (o_breaker (bookkeep W ok s dcs'))"
proof -
  have d: "distinct dcs'" using mset_eq_distinct [OF assms(3)] assms(2) by simp
  show ?thesis
    by (rule ext) (simp only: bookkeep_reports [OF assms(4)] breaker.reports_circ [OF assms(1,2)]
        breaker.reports_circ [OF assms(1) d] mset_eq_in_set [OF assms(3)])
qed

theorem bookkeeping_order_irrelevant_witness:
  "circuit_of (o_breaker (bookkeep quiet_world [''dc1''] (New two_zones) [''dc1'', ''dc2''])) =
   circuit_of (o_breaker (bookkeep quiet_world [''dc1''] (New two_zones) [''dc2'', ''dc1'']))"
proof (rule bookkeeping_order_irrelevant)
  show "breaker_inv (o_breaker (New two_zones))" by (simp add: New_def NewDCBreaker_inv)
  show "distinct [''dc1'', ''dc2'']" by code_simp
  show "mset [''dc1'', ''dc2''] = mset [''dc2'', ''dc1'']" by (simp only: mset.simps add_mset_commute)
  show "w_now quiet_world n = 0" for n by (simp add: quiet_world_def)
qed

end
