(* ===== verification/Applying.thy ===== *)
theory Applying
  imports Orchestration
begin

text \<open>
  Facts about \<open>ApplyChanges\<close> (defined in \<open>Orchestration\<close>): how the payload is
  grouped, that the loop over zones is a plan followed by one \<open>applyZone\<close> per
  planned zone, what is sent, and the invariant of the orchestrator's state over
  any sequence of requests.
\<close>

section \<open>Grouping\<close>

text \<open>
  Every bucket belongs to a configured zone, holds only endpoints routed there
  and pairs its updates.
\<close>

definition routed :: "Options \<Rightarrow> string \<Rightarrow> Endpoint \<Rightarrow> bool" where
  "routed opts z e \<longleftrightarrow> matchesDomainFilter opts (ep_DNSName e) \<and> zoneFor opts (ep_DNSName e) = z"

definition entry_ok :: "Options \<Rightarrow> string \<Rightarrow> zoneOps \<Rightarrow> bool" where
  "entry_ok opts z v \<longleftrightarrow> z \<noteq> [] \<and> z \<in> set (opt_Zones opts) \<and>
     length (zo_updateOld v) = length (zo_updateNew v) \<and>
     list_all (routed opts z) (zo_create v @ zo_del v @ zo_updateNew v)"

definition byZone_ok :: "Options \<Rightarrow> byZone \<Rightarrow> bool" where
  "byZone_ok opts m \<longleftrightarrow> distinct (map fst m) \<and> (\<forall>(z, v) \<in> set m. entry_ok opts z v)"

lemma bucket_keys: "map fst (bucket m k f) = (if k \<in> fst ` set m then map fst m else map fst m @ [k])"
  by (induction m k f rule: bucket.induct) auto

lemma bucket_entries:
  "(z, v) \<in> set (bucket m k f) \<Longrightarrow>
     (z, v) \<in> set m \<or> z = k \<and> (\<exists>v0. v = f v0 \<and> (v0 = zoneOps_new \<or> (k, v0) \<in> set m))"
  by (induction m k f rule: bucket.induct) (auto split: if_splits)

lemma bucket_ok:
  assumes "byZone_ok opts m" "entry_ok opts k zoneOps_new" "\<And>v. entry_ok opts k v \<Longrightarrow> entry_ok opts k (f v)"
  shows "byZone_ok opts (bucket m k f)"
  unfolding byZone_ok_def
proof (intro conjI ballI)
  show "distinct (map fst (bucket m k f))"
    using assms(1) by (auto simp: bucket_keys byZone_ok_def)
  fix zv
  assume zv: "zv \<in> set (bucket m k f)"
  obtain z v where [simp]: "zv = (z, v)" by fastforce
  have "entry_ok opts z v"
    using bucket_entries [of z v m k f] zv assms by (auto simp: byZone_ok_def)
  then show "case zv of (z, v) \<Rightarrow> entry_ok opts z v" by simp
qed

lemma entry_ok_new: "zoneFor opts n \<noteq> [] \<Longrightarrow> entry_ok opts (zoneFor opts n) zoneOps_new"
  using zoneFor_in(1) by (auto simp: entry_ok_def zoneOps_new_def)

lemma add_ok:
  "byZone_ok opts m \<Longrightarrow> byZone_ok opts (addCreate opts m p)"
  "byZone_ok opts m \<Longrightarrow> byZone_ok opts (addDelete opts m p)"
  "byZone_ok opts m \<Longrightarrow> byZone_ok opts (addUpdate opts m q)"
proof -
  assume m: "byZone_ok opts m"
  show "byZone_ok opts (addCreate opts m p)"
    using m
    by (auto simp: addCreate_def Let_def entry_ok_new split: option.splits
        intro!: bucket_ok) (auto simp: entry_ok_def routed_def)
  show "byZone_ok opts (addDelete opts m p)"
    using m
    by (auto simp: addDelete_def Let_def entry_ok_new split: option.splits
        intro!: bucket_ok) (auto simp: entry_ok_def routed_def)
  show "byZone_ok opts (addUpdate opts m q)"
    using m
    by (auto simp: addUpdate_def Let_def entry_ok_new split: option.splits prod.splits
        intro!: bucket_ok) (auto simp: entry_ok_def routed_def)
qed

lemma foldl_ok: "(\<And>m x. P m \<Longrightarrow> P (f m x)) \<Longrightarrow> P m \<Longrightarrow> P (foldl f m xs)"
  by (induction xs arbitrary: m) auto

lemma groupByZone_ok: "byZone_ok opts (groupByZone opts ch)"
proof -
  note keep = foldl_ok [where P = "byZone_ok opts"]
  have empty: "byZone_ok opts []" by (simp add: byZone_ok_def)
  have c: "byZone_ok opts (foldl (addCreate opts) [] (ch_Create ch))"
    by (rule keep) (simp_all add: add_ok empty)
  have d: "byZone_ok opts
      (foldl (addDelete opts) (foldl (addCreate opts) [] (ch_Create ch)) (ch_Delete ch))"
    by (rule keep) (simp_all add: add_ok c)
  show ?thesis
    unfolding groupByZone_def by (rule keep) (simp_all add: add_ok d)
qed

text \<open>A zone's share of a request, read off the request itself.\<close>

definition share :: "byZone \<Rightarrow> string \<Rightarrow> zoneOps" where
  "share m z = (case map_of m z of None \<Rightarrow> zoneOps_new | Some v \<Rightarrow> v)"

definition pick :: "Options \<Rightarrow> string \<Rightarrow> Endpoint option \<Rightarrow> Endpoint option" where
  "pick opts z p = (case p of None \<Rightarrow> None | Some e \<Rightarrow> if routed opts z e then Some e else None)"

definition pick_pair :: "Options \<Rightarrow> string \<Rightarrow> Endpoint option \<times> Endpoint option \<Rightarrow> (Endpoint \<times> Endpoint) option" where
  "pick_pair opts z = (\<lambda>(oldP, newP).
     case (oldP, newP) of (Some oldE, Some newE) \<Rightarrow> if routed opts z newE then Some (oldE, newE) else None | _ \<Rightarrow> None)"

definition share_of :: "Options \<Rightarrow> Changes \<Rightarrow> string \<Rightarrow> zoneOps" where
  "share_of opts ch z =
     (let pairs = List.map_filter (pick_pair opts z) (zip (ch_UpdateOld ch) (ch_UpdateNew ch))
      in \<lparr>zo_create = List.map_filter (pick opts z) (ch_Create ch),
          zo_updateOld = map fst pairs, zo_updateNew = map snd pairs,
          zo_del = List.map_filter (pick opts z) (ch_Delete ch)\<rparr>)"

lemma map_of_bucket: "map_of (bucket m k f) z = (if z = k then Some (f (share m k)) else map_of m z)"
  by (induction m k f rule: bucket.induct) (auto simp: share_def)

lemma share_bucket: "share (bucket m k f) z = (if z = k then f (share m z) else share m z)"
  by (simp add: share_def map_of_bucket)

lemma map_filter_snoc:
  "List.map_filter f (xs @ [x]) = List.map_filter f xs @ (case f x of None \<Rightarrow> [] | Some y \<Rightarrow> [y])"
  by (simp add: List.map_filter_def split: option.splits)

lemma share_creates:
  "z \<noteq> [] \<Longrightarrow> share (foldl (addCreate opts) m ps) z =
     (share m z)\<lparr>zo_create := zo_create (share m z) @ List.map_filter (pick opts z) ps\<rparr>"
  by (induction ps rule: rev_induct)
    (auto simp: List.map_filter_simps map_filter_snoc addCreate_def pick_def routed_def share_bucket Let_def
      split: option.splits)

lemma share_deletes:
  "z \<noteq> [] \<Longrightarrow> share (foldl (addDelete opts) m ps) z =
     (share m z)\<lparr>zo_del := zo_del (share m z) @ List.map_filter (pick opts z) ps\<rparr>"
  by (induction ps rule: rev_induct)
    (auto simp: List.map_filter_simps map_filter_snoc addDelete_def pick_def routed_def share_bucket Let_def
      split: option.splits)

lemma share_updates:
  "z \<noteq> [] \<Longrightarrow> share (foldl (addUpdate opts) m qs) z =
     (share m z)\<lparr>zo_updateOld := zo_updateOld (share m z) @ map fst (List.map_filter (pick_pair opts z) qs),
                 zo_updateNew := zo_updateNew (share m z) @ map snd (List.map_filter (pick_pair opts z) qs)\<rparr>"
  by (induction qs rule: rev_induct)
    (auto simp: List.map_filter_simps map_filter_snoc addUpdate_def pick_pair_def routed_def share_bucket Let_def
      split: option.splits prod.splits)

lemma share_groupByZone: "z \<noteq> [] \<Longrightarrow> share (groupByZone opts ch) z = share_of opts ch z"
  by (simp add: groupByZone_def share_creates share_deletes share_updates share_of_def Let_def
      share_def [of "[]"] zoneOps_new_def)

lemma groupByZone_share:
  assumes "map_of (groupByZone opts ch) z = Some ops"
  shows "ops = share_of opts ch z \<and> entry_ok opts z ops"
proof -
  have "entry_ok opts z ops"
    using groupByZone_ok [of opts ch] assms by (auto simp: byZone_ok_def dest!: map_of_SomeD)
  moreover from this have "share (groupByZone opts ch) z = share_of opts ch z"
    by (intro share_groupByZone) (simp add: entry_ok_def)
  ultimately show ?thesis using assms by (simp add: share_def)
qed

lemma map_filter_Some: "y \<in> set (List.map_filter f xs) \<longleftrightarrow> (\<exists>x \<in> set xs. f x = Some y)"
  by (auto simp: List.map_filter_def) force

lemma pick_Some:
  "pick opts z p = Some e \<longleftrightarrow> p = Some e \<and> routed opts z e"
  "pick_pair opts z q = Some (oldE, newE) \<longleftrightarrow> q = (Some oldE, Some newE) \<and> routed opts z newE"
  by (auto simp: pick_def pick_pair_def split: option.splits prod.splits)

lemma share_of_members:
  "e \<in> set (zo_create (share_of opts ch z)) \<longleftrightarrow> Some e \<in> set (ch_Create ch) \<and> routed opts z e"
  "e \<in> set (zo_del (share_of opts ch z)) \<longleftrightarrow> Some e \<in> set (ch_Delete ch) \<and> routed opts z e"
  "(oldE, newE) \<in> set (zip (zo_updateOld (share_of opts ch z)) (zo_updateNew (share_of opts ch z))) \<longleftrightarrow>
     (Some oldE, Some newE) \<in> set (zip (ch_UpdateOld ch) (ch_UpdateNew ch)) \<and> routed opts z newE"
  by (auto simp: share_of_def Let_def map_filter_Some pick_Some zip_map_fst_snd)

section \<open>Plan and run\<close>

definition planned :: "Options \<Rightarrow> AXFRCache \<Rightarrow> byZone \<Rightarrow> string \<Rightarrow> (string \<times> zoneChangeSet) option" where
  "planned opts cache m zone =
     (case map_of m zone of
        None \<Rightarrow> None
      | Some ops \<Rightarrow>
          (case buildZoneChangeSet opts cache zone
                  (zo_create ops) (zo_updateOld ops) (zo_updateNew ops) (zo_del ops) of
             Ok cs \<Rightarrow> if cs_changes cs = [] \<or> opt_DryRun opts then None else Some (zone, cs)
           | _ \<Rightarrow> None))"

fun run_plan ::
  "Options \<Rightarrow> world \<Rightarrow> Orchestrator \<Rightarrow> (string \<times> zoneChangeSet) list \<Rightarrow> unit go list \<times> Orchestrator" where
  "run_plan opts W s [] = ([], s)"
| "run_plan opts W s ((zone, cs) # ps) =
     (case applyZone opts W s zone cs of
        (Panic, s1) \<Rightarrow> ([Panic], s1)
      | (r, s1) \<Rightarrow> (case run_plan opts W s1 ps of (rs, s2) \<Rightarrow> (r # rs, s2)))"

fun first_error :: "string option \<Rightarrow> unit go list \<Rightarrow> unit go" where
  "first_error fe [] = (case fe of None \<Rightarrow> Ok () | Some e \<Rightarrow> Err e)"
| "first_error fe (Err e # rs) = first_error (or_first fe e) rs"
| "first_error fe (Ok _ # rs) = first_error fe rs"
| "first_error fe (Panic # rs) = Panic"

lemma first_error_Some: "first_error (Some e) rs \<noteq> Ok ()"
proof (induction rs)
  case (Cons r rs)
  then show ?case by (cases r) (simp_all add: or_first_def)
qed simp

lemma first_error_or_first: "first_error (or_first fe e) rs \<noteq> Ok ()"
  by (cases fe) (simp_all add: or_first_def first_error_Some)

lemma first_error_Ok: "first_error None rs = Ok () \<longleftrightarrow> (\<forall>r \<in> set rs. r = Ok ())"
proof (induction rs)
  case (Cons r rs)
  then show ?case
    using first_error_or_first by (cases r) auto
qed simp

lemma first_error_Panic: "first_error fe rs = Panic \<longleftrightarrow> Panic \<in> set rs"
  by (induction fe rs rule: first_error.induct) (auto split: option.splits)

lemma applyZone_trace:
  assumes "applyZone opts W s zone cs = (r, s')"
  shows "\<exists>tried. o_wire s' = o_wire s @ map (\<lambda>dc. UpdateCall dc zone (cs_prereqs cs) (cs_changes cs)) tried \<and>
      set tried \<subseteq> set (opt_Hosts opts) \<and> (r = Ok () \<longrightarrow> tried \<noteq> [] \<and> pins_Get (o_pins s') zone = Some (last tried))"
    "o_cache s' = o_cache s" "r \<noteq> Ok () \<Longrightarrow> o_pins s' = o_pins s"
proof -
  obtain av s1 where av: "availableDCs opts W (s\<lparr>o_zlocks := snd (locks_For (o_zlocks s) zone)\<rparr>) = (av, s1)"
    by fastforce
  note fr = availableDCs_frame [OF av] and sub = availableDCs_sub [OF av]
  have "(\<exists>tried. o_wire s' = o_wire s @ map (\<lambda>dc. UpdateCall dc zone (cs_prereqs cs) (cs_changes cs)) tried \<and>
      set tried \<subseteq> set (opt_Hosts opts) \<and> (r = Ok () \<longrightarrow> tried \<noteq> [] \<and> pins_Get (o_pins s') zone = Some (last tried))) \<and>
      o_cache s' = o_cache s \<and> (r \<noteq> Ok () \<longrightarrow> o_pins s' = o_pins s)"
  proof (cases "av = []")
    case True
    with assms av fr show ?thesis by (auto simp: applyZone_def)
  next
    case False
    let ?order = "dcOrderForZone (o_pins s1) zone av"
    have run: "update_loop_dcs opts W zone cs (length ?order) s1 [] ?order = (r, s')"
      using assms av False by (simp add: applyZone_def Let_def)
    from update_loop_trace [OF run] obtain tried rest where
      t: "o_wire s' = o_wire s1 @ map (\<lambda>dc. UpdateCall dc zone (cs_prereqs cs) (cs_changes cs)) tried"
        "?order = tried @ rest" "o_cache s' = o_cache s1"
        "r = Ok () \<longrightarrow> tried \<noteq> [] \<and> pins_Get (o_pins s') zone = Some (last tried)"
        "r \<noteq> Ok () \<longrightarrow> o_pins s' = o_pins s1"
      by blast
    have "set tried \<subseteq> set (opt_Hosts opts)"
      using t(2) dcOrderForZone_set [of "o_pins s1" zone av] sub
      by (metis le_sup_iff order_trans set_append set_eq_subset)
    with t fr show ?thesis by auto
  qed
  then show "\<exists>tried. o_wire s' = o_wire s @ map (\<lambda>dc. UpdateCall dc zone (cs_prereqs cs) (cs_changes cs)) tried \<and>
      set tried \<subseteq> set (opt_Hosts opts) \<and> (r = Ok () \<longrightarrow> tried \<noteq> [] \<and> pins_Get (o_pins s') zone = Some (last tried))"
    "o_cache s' = o_cache s" "r \<noteq> Ok () \<Longrightarrow> o_pins s' = o_pins s"
    by blast+
qed

lemma applyZone_answers:
  assumes "applyZone opts W s zone cs = (r, s')"
  shows "\<exists>calls. o_wire s' = o_wire s @ map (\<lambda>(dc, a). UpdateCall dc zone (cs_prereqs cs) (cs_changes cs)) calls \<and>
    fst ` set calls \<subseteq> set (opt_Hosts opts) \<and>
    (\<forall>(dc, a) \<in> set calls. \<exists>t. a = w_Update W t dc (opt_Port opts) zone (cs_prereqs cs) (cs_changes cs)) \<and>
    walk_verdict calls r"
proof -
  obtain av s1 where av: "availableDCs opts W (s\<lparr>o_zlocks := snd (locks_For (o_zlocks s) zone)\<rparr>) = (av, s1)"
    by fastforce
  note fr = availableDCs_frame [OF av] and sub = availableDCs_sub [OF av]
  show ?thesis
  proof (cases "av = []")
    case True
    with assms av fr show ?thesis by (intro exI [of _ "[]"]) (auto simp: applyZone_def walk_verdict_one)
  next
    case False
    let ?order = "dcOrderForZone (o_pins s1) zone av"
    have "update_loop_dcs opts W zone cs (length ?order) s1 [] ?order = (r, s')"
      using assms av False by (simp add: applyZone_def Let_def)
    from update_loop_answers [OF this] obtain calls rest where c:
      "o_wire s' = o_wire s1 @ map (\<lambda>(dc, a). UpdateCall dc zone (cs_prereqs cs) (cs_changes cs)) calls"
      "?order = map fst calls @ rest" "walk_verdict calls r"
      "\<forall>(dc, a) \<in> set calls. \<exists>t \<ge> o_tick s1. a = w_Update W t dc (opt_Port opts) zone (cs_prereqs cs) (cs_changes cs)"
      by blast
    have "set (map fst calls) \<subseteq> set ?order" unfolding c(2) by simp
    then have "fst ` set calls \<subseteq> set (opt_Hosts opts)" using sub by (auto simp: dcOrderForZone_set)
    with c fr show ?thesis by (intro exI [of _ calls]) fastforce
  qed
qed

lemma applyZone_not_Panic: "applyZone opts W s zone cs = (r, s') \<Longrightarrow> never_panics opts W zone cs \<Longrightarrow> r \<noteq> Panic"
  by (auto simp: applyZone_def Let_def split: prod.splits if_splits dest: update_loop_not_Panic)

lemma run_plan_not_Panic:
  "run_plan opts W s ps = (rs, s') \<Longrightarrow> (\<And>zone cs. (zone, cs) \<in> set ps \<Longrightarrow> never_panics opts W zone cs) \<Longrightarrow>
     Panic \<notin> set rs"
proof (induction ps arbitrary: s rs)
  case (Cons p ps)
  obtain zone cs where [simp]: "p = (zone, cs)" by fastforce
  obtain r s1 where az: "applyZone opts W s zone cs = (r, s1)" by fastforce
  moreover have "r \<noteq> Panic" using applyZone_not_Panic [OF az] Cons.prems(2) by simp
  ultimately show ?case using Cons by (cases r) (auto split: prod.splits)
qed simp

lemma apply_zones_plan:
  assumes "byZone_ok opts m"
  shows "apply_zones opts W m s fe zones =
    (case run_plan opts W s (List.map_filter (planned opts (o_cache s) m) zones) of
       (rs, s') \<Rightarrow> (first_error fe rs, s'))"
proof (induction zones arbitrary: s fe)
  case (Cons zone zones)
  show ?case
  proof (cases "map_of m zone")
    case None
    then show ?thesis using Cons by (simp add: planned_def List.map_filter_simps)
  next
    case (Some ops)
    then have "entry_ok opts zone ops"
      using assms(1) by (auto simp: byZone_ok_def dest: map_of_SomeD)
    then obtain cs where cs: "buildZoneChangeSet opts (o_cache s) zone
        (zo_create ops) (zo_updateOld ops) (zo_updateNew ops) (zo_del ops) = Ok cs"
      by (auto simp: entry_ok_def buildZoneChangeSet_eq)
    show ?thesis
    proof (cases "cs_changes cs = [] \<or> opt_DryRun opts")
      case True
      then show ?thesis
        using Cons Some cs by (auto simp: planned_def List.map_filter_simps)
    next
      case False
      obtain r s1 where az: "applyZone opts W s zone cs = (r, s1)" by fastforce
      have p: "planned opts (o_cache s) m zone = Some (zone, cs)"
        using Some cs False by (simp add: planned_def)
      have s1: "o_cache s1 = o_cache s" using applyZone_trace(2) [OF az] by auto
      show ?thesis
        using Some cs False az s1 p Cons.IH
        by (cases r) (auto simp: List.map_filter_simps split: prod.splits)
    qed
  qed
qed (simp add: List.map_filter_simps)

definition change_plan :: "Options \<Rightarrow> AXFRCache \<Rightarrow> Changes \<Rightarrow> string list \<Rightarrow> (string \<times> zoneChangeSet) list" where
  "change_plan opts cache ch zones = List.map_filter (planned opts cache (groupByZone opts ch)) zones"

lemma run_plan_wire:
  assumes "run_plan opts W s ps = (rs, s')"
  shows "\<exists>msgs. o_wire s' = o_wire s @ msgs \<and>
    (\<forall>w \<in> set msgs. \<exists>(zone, cs) \<in> set ps. \<exists>dc \<in> set (opt_Hosts opts).
       w = UpdateCall dc zone (cs_prereqs cs) (cs_changes cs))"
  using assms
proof (induction ps arbitrary: s rs)
  case (Cons p ps)
  obtain zone cs where [simp]: "p = (zone, cs)" by fastforce
  obtain r s1 where az: "applyZone opts W s zone cs = (r, s1)" by fastforce
  from applyZone_trace(1) [OF az] obtain tried where
    t: "o_wire s1 = o_wire s @ map (\<lambda>dc. UpdateCall dc zone (cs_prereqs cs) (cs_changes cs)) tried"
      "set tried \<subseteq> set (opt_Hosts opts)" by blast
  have "\<exists>msgs. o_wire s' = o_wire s1 @ msgs \<and>
    (\<forall>w \<in> set msgs. \<exists>(zone, cs) \<in> set ps. \<exists>dc \<in> set (opt_Hosts opts).
       w = UpdateCall dc zone (cs_prereqs cs) (cs_changes cs))"
    using Cons.prems az Cons.IH [of s1] by (cases r) (auto split: prod.splits)
  then obtain msgs where
    m: "o_wire s' = o_wire s1 @ msgs" "\<forall>w \<in> set msgs. \<exists>(zone, cs) \<in> set ps. \<exists>dc \<in> set (opt_Hosts opts).
       w = UpdateCall dc zone (cs_prereqs cs) (cs_changes cs)" by blast
  show ?case
    using t m by (intro exI [of _ "map (\<lambda>dc. UpdateCall dc zone (cs_prereqs cs) (cs_changes cs)) tried @ msgs"]) auto
qed simp

lemma planned_Some:
  assumes "planned opts cache (groupByZone opts ch) zone = Some (z, cs)"
  obtains ops where "z = zone" "entry_ok opts z ops" "cs_changes cs \<noteq> []" "\<not> opt_DryRun opts"
    "buildZoneChangeSet opts cache z (zo_create ops) (zo_updateOld ops) (zo_updateNew ops) (zo_del ops) = Ok cs"
proof -
  from assms obtain ops where ops: "map_of (groupByZone opts ch) zone = Some ops"
    and b: "buildZoneChangeSet opts cache zone (zo_create ops) (zo_updateOld ops) (zo_updateNew ops) (zo_del ops) = Ok cs"
    "cs_changes cs \<noteq> []" "\<not> opt_DryRun opts" "z = zone"
    by (auto simp: planned_def split: option.splits go.splits if_splits)
  then have "entry_ok opts zone ops"
    using groupByZone_ok [of opts ch] by (auto simp: byZone_ok_def dest!: map_of_SomeD)
  with b show thesis using that by blast
qed

section \<open>The state over a run of requests\<close>

text \<open>
  The requests a running sidecar serves, each against a world of its own.  The
  handler layer serialises nothing beyond the locks of the orchestrator, so a
  run is a sequence of complete requests.
\<close>

inductive reachable :: "Options \<Rightarrow> Orchestrator \<Rightarrow> bool" for opts where
  reach_boot: "reachable opts (New opts)"
| reach_list: "reachable opts s \<Longrightarrow> reachable opts (snd (ListRecords opts W s))"
| reach_apply: "reachable opts s \<Longrightarrow> reachable opts (snd (ApplyChanges opts W s ch))"

definition orch_inv :: "Options \<Rightarrow> Orchestrator \<Rightarrow> bool" where
  "orch_inv opts s \<longleftrightarrow> breaker_inv (o_breaker s) \<and> locks_ok (o_zlocks s) \<and>
     (\<forall>z dc. pins_Get (o_pins s) z = Some dc \<longrightarrow> dc \<in> set (opt_Hosts opts)) \<and>
     (\<forall>z. cache_Get (o_cache s) z \<noteq> None \<longrightarrow> z \<in> set (opt_Zones opts))"

lemma orch_inv_New: "orch_inv opts (New opts)"
  by (simp add: orch_inv_def New_def NewDCBreaker_inv locks_ok_new axfr_cache.get_new zone_pins.get_new)

lemma orch_inv_available:
  assumes "orch_inv opts s" "availableDCs opts W s = (r, s')"
  shows "orch_inv opts s'"
  using assms availableDCs_frame [OF assms(2)] availableDCs_aux_inv [OF assms(2) [unfolded availableDCs_def]]
  by (simp add: orch_inv_def)

lemma orch_inv_tick: "orch_inv opts s \<Longrightarrow> orch_inv opts (tick s)"
  by (simp add: orch_inv_def)

lemma orch_inv_ListRecords:
  assumes "orch_inv opts s"
  shows "orch_inv opts (snd (ListRecords opts W s))"
proof -
  obtain av s1 where av: "availableDCs opts W s = (av, s1)" by fastforce
  note i1 = orch_inv_available [OF assms av] and sub = availableDCs_sub [OF av]
  obtain s2 tried suc out where lz: "list_zones opts W av s1 [] [] [] (opt_Zones opts) = (s2, tried, suc, out)"
    using prod_cases4 by blast
  note books = list_zones_books [OF lz] and pins = list_zones_pins [OF lz]
    and cache = list_zones_cache_frame [OF lz]
  have "orch_inv opts (tick s2)"
    unfolding orch_inv_def
  proof (intro conjI allI impI)
    show "breaker_inv (o_breaker (tick s2))" "locks_ok (o_zlocks (tick s2))"
      using i1 books by (auto simp: orch_inv_def)
    show "dc \<in> set (opt_Hosts opts)" if "pins_Get (o_pins (tick s2)) z = Some dc" for z dc
      using that pins [of z dc] i1 sub by (auto simp: orch_inv_def)
    show "z \<in> set (opt_Zones opts)" if "cache_Get (o_cache (tick s2)) z \<noteq> None" for z
    proof (rule ccontr)
      assume z: "z \<notin> set (opt_Zones opts)"
      with that cache [OF z] have "cache_Get (o_cache s1) z \<noteq> None" by simp
      with z i1 show False by (auto simp: orch_inv_def)
    qed
  qed
  then have "orch_inv opts (bookkeep W suc (tick s2) dcs)" for dcs
    using bookkeep_inv [of "tick s2" W suc dcs] by (simp add: orch_inv_def frame)
  with assms i1 av lz show ?thesis by (simp add: ListRecords_def)
qed

lemma orch_inv_update_loop:
  assumes "update_loop_dcs opts W zone cs n s lf dcs = (r, s')" "orch_inv opts s" "set dcs \<subseteq> set (opt_Hosts opts)"
  shows "orch_inv opts s'"
  using assms
proof (induction dcs arbitrary: s lf)
  case (Cons dc dcs)
  define s2 where "s2 = tick (send (UpdateCall dc zone (cs_prereqs cs) (cs_changes cs)) (tick s))"
  have s2: "orch_inv opts s2" using Cons.prems(2) by (simp add: s2_def orch_inv_def)
  define s3 where "s3 = tick (s2\<lparr>o_breaker := snd (RecordFailure (o_breaker s2) (w_now W (o_tick s2)) dc)\<rparr>)"
  have s3: "orch_inv opts s3" using s2 by (simp add: s3_def orch_inv_def breaker.failure_inv)
  have ok: "orch_inv opts (s2\<lparr>o_pins := pins_Set (o_pins s2) zone dc, o_breaker := RecordSuccess (o_breaker s2) dc\<rparr>)"
    using s2 Cons.prems(3) by (auto simp: orch_inv_def breaker.success_inv zone_pins.get_put split: if_splits)
  from Cons.prems(1) consider "s' = tick s"
    | "s' = s2\<lparr>o_pins := pins_Set (o_pins s2) zone dc, o_breaker := RecordSuccess (o_breaker s2) dc\<rparr>"
    | "s' = s2" | lf' where "update_loop_dcs opts W zone cs n s3 lf' dcs = (r, s')"
    unfolding s3_def s2_def by (auto simp: Let_def split: option.splits if_splits)
  then show ?case
    using Cons.prems(2,3) Cons.IH s2 s3 ok by cases (auto intro: orch_inv_tick)
qed simp

lemma orch_inv_applyZone:
  assumes "applyZone opts W s zone cs = (r, s')" "orch_inv opts s"
  shows "orch_inv opts s'"
proof -
  let ?s0 = "s\<lparr>o_zlocks := snd (locks_For (o_zlocks s) zone)\<rparr>"
  obtain av s1 where av: "availableDCs opts W ?s0 = (av, s1)" by fastforce
  have "orch_inv opts ?s0" using assms(2) by (simp add: orch_inv_def locks_For_ok)
  then have i1: "orch_inv opts s1" using orch_inv_available av by blast
  have "set (dcOrderForZone (o_pins s1) zone av) \<subseteq> set (opt_Hosts opts)"
    using availableDCs_sub [OF av] by (simp add: dcOrderForZone_set)
  with assms av i1 show ?thesis
    by (auto simp: applyZone_def Let_def split: if_splits dest: orch_inv_update_loop)
qed

lemma orch_inv_run_plan:
  "run_plan opts W s ps = (rs, s') \<Longrightarrow> orch_inv opts s \<Longrightarrow> orch_inv opts s'"
  by (induction opts W s ps arbitrary: rs rule: run_plan.induct)
    (auto split: prod.splits go.splits dest: orch_inv_applyZone)

lemma ApplyChanges_plan:
  "ApplyChanges opts W s ch =
    (case run_plan opts W (tick s)
            (change_plan opts (o_cache s) ch (w_range W (o_tick s) (map fst (groupByZone opts ch)))) of
       (rs, s') \<Rightarrow> (first_error None rs, s'))"
  using apply_zones_plan [OF groupByZone_ok, of opts W ch "tick s" None]
  by (simp add: ApplyChanges_def change_plan_def Let_def)

lemma orch_inv_ApplyChanges:
  assumes "orch_inv opts s"
  shows "orch_inv opts (snd (ApplyChanges opts W s ch))"
  using orch_inv_run_plan orch_inv_tick [OF assms]
  by (auto simp: ApplyChanges_plan split: prod.splits)

lemma reachable_inv: "reachable opts s \<Longrightarrow> orch_inv opts s"
  by (induction rule: reachable.induct)
    (auto intro: orch_inv_New orch_inv_ListRecords orch_inv_ApplyChanges)

text \<open>
  A change set built for a configured zone from operations whose endpoints belong
  to it: \<open>ops\<close> is the zone's share of the request.
\<close>

definition built_for :: "Options \<Rightarrow> AXFRCache \<Rightarrow> string \<Rightarrow> zoneChangeSet \<Rightarrow> bool" where
  "built_for opts cache zone cs \<longleftrightarrow> zone \<in> set (opt_Zones opts) \<and> wf_cs cs \<and>
     (\<exists>ops :: zoneOps. buildZoneChangeSet opts cache zone (zo_create ops) (zo_updateOld ops) (zo_updateNew ops) (zo_del ops) = Ok cs \<and>
        (\<forall>e \<in> set (zo_create ops @ zo_del ops @ zo_updateNew ops).
           matchesDomainFilter opts (ep_DNSName e) \<and> under (normalizeName (ep_DNSName e)) zone))"

lemma routed_under:
  "routed opts zone e \<Longrightarrow> zone \<noteq> [] \<Longrightarrow>
     matchesDomainFilter opts (ep_DNSName e) \<and> under (normalizeName (ep_DNSName e)) zone"
  using zoneFor_in(2) by (auto simp: routed_def)

lemma planned_built:
  assumes "planned opts cache (groupByZone opts ch) z = Some (zone, cs)"
  shows "built_for opts cache zone cs \<and> \<not> opt_DryRun opts"
proof (rule planned_Some [OF assms])
  fix ops
  assume o: "entry_ok opts zone ops" "\<not> opt_DryRun opts"
    "buildZoneChangeSet opts cache zone (zo_create ops) (zo_updateOld ops) (zo_updateNew ops) (zo_del ops) = Ok cs"
  then have z: "zone \<in> set (opt_Zones opts)" "zone \<noteq> []"
    and l: "length (zo_updateOld ops) = length (zo_updateNew ops)"
    and r: "\<forall>e \<in> set (zo_create ops @ zo_del ops @ zo_updateNew ops). routed opts zone e"
    unfolding entry_ok_def list_all_iff by blast+
  have "wf_cs cs" using o(3) l by (rule buildZoneChangeSet_wf)
  moreover have "\<forall>e \<in> set (zo_create ops @ zo_del ops @ zo_updateNew ops).
      matchesDomainFilter opts (ep_DNSName e) \<and> under (normalizeName (ep_DNSName e)) zone"
    using r z(2) routed_under by blast
  ultimately show ?thesis using o(2,3) z(1) unfolding built_for_def by blast
qed

lemma change_plan_built:
  assumes "(zone, cs) \<in> set (change_plan opts cache ch zones)"
  shows "built_for opts cache zone cs \<and> \<not> opt_DryRun opts"
proof -
  have "\<exists>z. planned opts cache (groupByZone opts ch) z = Some (zone, cs)"
    using assms unfolding change_plan_def
    by (induction zones) (auto simp: List.map_filter_simps split: option.splits)
  then show ?thesis using planned_built by blast
qed

section \<open>Properties\<close>


definition x_changes :: Changes where
  "x_changes = \<lparr>ch_Create = [Some (prod_endpoint ''x.example.com'' ''1.1.1.1'')], ch_UpdateOld = [],
               ch_UpdateNew = [], ch_Delete = []\<rparr>"


text \<open>
  Everything sent while changes are applied is an UPDATE to a configured DC,
  with a well-formed change set built from the cache as it was for one configured
  zone, out of endpoints that match the domain filter and lie in that zone; in
  dry-run mode nothing is sent.
\<close>

theorem apply_changes_sends_planned:
  assumes "ApplyChanges opts W s ch = (r, s')"
  shows "\<exists>msgs. o_wire s' = o_wire s @ msgs \<and>
    (\<forall>m \<in> set msgs. \<exists>dc zone cs.
       m = UpdateCall dc zone (cs_prereqs cs) (cs_changes cs) \<and> dc \<in> set (opt_Hosts opts) \<and>
       built_for opts (o_cache s) zone cs \<and> \<not> opt_DryRun opts)"
proof -
  let ?ps = "change_plan opts (o_cache s) ch (w_range W (o_tick s) (map fst (groupByZone opts ch)))"
  obtain rs where rp: "run_plan opts W (tick s) ?ps = (rs, s')"
    using assms by (auto simp: ApplyChanges_plan split: prod.splits)
  from run_plan_wire [OF rp] obtain msgs where m: "o_wire s' = o_wire s @ msgs"
    "\<forall>w \<in> set msgs. \<exists>(zone, cs) \<in> set ?ps. \<exists>dc \<in> set (opt_Hosts opts).
       w = UpdateCall dc zone (cs_prereqs cs) (cs_changes cs)"
    by auto
  then show ?thesis using change_plan_built by blast
qed

theorem apply_changes_sends_planned_witness:
  "\<exists>msgs. o_wire (snd (ApplyChanges two_zones quiet_world (New two_zones) x_changes)) = [] @ msgs"
  using apply_changes_sends_planned [OF surjective_pairing, of two_zones quiet_world "New two_zones" x_changes]
  by (simp add: New_def) 

text \<open>
  In dry-run mode applying changes sends nothing, succeeds, and leaves cache,
  pins, locks and breaker alone.
\<close>

theorem dry_run_sends_nothing:
  assumes "opt_DryRun opts"
  shows "ApplyChanges opts W s ch = (Ok (), tick s)"
proof -
  have "change_plan opts (o_cache s) ch zones = []" for zones
    using assms
    by (induction zones)
      (auto simp: change_plan_def planned_def List.map_filter_simps split: option.splits go.splits)
  then show ?thesis by (simp add: ApplyChanges_plan)
qed

theorem dry_run_sends_nothing_witness:
  "ApplyChanges (two_zones\<lparr>opt_DryRun := True\<rparr>) quiet_world (New (two_zones\<lparr>opt_DryRun := True\<rparr>)) x_changes =
     (Ok (), tick (New (two_zones\<lparr>opt_DryRun := True\<rparr>)))"
  by (rule dry_run_sends_nothing) simp

text \<open>
  Applying one zone's change set contacts configured DCs in turn with the same
  message, keeps the cache, and, when it succeeds, ends with the DC that accepted,
  which becomes the zone's pin; when it fails the pins are as before.
\<close>

theorem apply_zone_walk:
  assumes "applyZone opts W s zone cs = (r, s')"
  shows "\<exists>tried. o_wire s' = o_wire s @ map (\<lambda>dc. UpdateCall dc zone (cs_prereqs cs) (cs_changes cs)) tried \<and>
    set tried \<subseteq> set (opt_Hosts opts) \<and> o_cache s' = o_cache s \<and>
    (if r = Ok () then tried \<noteq> [] \<and> pins_Get (o_pins s') zone = Some (last tried) else o_pins s' = o_pins s)"
  using applyZone_trace [OF assms] by auto

theorem apply_zone_walk_witness:
  "\<exists>tried. o_wire (snd (applyZone two_zones quiet_world (New two_zones) ''example.com'' x_create)) =
      o_wire (New two_zones) @
        map (\<lambda>dc. UpdateCall dc ''example.com'' (cs_prereqs x_create) (cs_changes x_create)) tried \<and>
    set tried \<subseteq> set (opt_Hosts two_zones)"
  using apply_zone_walk [OF surjective_pairing, of two_zones quiet_world "New two_zones" "''example.com''" x_create]
  by blast

text \<open>
  In every reachable state of the orchestrator the breaker is consistent,
  mutexes are not shared between zones, every pin is a configured DC and only
  configured zones are cached.
\<close>

theorem reachable_states_consistent:
  assumes "reachable opts s"
  shows "breaker_inv (o_breaker s) \<and> locks_ok (o_zlocks s) \<and>
    (\<forall>z dc. pins_Get (o_pins s) z = Some dc \<longrightarrow> dc \<in> set (opt_Hosts opts)) \<and>
    (\<forall>z. cache_Get (o_cache s) z \<noteq> None \<longrightarrow> z \<in> set (opt_Zones opts))"
  using reachable_inv [OF assms] by (simp add: orch_inv_def)

theorem reachable_states_consistent_witness:
  "breaker_inv (o_breaker (snd (ListRecords two_zones quiet_world (New two_zones)))) \<and>
   locks_ok (o_zlocks (snd (ListRecords two_zones quiet_world (New two_zones))))"
  using reachable_states_consistent [OF reach_list [OF reach_boot], of two_zones quiet_world] by blast

text \<open>
  C20. The walk over the DCs is exact: applying a zone's change set calls configured
  DCs one after the other with the same message; every answer but the last is a
  failure worth another try (retryable, or SERVFAIL, REFUSED, NOTAUTH), so a success
  or any other verdict of a server ends the walk; and the last answer decides the
  result: success, an error naming the DC and the rcode, a panic of the client, or,
  if even the last call was worth another try or none was made, an error.
\<close>

theorem zone_walk_exact:
  assumes "applyZone opts W s zone cs = (r, s')"
  shows "\<exists>calls. o_wire s' = o_wire s @ map (\<lambda>(dc, a). UpdateCall dc zone (cs_prereqs cs) (cs_changes cs)) calls \<and>
    fst ` set calls \<subseteq> set (opt_Hosts opts) \<and>
    (\<forall>(dc, a) \<in> set calls. \<exists>t. a = w_Update W t dc (opt_Port opts) zone (cs_prereqs cs) (cs_changes cs)) \<and>
    (\<forall>c \<in> set (butlast calls). failed_over (snd c)) \<and>
    (if calls = [] \<or> failed_over (snd (last calls)) then \<exists>e. r = Err e
     else case last calls of
            (dc, None) \<Rightarrow> r = Panic
          | (dc, Some res) \<Rightarrow>
              r = (if ar_OK res then Ok () else Err (''UPDATE failed (non-retryable): '' @ update_failure dc res)))"
  using applyZone_answers [OF assms] unfolding walk_verdict_def by blast

theorem zone_walk_exact_witness:
  "\<exists>calls. o_wire (snd (applyZone two_zones quiet_world (New two_zones) ''example.com'' x_create)) =
      o_wire (New two_zones) @
        map (\<lambda>(dc, a). UpdateCall dc ''example.com'' (cs_prereqs x_create) (cs_changes x_create)) calls \<and>
    (\<forall>c \<in> set (butlast calls). failed_over (snd c))"
  using zone_walk_exact [OF surjective_pairing, of two_zones quiet_world "New two_zones" "''example.com''" x_create]
  by blast

end
