(* ===== verification/Goroutines.thy ===== *)
theory Goroutines
  imports Applying
begin

text \<open>
  Concurrent requests.  \<open>net/http\<close> serves every request in a goroutine of its own,
  and all of them share one \<open>Orchestrator\<close>.  Here \<open>ListRecords\<close> and \<open>ApplyChanges\<close> are
  written again, as programs whose steps are the accesses to shared state: each
  method of \<open>internal/state\<close> (whose body runs under the struct's own mutex), each
  message to a server, each poll of the request's context, each lock and unlock of
  \<open>axfrMu\<close> and of a zone's mutex.  A panic of the client unwinds the handler: the
  deferred unlocks run, and the request ends with \<open>Panic\<close>.  Run alone, a program does
  what the function of \<open>Orchestration\<close> does; run with others, its steps interleave
  with theirs.
\<close>

section \<open>Programs\<close>

datatype mutex = AxfrMu | ZoneMu nat

text \<open>State changes whose result the program does not use.\<close>

datatype action =
    PinSet string string
  | CachePut string "Record list"
  | CacheDrop string
  | Success string
  | Failure string

datatype 'a prog =
    Done 'a
  | Act action "'a prog"
  | Probe string "bool \<Rightarrow> 'a prog"
  | CtxErr "string option \<Rightarrow> 'a prog"
  | PinGet string "string option \<Rightarrow> 'a prog"
  | CacheGet string "Record list option \<Rightarrow> 'a prog"
  | Axfr string string "RecordsResult \<Rightarrow> 'a prog"
  | Update string string "Prereq list" "Change list" "ApplyResult option \<Rightarrow> 'a prog"
  | Range "string list" "string list \<Rightarrow> 'a prog"
  | LockFor string "nat \<Rightarrow> 'a prog"
  | Lock mutex "'a prog"
  | Unlock mutex "'a prog"

section \<open>The two entry points\<close>

fun available_prog :: "string list \<Rightarrow> string list \<Rightarrow> (string list \<Rightarrow> 'a prog) \<Rightarrow> 'a prog" where
  "available_prog out [] k = k out"
| "available_prog out (dc # dcs) k =
     Probe dc (\<lambda>ok. available_prog (if ok then out @ [dc] else out) dcs k)"

definition order_from :: "string option \<Rightarrow> string list \<Rightarrow> string list" where
  "order_from pin available =
     (let order = (case pin of None \<Rightarrow> [] | Some pinned \<Rightarrow> if pinned \<in> set available then [pinned] else [])
      in order_loop order available)"

fun axfr_prog ::
  "string \<Rightarrow> string list \<Rightarrow> string option \<Rightarrow> string list \<Rightarrow>
     ((Record list \<times> string) go \<Rightarrow> string list \<Rightarrow> 'a prog) \<Rightarrow> 'a prog" where
  "axfr_prog zone tried lastErr [] k =
     k (Err (case lastErr of None \<Rightarrow> ''no DCs available'' | Some e \<Rightarrow> e)) tried"
| "axfr_prog zone tried lastErr (dc # dcs) k =
     CtxErr (\<lambda>err. case err of
        Some e \<Rightarrow> k (Err e) tried
      | None \<Rightarrow>
          Axfr dc zone (\<lambda>res.
            if rr_OK res then k (Ok (rr_Records res, dc)) (set_add dc tried)
            else axfr_prog zone (set_add dc tried) (Some (axfr_error dc res)) dcs k))"

fun list_prog ::
  "Options \<Rightarrow> string list \<Rightarrow> string list \<Rightarrow> string list \<Rightarrow> Endpoint option list \<Rightarrow> string list \<Rightarrow>
     (string list \<Rightarrow> string list \<Rightarrow> Endpoint option list \<Rightarrow> 'a prog) \<Rightarrow> 'a prog" where
  "list_prog opts available tried succeeded out [] k = k tried succeeded out"
| "list_prog opts available tried succeeded out (zone # zones) k =
     PinGet zone (\<lambda>pin. axfr_prog zone tried None (order_from pin available) (\<lambda>res tried1.
       case res of
         Ok (recs, dc) \<Rightarrow>
           Act (PinSet zone dc) (Act (CachePut zone recs)
             (list_prog opts available tried1 (set_add dc succeeded)
               (out @ endpointsFromRecords opts recs zone) zones k))
       | _ \<Rightarrow> Act (CacheDrop zone) (list_prog opts available tried1 succeeded out zones k)))"

fun book_prog :: "string list \<Rightarrow> string list \<Rightarrow> 'a prog \<Rightarrow> 'a prog" where
  "book_prog succeeded [] k = k"
| "book_prog succeeded (dc # dcs) k =
     (if dc \<in> set succeeded then Act (Success dc) (book_prog succeeded dcs k)
      else Act (Failure dc) (book_prog succeeded dcs k))"

definition ListRecords_prog :: "Options \<Rightarrow> (Endpoint option list go \<Rightarrow> 'a) \<Rightarrow> 'a prog" where
  "ListRecords_prog opts ret =
     Lock AxfrMu
       (if \<not> opt_AxfrEnabled opts then Unlock AxfrMu (Done (ret (Ok [])))
        else available_prog [] (opt_Hosts opts) (\<lambda>available.
          if available = [] then Unlock AxfrMu (Done (ret (Err no_dcs)))
          else list_prog opts available [] [] [] (opt_Zones opts) (\<lambda>tried succeeded out.
            Range tried (\<lambda>dcs. book_prog succeeded dcs (Unlock AxfrMu (Done (ret (Ok out))))))))"

fun update_prog ::
  "string \<Rightarrow> zoneChangeSet \<Rightarrow> nat \<Rightarrow> string \<Rightarrow> string list \<Rightarrow> (unit go \<Rightarrow> 'a prog) \<Rightarrow> 'a prog" where
  "update_prog zone cs n lastFailure [] k =
     k (Err (''UPDATE exhausted '' @ Itoa (int n) @ '' DC(s); last: '' @ lastFailure))"
| "update_prog zone cs n lastFailure (dc # dcs) k =
     CtxErr (\<lambda>err. case err of
        Some e \<Rightarrow> k (Err e)
      | None \<Rightarrow>
          Update dc zone (cs_prereqs cs) (cs_changes cs) (\<lambda>answer. case answer of
            None \<Rightarrow> k Panic
          | Some res \<Rightarrow>
              if ar_OK res then Act (PinSet zone dc) (Act (Success dc) (k (Ok ())))
              else if \<not> isFailoverEligible res then
                k (Err (''UPDATE failed (non-retryable): '' @ update_failure dc res))
              else Act (Failure dc) (update_prog zone cs n (update_failure dc res) dcs k)))"

definition applyZone_prog ::
  "Options \<Rightarrow> string \<Rightarrow> zoneChangeSet \<Rightarrow> (unit go \<Rightarrow> 'a prog) \<Rightarrow> 'a prog" where
  "applyZone_prog opts zone cs k =
     LockFor zone (\<lambda>m. Lock (ZoneMu m)
       (available_prog [] (opt_Hosts opts) (\<lambda>available.
          if available = [] then Unlock (ZoneMu m) (k (Err no_dcs))
          else PinGet zone (\<lambda>pin.
            let order = order_from pin available
            in update_prog zone cs (length order) [] order (\<lambda>r. Unlock (ZoneMu m) (k r))))))"

text \<open>A cache with one entry: \<open>buildZoneChangeSet\<close> reads the entry of its zone only.\<close>

definition cache_entry :: "string \<Rightarrow> Record list option \<Rightarrow> AXFRCache" where
  "cache_entry zone e = (case e of None \<Rightarrow> NewAXFRCache | Some recs \<Rightarrow> cache_Put NewAXFRCache zone recs)"

fun apply_prog ::
  "Options \<Rightarrow> byZone \<Rightarrow> string option \<Rightarrow> string list \<Rightarrow> (unit go \<Rightarrow> 'a) \<Rightarrow> 'a prog" where
  "apply_prog opts m firstErr [] ret = Done (ret (case firstErr of None \<Rightarrow> Ok () | Some e \<Rightarrow> Err e))"
| "apply_prog opts m firstErr (zone # zones) ret =
     (case map_of m zone of
        None \<Rightarrow> apply_prog opts m firstErr zones ret
      | Some ops \<Rightarrow>
          CacheGet zone (\<lambda>entry.
            case buildZoneChangeSet opts (cache_entry zone entry) zone
                   (zo_create ops) (zo_updateOld ops) (zo_updateNew ops) (zo_del ops) of
              Panic \<Rightarrow> Done (ret Panic)
            | Err e \<Rightarrow> apply_prog opts m (or_first firstErr e) zones ret
            | Ok cs \<Rightarrow>
                if cs_changes cs = [] \<or> opt_DryRun opts then apply_prog opts m firstErr zones ret
                else applyZone_prog opts zone cs (\<lambda>r.
                  case r of
                    Ok _ \<Rightarrow> apply_prog opts m firstErr zones ret
                  | Err e \<Rightarrow> apply_prog opts m (or_first firstErr e) zones ret
                  | Panic \<Rightarrow> Done (ret Panic))))"

definition ApplyChanges_prog :: "Options \<Rightarrow> Changes \<Rightarrow> (unit go \<Rightarrow> 'a) \<Rightarrow> 'a prog" where
  "ApplyChanges_prog opts ch ret =
     (let m = groupByZone opts ch in Range (map fst m) (\<lambda>zones. apply_prog opts m None zones ret))"

section \<open>One step\<close>

fun act :: "world \<Rightarrow> action \<Rightarrow> Orchestrator \<Rightarrow> Orchestrator" where
  "act W (PinSet zone dc) s = s\<lparr>o_pins := pins_Set (o_pins s) zone dc\<rparr>"
| "act W (CachePut zone recs) s = s\<lparr>o_cache := cache_Put (o_cache s) zone recs\<rparr>"
| "act W (CacheDrop zone) s = s\<lparr>o_cache := cache_Drop (o_cache s) zone\<rparr>"
| "act W (Success dc) s = s\<lparr>o_breaker := RecordSuccess (o_breaker s) dc\<rparr>"
| "act W (Failure dc) s = tick (s\<lparr>o_breaker := snd (RecordFailure (o_breaker s) (w_now W (o_tick s)) dc)\<rparr>)"

text \<open>The shared state: the orchestrator and who holds which mutex.\<close>

type_synonym shared = "Orchestrator \<times> (mutex \<rightharpoonup> nat)"

text \<open>
  One step of goroutine \<open>i\<close>; \<open>None\<close> if it has finished or waits for a mutex.
  Unlocking a mutex nobody holds is fatal in Go and has no step.
\<close>

fun prog_step :: "Options \<Rightarrow> world \<Rightarrow> nat \<Rightarrow> shared \<Rightarrow> 'a prog \<Rightarrow> (shared \<times> 'a prog) option" where
  "prog_step opts W i (s, own) (Done a) = None"
| "prog_step opts W i (s, own) (Act a p) = Some ((act W a s, own), p)"
| "prog_step opts W i (s, own) (Probe dc k) = (case probe W s dc of (ok, s') \<Rightarrow> Some ((s', own), k ok))"
| "prog_step opts W i (s, own) (CtxErr k) = Some ((tick s, own), k (w_ctxErr W (o_tick s)))"
| "prog_step opts W i (s, own) (PinGet zone k) = Some ((s, own), k (pins_Get (o_pins s) zone))"
| "prog_step opts W i (s, own) (CacheGet zone k) = Some ((s, own), k (cache_Get (o_cache s) zone))"
| "prog_step opts W i (s, own) (Axfr dc zone k) =
     Some ((tick (send (AxfrCall dc zone) s), own), k (w_AXFR W (o_tick s) dc (opt_Port opts) zone))"
| "prog_step opts W i (s, own) (Update dc zone ps cs k) =
     Some ((tick (send (UpdateCall dc zone ps cs) s), own), k (w_Update W (o_tick s) dc (opt_Port opts) zone ps cs))"
| "prog_step opts W i (s, own) (Range ks k) = Some ((tick s, own), k (w_range W (o_tick s) ks))"
| "prog_step opts W i (s, own) (LockFor zone k) =
     (case locks_For (o_zlocks s) zone of (m, zl) \<Rightarrow> Some ((s\<lparr>o_zlocks := zl\<rparr>, own), k m))"
| "prog_step opts W i (s, own) (Lock m p) =
     (case own m of None \<Rightarrow> Some ((s, own(m \<mapsto> i)), p) | Some _ \<Rightarrow> None)"
| "prog_step opts W i (s, own) (Unlock m p) =
     (case own m of None \<Rightarrow> None | Some _ \<Rightarrow> Some ((s, own(m := None)), p))"

section \<open>Running alone\<close>

text \<open>A goroutine that nobody disturbs, up to its result.\<close>

inductive alone :: "Options \<Rightarrow> world \<Rightarrow> nat \<Rightarrow> shared \<Rightarrow> 'a prog \<Rightarrow> 'a \<Rightarrow> shared \<Rightarrow> bool"
  for opts W i where
  alone_done: "alone opts W i c (Done a) a c"
| alone_step: "prog_step opts W i c p = Some (c', p') \<Longrightarrow> alone opts W i c' p' a c'' \<Longrightarrow> alone opts W i c p a c''"

lemma alone_steps:
  "alone opts W i (act W x s, own) p a c \<Longrightarrow> alone opts W i (s, own) (Act x p) a c"
  "probe W s dc = (ok, s') \<Longrightarrow> alone opts W i (s', own) (k ok) a c \<Longrightarrow> alone opts W i (s, own) (Probe dc k) a c"
  "alone opts W i (tick s, own) (k1 (w_ctxErr W (o_tick s))) a c \<Longrightarrow> alone opts W i (s, own) (CtxErr k1) a c"
  "alone opts W i (s, own) (k1 (pins_Get (o_pins s) zone)) a c \<Longrightarrow> alone opts W i (s, own) (PinGet zone k1) a c"
  "alone opts W i (s, own) (k2 (cache_Get (o_cache s) zone)) a c \<Longrightarrow> alone opts W i (s, own) (CacheGet zone k2) a c"
  "alone opts W i (tick (send (AxfrCall dc zone) s), own) (k3 (w_AXFR W (o_tick s) dc (opt_Port opts) zone)) a c \<Longrightarrow>
     alone opts W i (s, own) (Axfr dc zone k3) a c"
  "alone opts W i (tick (send (UpdateCall dc zone ps cs) s), own)
       (k4 (w_Update W (o_tick s) dc (opt_Port opts) zone ps cs)) a c \<Longrightarrow>
     alone opts W i (s, own) (Update dc zone ps cs k4) a c"
  "alone opts W i (tick s, own) (k5 (w_range W (o_tick s) ks)) a c \<Longrightarrow> alone opts W i (s, own) (Range ks k5) a c"
  "alone opts W i (s\<lparr>o_zlocks := snd (locks_For (o_zlocks s) zone)\<rparr>, own) (k6 (fst (locks_For (o_zlocks s) zone))) a c \<Longrightarrow>
     alone opts W i (s, own) (LockFor zone k6) a c"
  "own m = None \<Longrightarrow> alone opts W i (s, own(m \<mapsto> i)) p a c \<Longrightarrow> alone opts W i (s, own) (Lock m p) a c"
  "own m = Some j \<Longrightarrow> alone opts W i (s, own(m := None)) p a c \<Longrightarrow> alone opts W i (s, own) (Unlock m p) a c"
  by (erule alone_step [rotated] alone_step [rotated 2]; simp split: prod.splits)+

lemma available_alone:
  "availableDCs_aux W s out dcs = (av, s') \<Longrightarrow> alone opts W i (s', own) (k av) a c \<Longrightarrow>
     alone opts W i (s, own) (available_prog out dcs k) a c"
proof (induction dcs arbitrary: s out)
  case (Cons dc dcs)
  obtain ok s1 where p: "probe W s dc = (ok, s1)" by fastforce
  with Cons show ?case by (auto intro!: alone_steps(2) [OF p])
qed simp

lemma axfr_alone:
  "axfr_loop opts W zone s tried le dcs = (r, s', tried') \<Longrightarrow> alone opts W i (s', own) (k r tried') a c \<Longrightarrow>
     alone opts W i (s, own) (axfr_prog zone tried le dcs k) a c"
proof (induction dcs arbitrary: s tried le)
  case (Cons dc dcs)
  show ?case
  proof (cases "w_ctxErr W (o_tick s)")
    case None
    with Cons show ?thesis
      by (auto simp: Let_def split: if_splits intro!: alone_steps(3,6))
  next
    case (Some e)
    with Cons.prems show ?thesis by (auto intro!: alone_steps(3))
  qed
qed auto

lemma order_from_pins: "order_from (pins_Get pins zone) available = dcOrderForZone pins zone available"
  by (simp add: order_from_def dcOrderForZone_def)

lemma list_alone:
  "list_zones opts W av s tried suc out zones = (s', tried', suc', out') \<Longrightarrow>
     alone opts W i (s', own) (k tried' suc' out') a c \<Longrightarrow>
     alone opts W i (s, own) (list_prog opts av tried suc out zones k) a c"
proof (induction zones arbitrary: s tried suc out)
  case (Cons zone zones)
  obtain r s1 tried1 where x: "axfrZone opts W s zone av tried = (r, s1, tried1)" by (rule prod_cases3)
  note ax = axfr_alone [OF x [unfolded axfrZone_def, folded order_from_pins]]
  show ?case
  proof (cases r)
    case (Ok q)
    obtain recs dc where q: "q = (recs, dc)" by fastforce
    with Ok x Cons.prems(1) have "list_zones opts W av
        (s1\<lparr>o_pins := pins_Set (o_pins s1) zone dc, o_cache := cache_Put (o_cache s1) zone recs\<rparr>)
        tried1 (set_add dc suc) (out @ endpointsFromRecords opts recs zone) zones = (s', tried', suc', out')"
      by simp
    from Cons.IH [OF this Cons.prems(2)] show ?thesis
      by (auto simp: Ok q intro!: alone_steps(4) ax alone_steps(1))
  next
    case (Err e)
    with x Cons.prems(1) have "list_zones opts W av (s1\<lparr>o_cache := cache_Drop (o_cache s1) zone\<rparr>)
        tried1 suc out zones = (s', tried', suc', out')"
      by simp
    from Cons.IH [OF this Cons.prems(2)] show ?thesis
      by (auto simp: Err intro!: alone_steps(4) ax alone_steps(1))
  next
    case Panic
    with x Cons.prems(1) have "list_zones opts W av (s1\<lparr>o_cache := cache_Drop (o_cache s1) zone\<rparr>)
        tried1 suc out zones = (s', tried', suc', out')"
      by simp
    from Cons.IH [OF this Cons.prems(2)] show ?thesis
      by (auto simp: Panic intro!: alone_steps(4) ax alone_steps(1))
  qed
qed simp

lemma book_alone:
  "alone opts W i (bookkeep W suc s dcs, own) k a c \<Longrightarrow> alone opts W i (s, own) (book_prog suc dcs k) a c"
  by (induction dcs arbitrary: s) (auto intro!: alone_steps(1))

lemma alone_unlock:
  assumes "own m = None" "alone opts W i (s, own) p a c"
  shows "alone opts W i (s, own(m \<mapsto> i)) (Unlock m p) a c"
proof (rule alone_steps(11))
  have "(own(m \<mapsto> i))(m := None) = own" using assms(1) by auto
  with assms(2) show "alone opts W i (s, (own(m \<mapsto> i))(m := None)) p a c" by simp
qed simp

lemma ListRecords_alone:
  assumes "own AxfrMu = None"
  shows "alone opts W i (s, own) (ListRecords_prog opts ret)
    (ret (fst (ListRecords opts W s))) (snd (ListRecords opts W s), own)"
proof -
  have unlock: "alone opts W i (s', own(AxfrMu \<mapsto> i)) (Unlock AxfrMu (Done a)) a (s', own)" for s' a
    by (rule alone_unlock) (auto intro: assms alone_done)
  show ?thesis
    unfolding ListRecords_prog_def
  proof (rule alone_steps(10), rule assms, cases "opt_AxfrEnabled opts")
    case True
    obtain av s1 where av: "availableDCs opts W s = (av, s1)" by fastforce
    obtain s2 tried suc out where lz: "list_zones opts W av s1 [] [] [] (opt_Zones opts) = (s2, tried, suc, out)"
      using prod_cases4 by blast
    from True av lz have res: "ListRecords opts W s =
        (if av = [] then (Err no_dcs, s1) else (Ok out, bookkeep W suc (tick s2) (w_range W (o_tick s2) tried)))"
      by (simp add: ListRecords_def)
    show "alone opts W i (s, own(AxfrMu \<mapsto> i)) (if \<not> opt_AxfrEnabled opts then Unlock AxfrMu (Done (ret (Ok [])))
        else available_prog [] (opt_Hosts opts) (\<lambda>available.
          if available = [] then Unlock AxfrMu (Done (ret (Err no_dcs)))
          else list_prog opts available [] [] [] (opt_Zones opts) (\<lambda>tried succeeded out.
            Range tried (\<lambda>dcs. book_prog succeeded dcs (Unlock AxfrMu (Done (ret (Ok out))))))))
       (ret (fst (ListRecords opts W s))) (snd (ListRecords opts W s), own)"
      using True unlock
      by (auto simp: res intro!: available_alone [OF av [unfolded availableDCs_def]] list_alone [OF lz]
          alone_steps(8) book_alone)
  qed (simp_all add: ListRecords_def unlock)
qed

lemma update_alone:
  "update_loop_dcs opts W zone cs n s lf dcs = (r, s') \<Longrightarrow> alone opts W i (s', own) (k r) a c \<Longrightarrow>
     alone opts W i (s, own) (update_prog zone cs n lf dcs k) a c"
proof (induction dcs arbitrary: s lf)
  case (Cons dc dcs)
  show ?case
  proof (cases "w_ctxErr W (o_tick s)")
    case None
    with Cons show ?thesis
      by (auto simp: Let_def split: if_splits option.splits intro!: alone_steps(3,7,1))
  next
    case (Some e)
    with Cons.prems show ?thesis by (auto intro!: alone_steps(3))
  qed
qed auto

lemma applyZone_alone:
  assumes "applyZone opts W s zone cs = (r, s')" "\<And>m. own (ZoneMu m) = None"
    and "alone opts W i (s', own) (k r) a c"
  shows "alone opts W i (s, own) (applyZone_prog opts zone cs k) a c"
proof -
  let ?s0 = "s\<lparr>o_zlocks := snd (locks_For (o_zlocks s) zone)\<rparr>" and ?m = "fst (locks_For (o_zlocks s) zone)"
  let ?own = "own(ZoneMu ?m \<mapsto> i)"
  obtain av s1 where av: "availableDCs opts W ?s0 = (av, s1)" by fastforce
  have unlock: "alone opts W i (s2, ?own) (Unlock (ZoneMu ?m) q) a c" if "alone opts W i (s2, own) q a c" for s2 q
    by (rule alone_unlock) (auto intro: assms(2) that)
  show ?thesis
    unfolding applyZone_prog_def
  proof (intro alone_steps(9) alone_steps(10) assms(2) available_alone [OF av [unfolded availableDCs_def]])
    show "alone opts W i (s1, ?own) (if av = [] then Unlock (ZoneMu ?m) (k (Err no_dcs))
       else PinGet zone (\<lambda>pin. let order = order_from pin av
              in update_prog zone cs (length order) [] order (\<lambda>r. Unlock (ZoneMu ?m) (k r)))) a c"
      using assms(1,3) av
      by (auto simp: applyZone_def Let_def order_from_pins intro!: alone_steps(4) update_alone unlock split: if_splits)
  qed
qed

lemma cache_entry_get: "cache_Get (cache_entry zone e) zone = e"
  by (cases e) (simp_all add: cache_entry_def axfr_cache.get_new axfr_cache.get_put)

lemma build_cache_entry:
  "buildZoneChangeSet opts (cache_entry zone (cache_Get c zone)) zone cr uo un de =
   buildZoneChangeSet opts c zone cr uo un de"
  by (simp add: buildZoneChangeSet_def cache_entry_get slice_at_def)

lemma apply_alone:
  "(\<And>m. own (ZoneMu m) = None) \<Longrightarrow>
     alone opts W i (s, own) (apply_prog opts m fe zones ret)
       (ret (fst (apply_zones opts W m s fe zones))) (snd (apply_zones opts W m s fe zones), own)"
proof (induction zones arbitrary: s fe)
  case Nil
  then show ?case by (simp add: alone_done)
next
  case (Cons zone zones)
  note IH = Cons.IH [OF Cons.prems]
  show ?case
  proof (cases "map_of m zone")
    case None
    then show ?thesis using IH by simp
  next
    case (Some ops)
    let ?b = "buildZoneChangeSet opts (o_cache s) zone (zo_create ops) (zo_updateOld ops) (zo_updateNew ops) (zo_del ops)"
    show ?thesis
    proof (cases ?b)
      case (Ok cs)
      obtain r s1 where az: "applyZone opts W s zone cs = (r, s1)" by fastforce
      show ?thesis
      proof (cases "cs_changes cs = [] \<or> opt_DryRun opts")
        case True
        with Some Ok IH show ?thesis by (auto simp: build_cache_entry intro!: alone_steps(5))
      next
        case False
        have "alone opts W i (s1, own)
           (case r of Ok _ \<Rightarrow> apply_prog opts m fe zones ret
            | Err e \<Rightarrow> apply_prog opts m (or_first fe e) zones ret | Panic \<Rightarrow> Done (ret Panic))
           (ret (fst (apply_zones opts W m s fe (zone # zones)))) (snd (apply_zones opts W m s fe (zone # zones)), own)"
          using Some Ok az False IH by (cases r) (auto intro: alone_done)
        from applyZone_alone [where k = "\<lambda>r. case r of Ok _ \<Rightarrow> apply_prog opts m fe zones ret
            | Err e \<Rightarrow> apply_prog opts m (or_first fe e) zones ret | Panic \<Rightarrow> Done (ret Panic)",
            OF az Cons.prems this] Some Ok False
        show ?thesis by (auto simp: build_cache_entry intro!: alone_steps(5))
      qed
    qed (use Some IH in \<open>auto simp: build_cache_entry intro!: alone_steps(5) alone_done\<close>)
  qed
qed

lemma ApplyChanges_alone:
  assumes "\<And>m. own (ZoneMu m) = None"
  shows "alone opts W i (s, own) (ApplyChanges_prog opts ch ret)
    (ret (fst (ApplyChanges opts W s ch))) (snd (ApplyChanges opts W s ch), own)"
  unfolding ApplyChanges_prog_def ApplyChanges_def Let_def
  by (intro alone_steps(8) apply_alone assms)

lemma alone_deterministic: "alone opts W i c p a c' \<Longrightarrow> alone opts W i c p b c'' \<Longrightarrow> b = a \<and> c'' = c'"
proof (induction arbitrary: b c'' rule: alone.induct)
  case (alone_done c a)
  then show ?case by (cases c) (auto elim: alone.cases)
next
  case (alone_step c p c1 p1 a c2)
  from alone_step.prems alone_step.hyps(1) have "alone opts W i c1 p1 b c''"
    by (cases rule: alone.cases) (cases c, auto)
  then show ?case by (rule alone_step.IH)
qed

end
