(* ===== verification/Interleavings.thy ===== *)
theory Interleavings
  imports Goroutines
begin

text \<open>
  Any number of requests in flight at once, over one shared orchestrator: the step
  relation that interleaves their programs, the discipline every program follows
  with the mutexes, the invariant of the shared state, and termination.
\<close>

section \<open>Requests in flight\<close>

datatype call = CallList | CallApply Changes

datatype outcome = Listed "Endpoint option list go" | Applied "unit go"

fun prog_of :: "Options \<Rightarrow> call \<Rightarrow> outcome prog" where
  "prog_of opts CallList = ListRecords_prog opts Listed"
| "prog_of opts (CallApply ch) = ApplyChanges_prog opts ch Applied"

record conc_sys =
  sy_shared :: shared
  sy_progs :: "outcome prog list"

definition sys_init :: "Options \<Rightarrow> conc_sys" where
  "sys_init opts = \<lparr>sy_shared = (New opts, Map.empty), sy_progs = []\<rparr>"

text \<open>Goroutine \<open>i\<close> makes a step, or a request arrives and gets a goroutine.\<close>

inductive sys_step :: "Options \<Rightarrow> world \<Rightarrow> conc_sys \<Rightarrow> conc_sys \<Rightarrow> bool" for opts W where
  sys_run: "i < length (sy_progs c) \<Longrightarrow> prog_step opts W i (sy_shared c) (sy_progs c ! i) = Some (sh, p) \<Longrightarrow>
    sys_step opts W c \<lparr>sy_shared = sh, sy_progs = (sy_progs c)[i := p]\<rparr>"

inductive sys_reach :: "Options \<Rightarrow> world \<Rightarrow> conc_sys \<Rightarrow> bool" for opts W where
  reach_init: "sys_reach opts W (sys_init opts)"
| reach_arrive: "sys_reach opts W c \<Longrightarrow>
    sys_reach opts W (c\<lparr>sy_progs := sy_progs c @ [prog_of opts call]\<rparr>)"
| reach_step: "sys_reach opts W c \<Longrightarrow> sys_step opts W c c' \<Longrightarrow> sys_reach opts W c'"

section \<open>Discipline\<close>

text \<open>
  \<open>known z\<close> is the mutex the program looked up for zone \<open>z\<close>, \<open>held\<close> the mutex it
  holds, with its zone.  A program takes one mutex at a time, gives back the one it
  holds before it ends, sends UPDATEs for a zone only under that zone's mutex and
  transfers only under \<open>axfrMu\<close>, and pins and contacts configured DCs only.
\<close>

type_synonym known = "string \<rightharpoonup> nat"
type_synonym held = "(mutex \<times> string) option"

primrec disciplined :: "Options \<Rightarrow> 'a prog \<Rightarrow> known \<Rightarrow> held \<Rightarrow> bool" where
  "disciplined opts (Done a) = (\<lambda>known held. held = None)"
| "disciplined opts (Act x p) = (\<lambda>known held.
     (case x of
        PinSet z dc \<Rightarrow> dc \<in> set (opt_Hosts opts) \<and> held \<noteq> None
      | CachePut z recs \<Rightarrow> z \<in> set (opt_Zones opts) \<and> held = Some (AxfrMu, [])
      | CacheDrop z \<Rightarrow> held = Some (AxfrMu, [])
      | _ \<Rightarrow> held \<noteq> None) \<and> disciplined opts p known held)"
| "disciplined opts (Probe dc k) = (\<lambda>known held. \<forall>b. disciplined opts (k b) known held)"
| "disciplined opts (CtxErr k) = (\<lambda>known held. \<forall>e. disciplined opts (k e) known held)"
| "disciplined opts (PinGet z k) = (\<lambda>known held. \<forall>e. disciplined opts (k e) known held)"
| "disciplined opts (CacheGet z k) = (\<lambda>known held. \<forall>e. disciplined opts (k e) known held)"
| "disciplined opts (Axfr dc z k) = (\<lambda>known held. dc \<in> set (opt_Hosts opts) \<and> held = Some (AxfrMu, []) \<and>
     (\<forall>r. disciplined opts (k r) known held))"
| "disciplined opts (Update dc z ps cs k) = (\<lambda>known held. dc \<in> set (opt_Hosts opts) \<and>
     (\<exists>m. held = Some (ZoneMu m, z) \<and> known z = Some m) \<and> (\<forall>r. disciplined opts (k r) known held))"
| "disciplined opts (Range ks k) = (\<lambda>known held. \<forall>zs. disciplined opts (k zs) known held)"
| "disciplined opts (LockFor z k) = (\<lambda>known held. held = None \<and> (\<forall>m. disciplined opts (k m) (known(z \<mapsto> m)) held))"
| "disciplined opts (Lock m p) = (\<lambda>known held. held = None \<and>
     (case m of
        AxfrMu \<Rightarrow> disciplined opts p known (Some (AxfrMu, []))
      | ZoneMu n \<Rightarrow> \<exists>z. known z = Some n \<and> disciplined opts p known (Some (ZoneMu n, z))))"
| "disciplined opts (Unlock m p) = (\<lambda>known held. (\<exists>z. held = Some (m, z)) \<and> disciplined opts p known None)"

lemma disciplined_available:
  "set out \<subseteq> set (opt_Hosts opts) \<Longrightarrow> set dcs \<subseteq> set (opt_Hosts opts) \<Longrightarrow>
     (\<And>av. set av \<subseteq> set (opt_Hosts opts) \<Longrightarrow> disciplined opts (k av) known held) \<Longrightarrow>
     disciplined opts (available_prog out dcs k) known held"
  by (induction dcs arbitrary: out) auto

lemma disciplined_axfr:
  "set dcs \<subseteq> set (opt_Hosts opts) \<Longrightarrow> held = Some (AxfrMu, []) \<Longrightarrow>
     (\<And>r t. (\<forall>recs dc. r = Ok (recs, dc) \<longrightarrow> dc \<in> set (opt_Hosts opts)) \<Longrightarrow> disciplined opts (k r t) known held) \<Longrightarrow>
     disciplined opts (axfr_prog zone tried le dcs k) known held"
  by (induction dcs arbitrary: tried le) (auto split: option.splits)

lemma order_from_set: "set (order_from pin av) \<subseteq> set av"
proof -
  have "set (order_loop o1 dcs) \<subseteq> set o1 \<union> set dcs" for o1 dcs
    by (induction o1 dcs rule: order_loop.induct) auto
  then show ?thesis by (fastforce simp: order_from_def Let_def split: option.splits if_splits)
qed

lemma order_from_mem: "dc \<in> set (order_from pin av) \<Longrightarrow> dc \<in> set av"
  using order_from_set by blast

lemma disciplined_list:
  assumes "set av \<subseteq> set (opt_Hosts opts)" "held = Some (AxfrMu, [])"
    and k: "\<And>t su out. disciplined opts (k t su out) known held"
  shows "set zones \<subseteq> set (opt_Zones opts) \<Longrightarrow> disciplined opts (list_prog opts av tried suc out zones k) known held"
proof (induction zones arbitrary: tried suc out)
  case (Cons zone zones)
  with assms(1,2) show ?case
    by (auto intro!: disciplined_axfr dest!: order_from_mem split: go.splits)
qed (simp add: k)

lemma disciplined_book: "held \<noteq> None \<Longrightarrow> disciplined opts k known held \<Longrightarrow> disciplined opts (book_prog suc dcs k) known held"
  by (induction dcs) auto

lemma disciplined_ListRecords: "disciplined opts (ListRecords_prog opts ret) known None"
  by (auto simp: ListRecords_prog_def intro!: disciplined_available disciplined_list disciplined_book)

lemma disciplined_update:
  "set dcs \<subseteq> set (opt_Hosts opts) \<Longrightarrow> held = Some (ZoneMu m, zone) \<Longrightarrow> known zone = Some m \<Longrightarrow>
     (\<And>r. disciplined opts (k r) known held) \<Longrightarrow>
     disciplined opts (update_prog zone cs n lf dcs k) known held"
  by (induction dcs arbitrary: lf) (auto split: option.splits)

lemma disciplined_applyZone:
  assumes "\<And>r known. disciplined opts (k r) known None"
  shows "disciplined opts (applyZone_prog opts zone cs k) known None"
proof -
  have "disciplined opts (available_prog [] (opt_Hosts opts) (\<lambda>available.
      if available = [] then Unlock (ZoneMu m) (k (Err no_dcs))
      else PinGet zone (\<lambda>pin. let order = order_from pin available
             in update_prog zone cs (length order) [] order (\<lambda>r. Unlock (ZoneMu m) (k r)))))
    (known(zone \<mapsto> m)) (Some (ZoneMu m, zone))" for m
    by (rule disciplined_available)
      (auto simp: Let_def assms intro!: disciplined_update [where m = m] dest!: order_from_mem)
  then show ?thesis by (auto simp: applyZone_prog_def intro!: exI [of _ zone])
qed

lemma disciplined_apply: "disciplined opts (apply_prog opts m fe zones ret) known None"
proof (induction zones arbitrary: fe known)
  case (Cons zone zones)
  then show ?case
    by (auto intro!: disciplined_applyZone split: option.splits go.splits)
qed simp

lemma disciplined_prog_of: "disciplined opts (prog_of opts call) known None"
  by (cases call) (simp_all add: disciplined_ListRecords ApplyChanges_prog_def Let_def disciplined_apply)

section \<open>Invariant\<close>

text \<open>A goroutine's ghost state is consistent with the mutexes registered and owned.\<close>

definition goroutine_ok :: "Options \<Rightarrow> shared \<Rightarrow> nat \<Rightarrow> outcome prog \<Rightarrow> known \<times> held \<Rightarrow> bool" where
  "goroutine_ok opts sh i p g \<longleftrightarrow> disciplined opts p (fst g) (snd g) \<and>
     (\<forall>z m. fst g z = Some m \<longrightarrow> zl_locks (o_zlocks (fst sh)) z = Some m) \<and>
     (\<forall>m z. snd g = Some (ZoneMu m, z) \<longrightarrow> zl_locks (o_zlocks (fst sh)) z = Some m) \<and>
     (\<forall>m. snd sh m = Some i \<longleftrightarrow> (\<exists>z. snd g = Some (m, z)))"

definition sys_inv :: "Options \<Rightarrow> conc_sys \<Rightarrow> bool" where
  "sys_inv opts c \<longleftrightarrow> orch_inv opts (fst (sy_shared c)) \<and>
     (\<forall>m i. snd (sy_shared c) m = Some i \<longrightarrow> i < length (sy_progs c)) \<and>
     (\<exists>g. \<forall>i < length (sy_progs c). goroutine_ok opts (sy_shared c) i (sy_progs c ! i) (g i))"

lemma orch_inv_act:
  assumes "orch_inv opts s" "disciplined opts (Act x p) known held"
  shows "orch_inv opts (act W x s)"
  using assms
  by (cases x)
    (auto simp: orch_inv_def zone_pins.get_put axfr_cache.get_put axfr_cache.get_drop breaker.success_inv
      breaker.failure_inv split: if_splits)

lemma orch_inv_locks: "orch_inv opts s \<Longrightarrow> locks_For (o_zlocks s) z = (m, zl) \<Longrightarrow> orch_inv opts (s\<lparr>o_zlocks := zl\<rparr>)"
  using locks_For_ok [of "o_zlocks s" z] by (simp add: orch_inv_def)

lemma orch_inv_send: "orch_inv opts s \<Longrightarrow> orch_inv opts (send m s)"
  by (simp add: orch_inv_def)

lemma orch_inv_probe: "orch_inv opts s \<Longrightarrow> probe W s dc = (ok, s') \<Longrightarrow> orch_inv opts s'"
  using probe_breaker_inv [of s W dc] probe_frame [of W s dc] by (simp add: orch_inv_def)

text \<open>
  What one step does: the orchestrator's invariant stays, mutexes stay registered,
  and the stepping goroutine's ghost state moves along; the owners change only at
  the mutex it takes or gives back.
\<close>

lemma step_ok:
  assumes "prog_step opts W i sh p = Some (sh', p')" "goroutine_ok opts sh i p g" "orch_inv opts (fst sh)"
  obtains g' where "goroutine_ok opts sh' i p' g'" "orch_inv opts (fst sh')"
    "\<And>z m. zl_locks (o_zlocks (fst sh)) z = Some m \<Longrightarrow> zl_locks (o_zlocks (fst sh')) z = Some m"
    "\<And>m j. j \<noteq> i \<Longrightarrow> snd sh' m = Some j \<longleftrightarrow> snd sh m = Some j"
proof -
  obtain s own where sh: "sh = (s, own)" by fastforce
  obtain known held where g: "g = (known, held)" by fastforce
  note hyps = assms [unfolded sh g goroutine_ok_def, simplified]
  show thesis
  proof (cases p)
    case (Lock m q)
    then have own: "own m = None" "sh' = (s, own(m \<mapsto> i))" "p' = q" "held = None"
      using hyps by (auto split: option.splits)
    show thesis
    proof (cases m)
      case AxfrMu
      show thesis
        by (rule that [of "(known, Some (AxfrMu, []))"])
          (use hyps own Lock AxfrMu in \<open>auto simp: goroutine_ok_def sh\<close>)
    next
      case (ZoneMu n)
      then obtain z where z: "known z = Some n" "disciplined opts q known (Some (ZoneMu n, z))"
        using hyps Lock by auto
      show thesis
        by (rule that [of "(known, Some (ZoneMu n, z))"])
          (use hyps own Lock ZoneMu z in \<open>auto simp: goroutine_ok_def sh\<close>)
    qed
  next
    case (Unlock m q)
    then obtain z where z: "held = Some (m, z)" "disciplined opts q known None" using hyps by auto
    then have oi: "own m = Some i" using hyps by blast
    then have q: "sh' = (s, own(m := None))" "p' = q" using hyps(1) Unlock by simp_all
    have oj: "own m = Some j \<Longrightarrow> j = i" for j using oi by simp
    show thesis
      by (rule that [of "(known, None)"]) (use hyps z oi q in \<open>auto simp: goroutine_ok_def sh dest: oj\<close>)
  next
    case (LockFor z k)
    obtain m zl where m: "locks_For (o_zlocks s) z = (m, zl)" by fastforce
    then have zl: "zl_locks zl z = Some m" "\<And>b n. zl_locks (o_zlocks s) b = Some n \<Longrightarrow> zl_locks zl b = Some n"
      using locks_For_result [of "o_zlocks s" z] locks_For_keeps [of "o_zlocks s" _ _ z] by simp_all
    show thesis
      by (rule that [of "(known(z \<mapsto> m), held)"])
        (use hyps LockFor m zl orch_inv_locks [of opts s z m zl] in \<open>auto simp: goroutine_ok_def sh\<close>)
  next
    case (Act x q)
    have o: "orch_inv opts (act W x s)" using orch_inv_act [of opts s x q known held] hyps Act by simp
    have zl: "o_zlocks (act W x s) = o_zlocks s" by (cases x) simp_all
    show thesis
      by (rule that [of "(known, held)"]) (use hyps Act o zl in \<open>auto simp: goroutine_ok_def sh\<close>)
  next
    case (Probe dc k)
    obtain ok s' where pr: "probe W s dc = (ok, s')" by fastforce
    then have "o_zlocks s' = o_zlocks s" using probe_frame(3) [of W s dc] by simp
    then show thesis
      by (intro that [of "(known, held)"])
        (use hyps Probe pr orch_inv_probe [OF _ pr, of opts] in \<open>auto simp: goroutine_ok_def sh\<close>)
  qed (rule that [of "(known, held)"];
      use hyps in \<open>auto simp: goroutine_ok_def sh intro!: orch_inv_tick orch_inv_send\<close>)+
qed

lemma goroutine_ok_frame:
  assumes "goroutine_ok opts sh j p g"
    and "\<And>z m. zl_locks (o_zlocks (fst sh)) z = Some m \<Longrightarrow> zl_locks (o_zlocks (fst sh')) z = Some m"
    and "\<And>m. snd sh' m = Some j \<longleftrightarrow> snd sh m = Some j"
  shows "goroutine_ok opts sh' j p g"
  using assms by (simp add: goroutine_ok_def)

lemma sys_inv_init: "sys_inv opts (sys_init opts)"
  by (simp add: sys_inv_def sys_init_def orch_inv_New)

lemma sys_inv_arrive:
  assumes "sys_inv opts c"
  shows "sys_inv opts (c\<lparr>sy_progs := sy_progs c @ [prog_of opts call]\<rparr>)"
proof -
  let ?n = "length (sy_progs c)"
  from assms obtain g where g: "\<forall>i < ?n. goroutine_ok opts (sy_shared c) i (sy_progs c ! i) (g i)"
    and o: "\<forall>m i. snd (sy_shared c) m = Some i \<longrightarrow> i < ?n" "orch_inv opts (fst (sy_shared c))"
    by (auto simp: sys_inv_def)
  have new: "goroutine_ok opts (sy_shared c) ?n (prog_of opts call) (Map.empty, None)"
    using o(1) by (auto simp: goroutine_ok_def disciplined_prog_of)
  have "goroutine_ok opts (sy_shared c) i ((sy_progs c @ [prog_of opts call]) ! i) ((g(?n := (Map.empty, None))) i)"
    if "i < Suc ?n" for i
    using that g new by (cases "i = ?n") (simp_all add: nth_append)
  then show ?thesis
    using o by (auto simp: sys_inv_def less_SucI intro!: exI [of _ "g(?n := (Map.empty, None))"])
qed

lemma sys_inv_step:
  assumes "sys_inv opts c" "sys_step opts W c c'"
  shows "sys_inv opts c'"
  using assms(2)
proof cases
  case (sys_run i sh p)
  from assms(1) obtain g where
    g: "\<forall>i < length (sy_progs c). goroutine_ok opts (sy_shared c) i (sy_progs c ! i) (g i)"
    and o: "\<forall>m i. snd (sy_shared c) m = Some i \<longrightarrow> i < length (sy_progs c)" "orch_inv opts (fst (sy_shared c))"
    by (auto simp: sys_inv_def)
  obtain g' where g': "goroutine_ok opts sh i p g'" "orch_inv opts (fst sh)"
    and keep: "\<And>z m. zl_locks (o_zlocks (fst (sy_shared c))) z = Some m \<Longrightarrow> zl_locks (o_zlocks (fst sh)) z = Some m"
      "\<And>m j. j \<noteq> i \<Longrightarrow> snd sh m = Some j \<longleftrightarrow> snd (sy_shared c) m = Some j"
    using step_ok [OF sys_run(3) _ o(2)] g sys_run(2) by blast
  have "goroutine_ok opts sh j ((sy_progs c)[i := p] ! j) ((g(i := g')) j)" if "j < length (sy_progs c)" for j
  proof (cases "j = i")
    case False
    with that g have "goroutine_ok opts (sy_shared c) j (sy_progs c ! j) (g j)" by blast
    from goroutine_ok_frame [OF this keep(1) keep(2) [OF False]] False show ?thesis by simp
  qed (use g' that in simp)
  moreover have "j < length (sy_progs c)" if "snd sh m = Some j" for m j
    using that keep(2) o(1) sys_run(2) by (cases "j = i") auto
  ultimately show ?thesis
    using g'(2) sys_run(1) by (auto simp: sys_inv_def intro!: exI [of _ "g(i := g')"])
qed

lemma sys_reach_inv: "sys_reach opts W c \<Longrightarrow> sys_inv opts c"
  by (induction rule: sys_reach.induct) (auto intro: sys_inv_init sys_inv_arrive sys_inv_step)

lemma sys_inv_goroutine:
  assumes "sys_inv opts c" "i < length (sy_progs c)"
  obtains g where "goroutine_ok opts (sy_shared c) i (sy_progs c ! i) g"
  using assms unfolding sys_inv_def by blast

lemma update_holds:
  assumes "sys_inv opts c" "i < length (sy_progs c)" "sy_progs c ! i = Update dc z ps cs k"
  obtains m where "zl_locks (o_zlocks (fst (sy_shared c))) z = Some m" "snd (sy_shared c) (ZoneMu m) = Some i"
    "dc \<in> set (opt_Hosts opts)"
proof -
  obtain g where g: "goroutine_ok opts (sy_shared c) i (sy_progs c ! i) g"
    by (rule sys_inv_goroutine [OF assms(1,2)])
  then have ok: "disciplined opts (Update dc z ps cs k) (fst g) (snd g)"
    "\<And>m. snd g = Some (ZoneMu m, z) \<Longrightarrow> zl_locks (o_zlocks (fst (sy_shared c))) z = Some m"
    "\<And>m. snd (sy_shared c) m = Some i \<longleftrightarrow> (\<exists>z. snd g = Some (m, z))"
    unfolding goroutine_ok_def assms(3) by blast+
  from ok(1) obtain m where "snd g = Some (ZoneMu m, z)" "dc \<in> set (opt_Hosts opts)" by auto
  with ok(2,3) that show thesis by blast
qed

lemma axfr_holds:
  assumes "sys_inv opts c" "i < length (sy_progs c)" "sy_progs c ! i = Axfr dc z k"
  shows "snd (sy_shared c) AxfrMu = Some i"
proof -
  obtain g where g: "goroutine_ok opts (sy_shared c) i (sy_progs c ! i) g"
    by (rule sys_inv_goroutine [OF assms(1,2)])
  then have ok: "disciplined opts (Axfr dc z k) (fst g) (snd g)"
    "\<And>m. snd (sy_shared c) m = Some i \<longleftrightarrow> (\<exists>z. snd g = Some (m, z))"
    unfolding goroutine_ok_def assms(3) by blast+
  then show ?thesis by auto
qed

section \<open>Every schedule ends\<close>

text \<open>A program gets smaller with every step.\<close>

inductive rest_of :: "'a prog \<Rightarrow> 'a prog \<Rightarrow> bool" where
  "rest_of p (Act x p)"
| "rest_of (k1 b) (Probe dc k1)"
| "rest_of (k2 e) (CtxErr k2)"
| "rest_of (k2 e) (PinGet z k2)"
| "rest_of (k3 r) (CacheGet z k3)"
| "rest_of (k4 r) (Axfr dc z k4)"
| "rest_of (k5 r) (Update dc z ps cs k5)"
| "rest_of (k6 zs) (Range ks k6)"
| "rest_of (k7 m) (LockFor z k7)"
| "rest_of p (Lock m p)"
| "rest_of p (Unlock m p)"

inductive_cases rest_ofE:
  "rest_of q (Done a)" "rest_of q (Act x p)" "rest_of q (Probe dc k1)" "rest_of q (CtxErr k2)"
  "rest_of q (PinGet z k2)" "rest_of q (CacheGet z k3)" "rest_of q (Axfr dc z k4)"
  "rest_of q (Update dc z ps cs k5)" "rest_of q (Range ks k6)" "rest_of q (LockFor z k7)"
  "rest_of q (Lock m p)" "rest_of q (Unlock m p)"

lemma wf_rest_of: "wf {(q, p :: 'a prog). rest_of q p}"
proof (rule wfUNIVI)
  fix P :: "'a prog \<Rightarrow> bool" and p
  assume step: "\<forall>x. (\<forall>y. (y, x) \<in> {(q, p). rest_of q p} \<longrightarrow> P y) \<longrightarrow> P x"
  show "P p"
  proof (induction p)
  qed (rule step [rule_format]; force elim: rest_ofE)+
qed

lemma prog_step_rest: "prog_step opts W i sh p = Some (sh', p') \<Longrightarrow> rest_of p' p"
  by (cases sh; cases p) (auto intro: rest_of.intros split: option.splits prod.splits)

lemma wf_sys_step: "wf {(c', c). sys_step opts W c c'}"
proof (rule wf_subset)
  show "wf (inv_image (mult {(q, p). rest_of q p}) (\<lambda>c. mset (sy_progs c)))"
    by (intro wf_inv_image wf_mult wf_rest_of)
  show "{(c', c). sys_step opts W c c'} \<subseteq> inv_image (mult {(q, p). rest_of q p}) (\<lambda>c. mset (sy_progs c))"
  proof (clarsimp elim!: sys_step.cases)
    fix c i sh p
    assume i: "i < length (sy_progs c)" and st: "prog_step opts W i (sy_shared c) (sy_progs c ! i) = Some (sh, p)"
    define M where "M = mset (sy_progs c) - {#sy_progs c ! i#}"
    have old: "mset (sy_progs c) = M + {#sy_progs c ! i#}" using i by (simp add: M_def)
    have new: "mset ((sy_progs c)[i := p]) = M + {#p#}" using i by (simp add: mset_update M_def)
    show "(mset ((sy_progs c)[i := p]), mset (sy_progs c)) \<in> mult {(q, p). rest_of q p}"
      unfolding old new by (rule one_step_implies_mult) (use prog_step_rest [OF st] in auto)
  qed
qed

definition all_done :: "conc_sys \<Rightarrow> bool" where
  "all_done c \<longleftrightarrow> (\<forall>p \<in> set (sy_progs c). \<exists>a. p = Done a) \<and> (\<forall>m. snd (sy_shared c) m = None)"

lemma stuck_prog:
  assumes "prog_step opts W i sh p = None" "goroutine_ok opts sh i p g"
  shows "(\<exists>a. p = Done a) \<or> (\<exists>m q j. p = Lock m q \<and> snd sh m = Some j)"
proof (cases sh)
  case (Pair s own)
  note hyps = assms [unfolded Pair goroutine_ok_def, simplified]
  show ?thesis
  proof (cases p)
    case (Unlock m q)
    then obtain z where "snd g = Some (m, z)" using hyps by auto
    then have "own m = Some i" using hyps by blast
    with hyps(1) Unlock show ?thesis by simp
  qed (use hyps(1) Pair in \<open>auto split: option.splits prod.splits\<close>)
qed

lemma no_deadlock:
  assumes "sys_inv opts c" "\<not> all_done c"
  shows "\<exists>c'. sys_step opts W c c'"
proof (rule ccontr)
  assume none: "\<nexists>c'. sys_step opts W c c'"
  have stuck: "prog_step opts W i (sy_shared c) (sy_progs c ! i) = None" if "i < length (sy_progs c)" for i
  proof (rule ccontr)
    assume "prog_step opts W i (sy_shared c) (sy_progs c ! i) \<noteq> None"
    then obtain sh p where "prog_step opts W i (sy_shared c) (sy_progs c ! i) = Some (sh, p)" by auto
    from sys_run [OF that this] none show False by blast
  qed
  have free: "snd (sy_shared c) m = None" for m
  proof (rule ccontr)
    assume "snd (sy_shared c) m \<noteq> None"
    then obtain j where j: "snd (sy_shared c) m = Some j" by auto
    then have jl: "j < length (sy_progs c)" using assms(1) by (auto simp: sys_inv_def)
    obtain g where g: "goroutine_ok opts (sy_shared c) j (sy_progs c ! j) g"
      by (rule sys_inv_goroutine [OF assms(1) jl])
    with j have "snd g \<noteq> None" by (auto simp: goroutine_ok_def)
    with stuck_prog [OF stuck [OF jl] g] g show False by (auto simp: goroutine_ok_def)
  qed
  have "\<exists>a. sy_progs c ! i = Done a" if i: "i < length (sy_progs c)" for i
  proof -
    obtain g where g: "goroutine_ok opts (sy_shared c) i (sy_progs c ! i) g"
      by (rule sys_inv_goroutine [OF assms(1) i])
    from stuck_prog [OF stuck [OF i] g] free show ?thesis by auto
  qed
  then have "all_done c" using free by (auto simp: all_done_def in_set_conv_nth)
  with assms(2) show False by blast
qed

lemma sys_reach_steps: "(sys_step opts W)\<^sup>*\<^sup>* c c' \<Longrightarrow> sys_reach opts W c \<Longrightarrow> sys_reach opts W c'"
  by (induction rule: rtranclp_induct) (auto intro: reach_step)

lemma reaches_done:
  assumes "sys_reach opts W c"
  shows "\<exists>c'. (sys_step opts W)\<^sup>*\<^sup>* c c' \<and> all_done c'"
  using wf_sys_step [of opts W] assms
proof (induction c rule: wf_induct_rule)
  case (less c)
  show ?case
  proof (cases "all_done c")
    case False
    with no_deadlock [OF sys_reach_inv [OF less.prems]] obtain c' where "sys_step opts W c c'" by blast
    with less.IH [of c'] less.prems show ?thesis
      by (auto intro: converse_rtranclp_into_rtranclp reach_step)
  qed auto
qed

section \<open>Properties\<close>

text \<open>
  C15. The programs that interleave are the handlers: a request that nobody disturbs
  has exactly one outcome, the one the functions \<open>ListRecords\<close> and \<open>ApplyChanges\<close>
  compute, result, messages and final state alike, and it leaves every mutex free.
\<close>

theorem undisturbed_request_exact:
  "(alone opts W i (s, Map.empty) (prog_of opts CallList) a c \<longleftrightarrow>
     a = Listed (fst (ListRecords opts W s)) \<and> c = (snd (ListRecords opts W s), Map.empty)) \<and>
   (alone opts W i (s, Map.empty) (prog_of opts (CallApply ch)) a c \<longleftrightarrow>
     a = Applied (fst (ApplyChanges opts W s ch)) \<and> c = (snd (ApplyChanges opts W s ch), Map.empty))"
  using ListRecords_alone [of Map.empty opts W i s Listed] ApplyChanges_alone [of Map.empty opts W i s ch Applied]
  by (auto dest: alone_deterministic)


text \<open>
  C12. No request is lost in a deadlock: from every reachable state, with any number
  of requests in flight, a schedule stops only when every request has its result
  and every mutex is free again; and there is such a schedule.
\<close>

theorem every_request_completes:
  assumes "sys_reach opts W c"
  shows "(\<exists>c'. (sys_step opts W)\<^sup>*\<^sup>* c c' \<and> all_done c') \<and>
    (\<forall>c'. (sys_step opts W)\<^sup>*\<^sup>* c c' \<and> (\<nexists>c''. sys_step opts W c' c'') \<longrightarrow> all_done c')"
  using reaches_done [OF assms] no_deadlock [OF sys_reach_inv] sys_reach_steps [OF _ assms] by blast

definition rush :: conc_sys where
  "rush = \<lparr>sy_shared = (New two_zones, Map.empty),
     sy_progs = map (prog_of two_zones) [CallApply x_changes, CallList, CallApply x_changes]\<rparr>"

lemma rush_reached: "sys_reach two_zones quiet_world rush"
proof -
  let ?c = "\<lambda>cs. \<lparr>sy_shared = (New two_zones, Map.empty), sy_progs = map (prog_of two_zones) cs\<rparr>"
  have add: "sys_reach two_zones quiet_world (?c cs) \<Longrightarrow> sys_reach two_zones quiet_world (?c (cs @ [call]))" for cs call
    using reach_arrive [of two_zones quiet_world "?c cs" call] by simp
  have "sys_reach two_zones quiet_world (?c [])"
    using reach_init [of two_zones quiet_world] by (simp add: sys_init_def)
  from add [OF add [OF add [OF this, of "CallApply x_changes"], of CallList], of "CallApply x_changes"]
  show ?thesis by (simp add: rush_def)
qed

theorem every_request_completes_witness:
  "\<exists>c. (sys_step two_zones quiet_world)\<^sup>*\<^sup>* rush c \<and> all_done c"
  using every_request_completes [OF rush_reached] by blast

text \<open>
  C16. The shared state stays consistent under every interleaving of any number of
  requests: the breaker's books agree, zones do not share a mutex, pins are
  configured DCs, only configured zones are cached, and a held mutex belongs to a
  request still in flight.
\<close>

theorem interleaved_state_consistent:
  assumes "sys_reach opts W c"
  shows "breaker_inv (o_breaker (fst (sy_shared c))) \<and> locks_ok (o_zlocks (fst (sy_shared c))) \<and>
    (\<forall>z dc. pins_Get (o_pins (fst (sy_shared c))) z = Some dc \<longrightarrow> dc \<in> set (opt_Hosts opts)) \<and>
    (\<forall>z. cache_Get (o_cache (fst (sy_shared c))) z \<noteq> None \<longrightarrow> z \<in> set (opt_Zones opts)) \<and>
    (\<forall>m i. snd (sy_shared c) m = Some i \<longrightarrow> i < length (sy_progs c) \<and> (\<nexists>a. sy_progs c ! i = Done a))"
proof -
  note inv = sys_reach_inv [OF assms]
  have "\<nexists>a. sy_progs c ! i = Done a" if "snd (sy_shared c) m = Some i" for m i
  proof -
    have "i < length (sy_progs c)" using inv that by (auto simp: sys_inv_def)
    from sys_inv_goroutine [OF inv this] obtain g where "goroutine_ok opts (sy_shared c) i (sy_progs c ! i) g" .
    with that show ?thesis by (auto simp: goroutine_ok_def)
  qed
  with inv show ?thesis by (auto simp: sys_inv_def orch_inv_def)
qed

text \<open>A run of the goroutine \<open>i\<close> for some steps, and where it stands then.\<close>

fun solo :: "Options \<Rightarrow> world \<Rightarrow> nat \<Rightarrow> nat \<Rightarrow> conc_sys \<Rightarrow> conc_sys" where
  "solo opts W i 0 c = c"
| "solo opts W i (Suc n) c =
     (case prog_step opts W i (sy_shared c) (sy_progs c ! i) of
        None \<Rightarrow> c
      | Some (sh, p) \<Rightarrow> solo opts W i n \<lparr>sy_shared = sh, sy_progs = (sy_progs c)[i := p]\<rparr>)"

lemma solo_reach: "sys_reach opts W c \<Longrightarrow> i < length (sy_progs c) \<Longrightarrow> sys_reach opts W (solo opts W i n c)"
proof (induction n arbitrary: c)
  case (Suc n)
  then show ?case by (auto split: option.splits intro!: Suc.IH intro: reach_step sys_run)
qed simp

definition updating :: "outcome prog \<Rightarrow> string option" where
  "updating p = (case p of Update dc z ps cs k \<Rightarrow> Some z | _ \<Rightarrow> None)"

theorem interleaved_state_consistent_witness:
  "breaker_inv (o_breaker (fst (sy_shared (solo two_zones quiet_world 1 9 rush)))) \<and>
   locks_ok (o_zlocks (fst (sy_shared (solo two_zones quiet_world 1 9 rush))))"
  using interleaved_state_consistent [OF solo_reach [OF rush_reached, of 1 9]] by (simp add: rush_def)

text \<open>
  C13. UPDATEs for one zone never race: among all requests in flight, at most one is
  about to send an UPDATE for a given zone, it holds that zone's mutex, and it sends
  it to a configured DC.
\<close>

theorem zone_updates_serialised:
  assumes "sys_reach opts W c" "i < length (sy_progs c)" "sy_progs c ! i = Update dc z ps cs k"
  shows "(\<exists>m. zl_locks (o_zlocks (fst (sy_shared c))) z = Some m \<and> snd (sy_shared c) (ZoneMu m) = Some i) \<and>
    dc \<in> set (opt_Hosts opts) \<and>
    (\<forall>j < length (sy_progs c). updating (sy_progs c ! j) = Some z \<longrightarrow> j = i)"
proof -
  note inv = sys_reach_inv [OF assms(1)]
  obtain m where m: "zl_locks (o_zlocks (fst (sy_shared c))) z = Some m" "snd (sy_shared c) (ZoneMu m) = Some i"
    "dc \<in> set (opt_Hosts opts)"
    by (rule update_holds [OF inv assms(2,3)])
  have "j = i" if j: "j < length (sy_progs c)" "updating (sy_progs c ! j) = Some z" for j
  proof -
    from j(2) obtain dc' ps' cs' k' where "sy_progs c ! j = Update dc' z ps' cs' k'"
      by (auto simp: updating_def split: prog.splits)
    from update_holds [OF inv j(1) this] m show ?thesis by (metis option.inject)
  qed
  with m show ?thesis by blast
qed

theorem zone_updates_serialised_witness:
  "\<exists>c z. sys_reach two_zones quiet_world c \<and> updating (sy_progs c ! 0) = Some z \<and>
     (\<forall>j < length (sy_progs c). updating (sy_progs c ! j) = Some z \<longrightarrow> j = 0)"
proof -
  let ?c = "solo two_zones quiet_world 0 7 rush"
  have "updating (sy_progs ?c ! 0) \<noteq> None" by code_simp
  then obtain dc z ps cs k where u: "sy_progs ?c ! 0 = Update dc z ps cs k"
    by (auto simp: updating_def split: prog.splits)
  have r: "sys_reach two_zones quiet_world ?c" by (rule solo_reach [OF rush_reached]) (simp add: rush_def)
  have "0 < length (sy_progs ?c)" by code_simp
  note one = zone_updates_serialised [OF r this u]
  show ?thesis
  proof (intro exI conjI)
    show "sys_reach two_zones quiet_world ?c" by (rule r)
    show "updating (sy_progs ?c ! 0) = Some z" unfolding updating_def u by (simp only: prog.case)
    show "\<forall>j < length (sy_progs ?c). updating (sy_progs ?c ! j) = Some z \<longrightarrow> j = 0" using one by blast
  qed
qed

end
