(* ===== verification/ConcurrentListing.thy ===== *)
theory ConcurrentListing
  imports Interleavings "HOL-Library.Sublist"
begin

text \<open>
  What a listing answers while other requests run.  Its program keeps the records
  it received in local variables, so the reply is the view of the transfers this
  very request made, whatever the others do to cache, pins and breaker meanwhile.
\<close>

type_synonym transfers = "(string \<times> Record list) list"

definition view_of :: "Options \<Rightarrow> transfers \<Rightarrow> Endpoint option list" where
  "view_of opts got = concat (map (\<lambda>(z, recs). endpointsFromRecords opts recs z) got)"

text \<open>A zone's records as some configured DC answered them between two times.\<close>

definition answered :: "Options \<Rightarrow> world \<Rightarrow> nat \<Rightarrow> nat \<Rightarrow> string \<times> Record list \<Rightarrow> bool" where
  "answered opts W lo hi zr \<longleftrightarrow> (\<exists>n. lo \<le> n \<and> n < hi \<and> (\<exists>dc \<in> set (opt_Hosts opts).
     rr_OK (w_AXFR W n dc (opt_Port opts) (fst zr)) \<and>
     snd zr = rr_Records (w_AXFR W n dc (opt_Port opts) (fst zr))))"

lemma answered_mono: "answered opts W lo hi zr \<Longrightarrow> hi \<le> hi' \<Longrightarrow> answered opts W lo hi' zr"
  unfolding answered_def by (meson less_le_trans)

text \<open>
  A program that has received the transfers \<open>got\<close> and, whatever answers follow,
  ends a listing with the view of all it received, at most one per zone and in
  the configured order.
\<close>

primrec replies :: "Options \<Rightarrow> outcome prog \<Rightarrow> transfers \<Rightarrow> bool" where
  "replies opts (Done a) = (\<lambda>got. \<forall>out. a = Listed (Ok out) \<longrightarrow>
     out = view_of opts got \<and> subseq (map fst got) (opt_Zones opts))"
| "replies opts (Act x p) = replies opts p"
| "replies opts (Probe dc k) = (\<lambda>got. \<forall>b. replies opts (k b) got)"
| "replies opts (CtxErr k) = (\<lambda>got. \<forall>e. replies opts (k e) got)"
| "replies opts (PinGet z k) = (\<lambda>got. \<forall>e. replies opts (k e) got)"
| "replies opts (CacheGet z k) = (\<lambda>got. \<forall>e. replies opts (k e) got)"
| "replies opts (Axfr dc z k) = (\<lambda>got. \<forall>r.
     replies opts (k r) (if rr_OK r then got @ [(z, rr_Records r)] else got))"
| "replies opts (Update dc z ps cs k) = (\<lambda>got. \<forall>r. replies opts (k r) got)"
| "replies opts (Range ks k) = (\<lambda>got. \<forall>zs. replies opts (k zs) got)"
| "replies opts (LockFor z k) = (\<lambda>got. \<forall>m. replies opts (k m) got)"
| "replies opts (Lock m p) = replies opts p"
| "replies opts (Unlock m p) = replies opts p"

lemma replies_available: "(\<And>av. replies opts (k av) got) \<Longrightarrow> replies opts (available_prog out dcs k) got"
  by (induction dcs arbitrary: out) auto

lemma replies_axfr:
  "(\<And>recs dc t. replies opts (k (Ok (recs, dc)) t) (got @ [(zone, recs)])) \<Longrightarrow>
     (\<And>e t. replies opts (k (Err e) t) got) \<Longrightarrow> replies opts (axfr_prog zone tried le dcs k) got"
  by (induction dcs arbitrary: tried le) (auto split: option.splits)

lemma view_of_append: "view_of opts (g @ h) = view_of opts g @ view_of opts h"
  by (simp add: view_of_def)

lemma view_of_Cons: "view_of opts ((z, recs) # g) = endpointsFromRecords opts recs z @ view_of opts g"
  by (simp add: view_of_def)

lemma replies_list:
  "(\<And>t su more. subseq (map fst more) zones \<Longrightarrow> replies opts (k t su (out @ view_of opts more)) (got @ more)) \<Longrightarrow>
     replies opts (list_prog opts av tried suc out zones k) got"
proof (induction zones arbitrary: tried suc out got)
  case Nil
  show ?case using Nil [of "[]"] by (simp add: view_of_def)
next
  case (Cons zone zones)
  have skip: "replies opts (k t su (out @ view_of opts more)) (got @ more)" if "subseq (map fst more) zones" for t su more
    by (intro Cons.prems list_emb_Cons that)
  have take: "replies opts (k t su ((out @ endpointsFromRecords opts recs zone) @ view_of opts more))
      ((got @ [(zone, recs)]) @ more)" if "subseq (map fst more) zones" for recs t su more
    using Cons.prems [of "(zone, recs) # more"] that by (simp add: view_of_Cons)
  show ?case
    by (auto intro!: replies_axfr Cons.IH skip take)
qed

lemma replies_book: "replies opts k got \<Longrightarrow> replies opts (book_prog suc dcs k) got"
  by (induction dcs) auto

lemma replies_update: "(\<And>r. replies opts (k r) got) \<Longrightarrow> replies opts (update_prog zone cs n lf dcs k) got"
  by (induction dcs arbitrary: lf) (auto split: option.splits)

lemma replies_apply: "replies opts (apply_prog opts m fe zones Applied) got"
proof (induction zones arbitrary: fe)
  case (Cons zone zones)
  then show ?case
    by (auto simp: applyZone_prog_def Let_def intro!: replies_available replies_update split: option.splits go.splits)
qed simp

lemma replies_prog_of: "replies opts (prog_of opts call) []"
proof (cases call)
  case CallList
  have "replies opts (Done (Listed (Ok (view_of opts more)))) more" if "subseq (map fst more) (opt_Zones opts)" for more
    using that by simp
  then show ?thesis
    by (auto simp: CallList ListRecords_prog_def view_of_def [of opts "[]"]
        intro!: replies_available replies_list replies_book)
next
  case (CallApply ch)
  then show ?thesis by (simp add: ApplyChanges_prog_def Let_def replies_apply)
qed

section \<open>In any interleaving\<close>

text \<open>Requests arrive and run; the clock of the world's answers never goes back.\<close>

inductive sys_next :: "Options \<Rightarrow> world \<Rightarrow> conc_sys \<Rightarrow> conc_sys \<Rightarrow> bool" for opts W where
  next_arrive: "sys_next opts W c (c\<lparr>sy_progs := sy_progs c @ [prog_of opts call]\<rparr>)"
| next_step: "sys_step opts W c c' \<Longrightarrow> sys_next opts W c c'"

inductive_cases sys_nextE: "sys_next opts W c c'"

abbreviation clock :: "conc_sys \<Rightarrow> nat" where
  "clock c \<equiv> o_tick (fst (sy_shared c))"

lemma sys_next_reach: "sys_reach opts W c \<Longrightarrow> sys_next opts W c c' \<Longrightarrow> sys_reach opts W c'"
  by (auto elim!: sys_nextE intro: reach_arrive reach_step)

lemma act_clock: "o_tick s \<le> o_tick (act W x s)"
  by (cases x) simp_all

lemma prog_step_clock:
  assumes "prog_step opts W i (s, own) p = Some ((s', own'), p')"
  shows "o_tick s \<le> o_tick s'"
  using assms by (cases p) (auto simp: act_clock probe_def split: prod.splits option.splits)

lemma sys_step_clock:
  assumes "sys_step opts W c c'"
  shows "clock c \<le> clock c'"
  using assms
proof cases
  case (sys_run i sh p)
  then show ?thesis
    by (cases "sy_shared c"; cases sh) (simp add: prog_step_clock)
qed

lemma sys_next_clock: "sys_next opts W c c' \<Longrightarrow> clock c \<le> clock c'"
  by (auto elim!: sys_nextE dest: sys_step_clock)

definition replies_own :: "Options \<Rightarrow> world \<Rightarrow> nat \<Rightarrow> nat \<Rightarrow> outcome prog \<Rightarrow> bool" where
  "replies_own opts W lo hi p \<longleftrightarrow> (\<exists>got. replies opts p got \<and> list_all (answered opts W lo hi) got)"

lemma replies_own_mono: "replies_own opts W lo hi p \<Longrightarrow> hi \<le> hi' \<Longrightarrow> replies_own opts W lo hi' p"
  by (auto simp: replies_own_def list_all_iff intro: answered_mono)

lemma replies_own_new: "replies_own opts W lo hi (prog_of opts call)"
  using replies_prog_of [of opts call] by (auto simp: replies_own_def intro!: exI [of _ "[]"])

lemma replies_own_step:
  assumes "prog_step opts W i (s, own) p = Some ((s', own'), p')" "replies_own opts W lo (o_tick s) p"
    and "goroutine_ok opts (s, own) i p g" "lo \<le> o_tick s"
  shows "replies_own opts W lo (o_tick s') p'"
proof -
  note le = prog_step_clock [OF assms(1)]
  from replies_own_mono [OF assms(2) le] obtain got where
    got: "replies opts p got" "list_all (answered opts W lo (o_tick s')) got"
    by (auto simp: replies_own_def)
  show ?thesis
  proof (cases p)
    case (Axfr dc z k)
    let ?r = "w_AXFR W (o_tick s) dc (opt_Port opts) z"
    have p': "p' = k ?r" "o_tick s' = Suc (o_tick s)" using assms(1) by (auto simp: Axfr)
    have "dc \<in> set (opt_Hosts opts)" using assms(3) by (simp add: goroutine_ok_def Axfr)
    then have "rr_OK ?r \<Longrightarrow> answered opts W lo (o_tick s') (z, rr_Records ?r)"
      using assms(4) p'(2) by (auto simp: answered_def intro!: exI [of _ "o_tick s"])
    with got p'(1) show ?thesis
      by (auto simp: replies_own_def Axfr intro!: exI [of _ "if rr_OK ?r then got @ [(z, rr_Records ?r)] else got"])
  qed (use assms(1) got in \<open>auto simp: replies_own_def split: prod.splits option.splits\<close>)
qed

text \<open>Every request that arrives after \<open>c0\<close> replies from transfers made after \<open>c0\<close>.\<close>

definition own_since :: "Options \<Rightarrow> world \<Rightarrow> conc_sys \<Rightarrow> conc_sys \<Rightarrow> bool" where
  "own_since opts W c0 c \<longleftrightarrow> sys_reach opts W c \<and> clock c0 \<le> clock c \<and> length (sy_progs c0) \<le> length (sy_progs c) \<and>
     (\<forall>i. length (sy_progs c0) \<le> i \<longrightarrow> i < length (sy_progs c) \<longrightarrow>
        replies_own opts W (clock c0) (clock c) (sy_progs c ! i))"

lemma own_since_next:
  assumes "own_since opts W c0 c" "sys_next opts W c c'"
  shows "own_since opts W c0 c'"
proof -
  note c = assms(1) [unfolded own_since_def]
  note le = sys_next_clock [OF assms(2)] and r = sys_next_reach [OF conjunct1 [OF c] assms(2)]
  from assms(2) show ?thesis
  proof cases
    case (next_arrive call)
    then show ?thesis
      using c r by (auto simp: own_since_def nth_append less_Suc_eq replies_own_new)
  next
    case next_step
    then show ?thesis
    proof cases
      case (sys_run j sh p)
      obtain s own where s: "sy_shared c = (s, own)" by fastforce
      obtain s' own' where s': "sh = (s', own')" by fastforce
      obtain g where g: "goroutine_ok opts (s, own) j (sy_progs c ! j) g"
        by (rule sys_inv_goroutine [OF sys_reach_inv [OF conjunct1 [OF c]] sys_run(2), unfolded s])
      have new: "replies_own opts W (clock c0) (o_tick s') p" if "length (sy_progs c0) \<le> j"
        using replies_own_step [OF sys_run(3) [unfolded s s'] _ g] c that sys_run(2) by (simp add: s)
      have old: "replies_own opts W (clock c0) (o_tick s') (sy_progs c ! i)"
        if "length (sy_progs c0) \<le> i" "i < length (sy_progs c)" for i
        using c that le by (auto simp: sys_run(1) s' intro: replies_own_mono)
      show ?thesis
        unfolding own_since_def
      proof (intro conjI allI impI)
        show "sys_reach opts W c'" by (rule r)
        show "clock c0 \<le> clock c'" "length (sy_progs c0) \<le> length (sy_progs c')"
          using c le by (simp_all add: sys_run(1))
        show "replies_own opts W (clock c0) (clock c') (sy_progs c' ! i)"
          if "length (sy_progs c0) \<le> i" "i < length (sy_progs c')" for i
          using that new old [of i] by (cases "i = j") (simp_all add: sys_run(1) s')
      qed
    qed
  qed
qed

lemma own_since_later: "(sys_next opts W)\<^sup>*\<^sup>* c0 c \<Longrightarrow> sys_reach opts W c0 \<Longrightarrow> own_since opts W c0 c"
proof (induction rule: rtranclp_induct)
  case base
  then show ?case by (simp add: own_since_def)
next
  case (step c c')
  then show ?case by (blast intro: own_since_next)
qed

section \<open>Properties\<close>

text \<open>
  C14. A listing is fresh and undisturbed, however many other requests run before,
  beside and after it: the endpoints a request returns are rebuilt from transfers
  that configured DCs answered after the request arrived, one per zone at most and
  in the configured order, never from what another request left in the cache.
\<close>

theorem listing_from_own_transfers:
  assumes "sys_reach opts W c0" "(sys_next opts W)\<^sup>*\<^sup>* c0 c" "length (sy_progs c0) \<le> i" "i < length (sy_progs c)"
    and "sy_progs c ! i = Done (Listed (Ok out))"
  shows "\<exists>got. out = concat (map (\<lambda>(z, recs). endpointsFromRecords opts recs z) got) \<and>
    subseq (map fst got) (opt_Zones opts) \<and> (\<forall>zr \<in> set got. answered opts W (clock c0) (clock c) zr)"
proof -
  have "replies_own opts W (clock c0) (clock c) (sy_progs c ! i)"
    using own_since_later [OF assms(2,1)] assms(3,4) by (simp add: own_since_def)
  with assms(5) show ?thesis by (auto simp: replies_own_def view_of_def list_all_iff)
qed

definition finished :: "outcome prog \<Rightarrow> outcome option" where
  "finished p = (case p of Done a \<Rightarrow> Some a | _ \<Rightarrow> None)"

lemma solo_next: "i < length (sy_progs c) \<Longrightarrow> (sys_next opts W)\<^sup>*\<^sup>* c (solo opts W i n c)"
proof (induction n arbitrary: c)
  case (Suc n)
  show ?case
  proof (cases "prog_step opts W i (sy_shared c) (sy_progs c ! i)")
    case (Some q)
    obtain sh p where q: "q = (sh, p)" by fastforce
    let ?c = "\<lparr>sy_shared = sh, sy_progs = (sy_progs c)[i := p]\<rparr>"
    have "sys_next opts W c ?c" using Suc.prems Some q by (intro next_step sys_run) simp_all
    moreover have "(sys_next opts W)\<^sup>*\<^sup>* ?c (solo opts W i n ?c)" using Suc.prems by (intro Suc.IH) simp
    ultimately show ?thesis using Some q by (simp add: converse_rtranclp_into_rtranclp)
  qed simp
qed simp

theorem listing_from_own_transfers_witness:
  "\<exists>out got. finished (sy_progs (solo two_zones quiet_world 3 30
        (rush\<lparr>sy_progs := sy_progs rush @ [prog_of two_zones CallList]\<rparr>)) ! 3) = Some (Listed (Ok out)) \<and>
     out = concat (map (\<lambda>(z, recs). endpointsFromRecords two_zones recs z) got) \<and>
     subseq (map fst got) (opt_Zones two_zones)"
proof -
  let ?r = "rush\<lparr>sy_progs := sy_progs rush @ [prog_of two_zones CallList]\<rparr>"
  let ?c = "solo two_zones quiet_world 3 30 ?r"
  have "case finished (sy_progs ?c ! 3) of Some (Listed (Ok out)) \<Rightarrow> True | _ \<Rightarrow> False" by code_simp
  then obtain out where u: "sy_progs ?c ! 3 = Done (Listed (Ok out))"
    by (auto simp: finished_def split: prog.splits option.splits outcome.splits go.splits)
  have "(sys_next two_zones quiet_world)\<^sup>*\<^sup>* ?r ?c" by (rule solo_next) (simp add: rush_def)
  then have n: "(sys_next two_zones quiet_world)\<^sup>*\<^sup>* rush ?c"
    by (rule converse_rtranclp_into_rtranclp [rotated]) (rule next_arrive)
  have "length (sy_progs rush) \<le> 3" "3 < length (sy_progs ?c)" by code_simp+
  from listing_from_own_transfers [OF rush_reached n this u] obtain got where
    "out = concat (map (\<lambda>(z, recs). endpointsFromRecords two_zones recs z) got)" "subseq (map fst got) (opt_Zones two_zones)"
    by blast
  with u show ?thesis unfolding finished_def by (metis prog.case(1))
qed

end
