(* ===== verification/Lifecycle.thy ===== *)
theory Lifecycle
  imports Prelude
begin

text \<open>
  The end of the process: the signal context, the shutdown goroutine and
  \<open>ListenAndServe\<close> in \<open>cmd/webhook/main.go\<close>.  Three goroutines matter, the main one,
  the one that waits for the context, and those of the requests in flight;
  \<open>Server.Shutdown\<close> first closes the listener, which ends \<open>ListenAndServe\<close> at once
  with \<open>http.ErrServerClosed\<close>, and then waits for the requests.  When the main
  goroutine returns, the process is gone with whatever still runs in it.
\<close>

datatype main_pc = Serving | Exited "string option"

datatype shutdown_pc = AwaitingCtx | Draining | ShutDown

record process =
  ps_main :: main_pc
  ps_shutdown :: shutdown_pc
  ps_cancelled :: bool
  ps_listening :: bool
  ps_inflight :: "nat list"

definition process_start :: process where
  "process_start =
     \<lparr>ps_main = Serving, ps_shutdown = AwaitingCtx, ps_cancelled = False, ps_listening = True, ps_inflight = []\<rparr>"

inductive life :: "process \<Rightarrow> process \<Rightarrow> bool" where
  life_accept: "ps_main p = Serving \<Longrightarrow> ps_listening p \<Longrightarrow> r \<notin> set (ps_inflight p) \<Longrightarrow>
    life p (p\<lparr>ps_inflight := ps_inflight p @ [r]\<rparr>)"
| life_reply: "ps_main p = Serving \<Longrightarrow> r \<in> set (ps_inflight p) \<Longrightarrow>
    life p (p\<lparr>ps_inflight := remove1 r (ps_inflight p)\<rparr>)"
| life_signal: "ps_main p = Serving \<Longrightarrow> life p (p\<lparr>ps_cancelled := True\<rparr>)"
| life_shutdown: "ps_main p = Serving \<Longrightarrow> ps_shutdown p = AwaitingCtx \<Longrightarrow> ps_cancelled p \<Longrightarrow>
    life p (p\<lparr>ps_shutdown := Draining, ps_listening := False\<rparr>)"
| life_drained: "ps_main p = Serving \<Longrightarrow> ps_shutdown p = Draining \<Longrightarrow> ps_inflight p = [] \<Longrightarrow>
    life p (p\<lparr>ps_shutdown := ShutDown\<rparr>)"
| life_grace_over: "ps_main p = Serving \<Longrightarrow> ps_shutdown p = Draining \<Longrightarrow> life p (p\<lparr>ps_shutdown := ShutDown\<rparr>)"
| life_server_closed: "ps_main p = Serving \<Longrightarrow> \<not> ps_listening p \<Longrightarrow> life p (p\<lparr>ps_main := Exited None\<rparr>)"
| life_listen_error: "ps_main p = Serving \<Longrightarrow> ps_listening p \<Longrightarrow>
    life p (p\<lparr>ps_main := Exited (Some (''http: '' @ e))\<rparr>)"

inductive_cases lifeE: "life p q"

inductive lived :: "process \<Rightarrow> bool" where
  lived_start: "lived process_start"
| lived_step: "lived p \<Longrightarrow> life p q \<Longrightarrow> lived q"

text \<open>The listener is closed by the shutdown goroutine only, and that only after a signal.\<close>

definition life_inv :: "process \<Rightarrow> bool" where
  "life_inv p \<longleftrightarrow> (ps_listening p \<longleftrightarrow> ps_shutdown p = AwaitingCtx) \<and>
     (ps_shutdown p \<noteq> AwaitingCtx \<longrightarrow> ps_cancelled p) \<and>
     (ps_main p = Exited None \<longrightarrow> \<not> ps_listening p) \<and> distinct (ps_inflight p)"

lemma lived_inv: "lived p \<Longrightarrow> life_inv p"
proof (induction rule: lived.induct)
  case lived_start
  then show ?case by (simp add: life_inv_def process_start_def)
next
  case (lived_step p q)
  from lived_step.hyps(2) lived_step.IH show ?case
    by cases (auto simp: life_inv_def)
qed

section \<open>Properties\<close>

text \<open>
  The process ends by itself only when told to or when it cannot serve: it
  exits with success only after a signal, with the listener closed by the shutdown
  goroutine, and the only other exit reports the error of the listener.
\<close>

theorem exits_only_when_told:
  assumes "lived p" "ps_main p = Exited e"
  shows "case e of
      None \<Rightarrow> ps_cancelled p \<and> \<not> ps_listening p \<and> ps_shutdown p \<noteq> AwaitingCtx
    | Some m \<Rightarrow> \<exists>msg. m = ''http: '' @ msg"
proof -
  have "\<exists>msg. m = ''http: '' @ msg" if "lived p" "ps_main p = Exited (Some m)" for m
    using that
  proof (induction rule: lived.induct)
    case (lived_step p q)
    from lived_step.hyps(2) lived_step.IH lived_step.prems show ?case
      by cases auto
  qed (simp add: process_start_def)
  with assms lived_inv [OF assms(1)] show ?thesis by (auto simp: life_inv_def split: option.splits)
qed

theorem exits_only_when_told_witness:
  "\<exists>p. lived p \<and> ps_main p = Exited None \<and> ps_cancelled p"
proof -
  let ?p3 = "process_start\<lparr>ps_cancelled := True, ps_shutdown := Draining, ps_listening := False\<rparr>"
  have "life process_start (process_start\<lparr>ps_cancelled := True\<rparr>)"
    by (rule life_signal) (simp add: process_start_def)
  from lived_step [OF lived_start this] have "lived (process_start\<lparr>ps_cancelled := True\<rparr>)" .
  moreover have "life (process_start\<lparr>ps_cancelled := True\<rparr>) ?p3"
    using life_shutdown [of "process_start\<lparr>ps_cancelled := True\<rparr>"] by (simp add: process_start_def)
  ultimately have "lived ?p3" by (rule lived_step)
  moreover have "life ?p3 (?p3\<lparr>ps_main := Exited None\<rparr>)" by (rule life_server_closed) (simp_all add: process_start_def)
  ultimately have l: "lived (?p3\<lparr>ps_main := Exited None\<rparr>)" by (rule lived_step)
  from exits_only_when_told [OF this, of None] l show ?thesis
    by (intro exI [of _ "?p3\<lparr>ps_main := Exited None\<rparr>"]) simp
qed

text \<open>
  The five seconds of grace are not kept: the program can exit with success
  while requests are still being served and the grace period has not run out,
  because \<open>main\<close> returns as soon as the listener is closed.
\<close>

theorem shutdown_cuts_requests:
  "\<exists>p. lived p \<and> ps_main p = Exited None \<and> ps_shutdown p = Draining \<and> ps_inflight p = [r]"
proof -
  let ?p1 = "process_start\<lparr>ps_inflight := [r]\<rparr>"
  let ?p2 = "?p1\<lparr>ps_cancelled := True\<rparr>"
  let ?p3 = "?p2\<lparr>ps_shutdown := Draining, ps_listening := False\<rparr>"
  let ?p4 = "?p3\<lparr>ps_main := Exited None\<rparr>"
  have "life process_start ?p1" using life_accept [of process_start r] by (simp add: process_start_def)
  from lived_step [OF lived_start this] have "lived ?p1" .
  moreover have "life ?p1 ?p2" by (rule life_signal) (simp add: process_start_def)
  ultimately have "lived ?p2" by (rule lived_step)
  moreover have "life ?p2 ?p3" by (rule life_shutdown) (simp_all add: process_start_def)
  ultimately have "lived ?p3" by (rule lived_step)
  moreover have "life ?p3 ?p4" by (rule life_server_closed) (simp_all add: process_start_def)
  ultimately have "lived ?p4" by (rule lived_step)
  then show ?thesis by (intro exI [of _ ?p4]) simp
qed

end
