(* ===== verification/ConcurrentUpdates.thy ===== *)
theory ConcurrentUpdates
  imports ConcurrentListing
begin

text \<open>
  What may be sent while any number of requests run: every UPDATE on the wire is the
  change set built for one zone's share of one request that was posted, against the
  cache entry its program read, and every cache entry is what some configured DC
  answered to an earlier transfer.
\<close>

section \<open>What a program may send\<close>

text \<open>
  \<open>K z recs\<close>: \<open>recs\<close> is a known content of zone \<open>z\<close>; \<open>G z ps cs\<close>: the UPDATE may be
  sent.  A program that only reads and learns known contents caches only known
  contents and sends only permitted UPDATEs.
\<close>

type_synonym known_content = "string \<Rightarrow> Record list \<Rightarrow> bool"
type_synonym permitted = "string \<Rightarrow> Prereq list \<Rightarrow> Change list \<Rightarrow> bool"

primrec sends :: "known_content \<Rightarrow> permitted \<Rightarrow> 'a prog \<Rightarrow> bool" where
  "sends K G (Done a) = True"
| "sends K G (Act x p) = ((case x of CachePut z recs \<Rightarrow> K z recs | _ \<Rightarrow> True) \<and> sends K G p)"
| "sends K G (Probe dc k) = (\<forall>b. sends K G (k b))"
| "sends K G (CtxErr k) = (\<forall>e. sends K G (k e))"
| "sends K G (PinGet z k) = (\<forall>e. sends K G (k e))"
| "sends K G (CacheGet z k) = (\<forall>e. pred_option (K z) e \<longrightarrow> sends K G (k e))"
| "sends K G (Axfr dc z k) = (\<forall>r. (rr_OK r \<longrightarrow> K z (rr_Records r)) \<longrightarrow> sends K G (k r))"
| "sends K G (Update dc z ps cs k) = (G z ps cs \<and> (\<forall>r. sends K G (k r)))"
| "sends K G (Range ks k) = (\<forall>zs. sends K G (k zs))"
| "sends K G (LockFor z k) = (\<forall>m. sends K G (k m))"
| "sends K G (Lock m p) = sends K G p"
| "sends K G (Unlock m p) = sends K G p"

lemma sends_available: "(\<And>av. sends K G (k av)) \<Longrightarrow> sends K G (available_prog out dcs k)"
  by (induction dcs arbitrary: out) auto

lemma sends_axfr:
  "(\<And>recs dc t. K zone recs \<Longrightarrow> sends K G (k (Ok (recs, dc)) t)) \<Longrightarrow> (\<And>e t. sends K G (k (Err e) t)) \<Longrightarrow>
     sends K G (axfr_prog zone tried le dcs k)"
  by (induction dcs arbitrary: tried le) (auto split: option.splits)

lemma sends_list:
  "(\<And>t su out. sends K G (k t su out)) \<Longrightarrow> sends K G (list_prog opts av tried suc out zones k)"
  by (induction zones arbitrary: tried suc out) (auto intro!: sends_axfr)

lemma sends_book: "sends K G k \<Longrightarrow> sends K G (book_prog suc dcs k)"
  by (induction dcs) auto

lemma sends_update:
  "G zone (cs_prereqs cs) (cs_changes cs) \<Longrightarrow> (\<And>r. sends K G (k r)) \<Longrightarrow>
     sends K G (update_prog zone cs n lf dcs k)"
  by (induction dcs arbitrary: lf) (auto split: option.splits)

lemma sends_applyZone:
  "G zone (cs_prereqs cs) (cs_changes cs) \<Longrightarrow> (\<And>r. sends K G (k r)) \<Longrightarrow>
     sends K G (applyZone_prog opts zone cs k)"
  by (auto simp: applyZone_prog_def Let_def intro!: sends_available sends_update)

text \<open>The change set of a request's share of a zone, against what its entry can be.\<close>

definition change_set_of ::
  "Options \<Rightarrow> known_content \<Rightarrow> Changes \<Rightarrow> string \<Rightarrow> zoneChangeSet \<Rightarrow> bool" where
  "change_set_of opts K ch z cs \<longleftrightarrow> \<not> opt_DryRun opts \<and> cs_changes cs \<noteq> [] \<and> z \<in> set (opt_Zones opts) \<and>
     (\<exists>entry. pred_option (K z) entry \<and>
        (let ops = share_of opts ch z
         in buildZoneChangeSet opts (cache_entry z entry) z
              (zo_create ops) (zo_updateOld ops) (zo_updateNew ops) (zo_del ops) = Ok cs))"

lemma cs_eta: "\<lparr>cs_prereqs = cs_prereqs cs, cs_changes = cs_changes cs\<rparr> = (cs :: zoneChangeSet)"
  by simp

lemma sends_apply:
  assumes G: "\<And>z cs. change_set_of opts K ch z cs \<Longrightarrow> G z (cs_prereqs cs) (cs_changes cs)"
  shows "sends K G (apply_prog opts (groupByZone opts ch) fe zones ret)"
proof (induction zones arbitrary: fe)
  case (Cons zone zones)
  have "change_set_of opts K ch zone cs"
    if "map_of (groupByZone opts ch) zone = Some ops" "pred_option (K zone) e" "cs_changes cs \<noteq> []" "\<not> opt_DryRun opts"
      "buildZoneChangeSet opts (cache_entry zone e) zone
        (zo_create ops) (zo_updateOld ops) (zo_updateNew ops) (zo_del ops) = Ok cs" for ops e cs
    using that groupByZone_share [OF that(1)]
    by (auto simp: change_set_of_def entry_ok_def Let_def intro!: exI [of _ e])
  then show ?case
    using Cons.IH by (auto intro!: sends_applyZone G split: option.splits go.splits)
qed simp

lemma sends_prog_of:
  assumes "\<And>ch z cs. call = CallApply ch \<Longrightarrow> change_set_of opts K ch z cs \<Longrightarrow> G z (cs_prereqs cs) (cs_changes cs)"
  shows "sends K G (prog_of opts call)"
proof (cases call)
  case CallList
  then show ?thesis
    by (auto simp: ListRecords_prog_def intro!: sends_available sends_list sends_book)
next
  case (CallApply ch)
  with assms show ?thesis by (simp add: ApplyChanges_prog_def Let_def sends_apply)
qed

section \<open>Runs that serve given requests\<close>

text \<open>The requests posted so far are among \<open>C\<close>; listings are always served.\<close>

inductive served :: "Options \<Rightarrow> world \<Rightarrow> Changes set \<Rightarrow> conc_sys \<Rightarrow> bool" for opts W C where
  served_init: "served opts W C (sys_init opts)"
| served_arrive: "served opts W C c \<Longrightarrow> (\<And>ch. call = CallApply ch \<Longrightarrow> ch \<in> C) \<Longrightarrow>
    served opts W C (c\<lparr>sy_progs := sy_progs c @ [prog_of opts call]\<rparr>)"
| served_step: "served opts W C c \<Longrightarrow> sys_step opts W c c' \<Longrightarrow> served opts W C c'"

lemma served_reach: "served opts W C c \<Longrightarrow> sys_reach opts W c"
  by (induction rule: served.induct) (auto intro: sys_reach.intros)

lemma reach_served: "sys_reach opts W c \<Longrightarrow> served opts W UNIV c"
  by (induction rule: sys_reach.induct) (auto intro: served.intros)

text \<open>What has been learned and sent, judged with the knowledge of a later time.\<close>

definition updates_inv :: "Options \<Rightarrow> known_content \<Rightarrow> permitted \<Rightarrow> conc_sys \<Rightarrow> bool" where
  "updates_inv opts K G c \<longleftrightarrow>
     (\<forall>z. pred_option (K z) (cache_Get (o_cache (fst (sy_shared c))) z)) \<and>
     (\<forall>p \<in> set (sy_progs c). sends K G p) \<and>
     (\<forall>dc z ps cs. UpdateCall dc z ps cs \<in> set (o_wire (fst (sy_shared c))) \<longrightarrow> dc \<in> set (opt_Hosts opts) \<and> G z ps cs)"

lemma cache_entry_known:
  "(\<forall>z. pred_option (K z) (cache_Get c z)) \<Longrightarrow> K zone recs \<Longrightarrow> pred_option (K z) (cache_Get (cache_Put c zone recs) z)"
  "(\<forall>z. pred_option (K z) (cache_Get c z)) \<Longrightarrow> pred_option (K z) (cache_Get (cache_Drop c zone) z)"
  by (simp_all add: axfr_cache.get_put axfr_cache.get_drop)

lemma updates_inv_step:
  assumes "prog_step opts W i (s, own) p = Some ((s', own'), p')" "goroutine_ok opts (s, own) i p g"
    and K: "\<And>dc z. dc \<in> set (opt_Hosts opts) \<Longrightarrow> o_tick s < o_tick s' \<Longrightarrow>
      rr_OK (w_AXFR W (o_tick s) dc (opt_Port opts) z) \<Longrightarrow> K z (rr_Records (w_AXFR W (o_tick s) dc (opt_Port opts) z))"
    and "sends K G p" "\<forall>z. pred_option (K z) (cache_Get (o_cache s) z)"
    and "\<forall>dc z ps cs. UpdateCall dc z ps cs \<in> set (o_wire s) \<longrightarrow> dc \<in> set (opt_Hosts opts) \<and> G z ps cs"
  shows "sends K G p' \<and> (\<forall>z. pred_option (K z) (cache_Get (o_cache s') z)) \<and>
    (\<forall>dc z ps cs. UpdateCall dc z ps cs \<in> set (o_wire s') \<longrightarrow> dc \<in> set (opt_Hosts opts) \<and> G z ps cs)"
proof (cases p)
  case (Act x q)
  then show ?thesis using assms(1,4-6) by (cases x) (auto simp: cache_entry_known)
next
  case (Probe dc k)
  then show ?thesis
    using assms(1,4-6) probe_frame [of W s dc] by (auto split: prod.splits)
next
  case (Update dc z ps cs k)
  have "dc \<in> set (opt_Hosts opts)" using assms(2) by (simp add: goroutine_ok_def Update)
  then show ?thesis using assms(1,4-6) Update by auto
next
  case (Axfr dc z k)
  have "dc \<in> set (opt_Hosts opts)" using assms(2) by (simp add: goroutine_ok_def Axfr)
  then show ?thesis using assms(1,4-6) K [of dc z] Axfr by auto
qed (use assms(1,4-6) in \<open>auto split: prod.splits option.splits\<close>)

lemma served_updates:
  assumes "served opts W C c" "clock c \<le> T"
    and K: "\<And>z recs. answered opts W 0 T (z, recs) \<Longrightarrow> K z recs"
    and G: "\<And>ch z cs. ch \<in> C \<Longrightarrow> change_set_of opts K ch z cs \<Longrightarrow> G z (cs_prereqs cs) (cs_changes cs)"
  shows "updates_inv opts K G c"
  using assms(1,2)
proof (induction rule: served.induct)
  case served_init
  then show ?case by (simp add: updates_inv_def sys_init_def New_def axfr_cache.get_new)
next
  case (served_arrive c call)
  moreover have "sends K G (prog_of opts call)"
    by (rule sends_prog_of) (rule G [OF served_arrive.hyps(2)])
  ultimately show ?case by (auto simp: updates_inv_def)
next
  case (served_step c c')
  have "clock c \<le> T" using sys_step_clock [OF served_step.hyps(2)] served_step.prems by simp
  note inv = served_step.IH [OF this, unfolded updates_inv_def]
  from served_step.hyps(2) show ?case
  proof cases
    case (sys_run i sh p)
    obtain s own where s: "sy_shared c = (s, own)" by fastforce
    obtain s' own' where s': "sh = (s', own')" by fastforce
    obtain g where g: "goroutine_ok opts (s, own) i (sy_progs c ! i) g"
      by (rule sys_inv_goroutine [OF sys_reach_inv [OF served_reach [OF served_step.hyps(1)]] sys_run(2), unfolded s])
    have le: "o_tick s' \<le> T" using served_step.prems sys_run(1) by (simp add: s')
    have "K z (rr_Records (w_AXFR W (o_tick s) dc (opt_Port opts) z))"
      if "dc \<in> set (opt_Hosts opts)" "o_tick s < o_tick s'" "rr_OK (w_AXFR W (o_tick s) dc (opt_Port opts) z)" for dc z
      using that le by (intro K) (auto simp: answered_def intro!: exI [of _ "o_tick s"])
    from updates_inv_step [where K = K and G = G, OF sys_run(3) [unfolded s s'] g this] inv sys_run(2)
    show ?thesis
      by (auto simp: updates_inv_def sys_run(1) s s' dest!: set_update_subset_insert [THEN subsetD])
  qed
qed

lemma served_change_sets:
  assumes "served opts W C c" "UpdateCall dc z ps cs \<in> set (o_wire (fst (sy_shared c)))"
  shows "dc \<in> set (opt_Hosts opts) \<and>
    (\<exists>ch \<in> C. change_set_of opts (\<lambda>z recs. answered opts W 0 (clock c) (z, recs)) ch z
       \<lparr>cs_prereqs = ps, cs_changes = cs\<rparr>)"
proof -
  let ?K = "\<lambda>z recs. answered opts W 0 (clock c) (z, recs)"
  have "updates_inv opts ?K (\<lambda>z ps cs. \<exists>ch \<in> C. change_set_of opts ?K ch z \<lparr>cs_prereqs = ps, cs_changes = cs\<rparr>) c"
    by (rule served_updates [OF assms(1) order_refl]) (auto simp only: cs_eta)
  with assms(2) show ?thesis by (auto simp: updates_inv_def)
qed

lemma update_call_configured:
  assumes "served opts W C c" "UpdateCall dc z ps cs \<in> set (o_wire (fst (sy_shared c)))"
  shows "dc \<in> set (opt_Hosts opts) \<and> z \<in> set (opt_Zones opts) \<and> \<not> opt_DryRun opts"
  using served_change_sets [OF assms] by (auto simp: change_set_of_def)

section \<open>Properties\<close>

text \<open>
  C4. Everything sent comes from a request: in every state that any interleaving of
  posted change sets and listings can reach, each UPDATE on the wire went to a
  configured DC, outside dry-run mode, for a configured zone, and is the change
  set built from that zone's share of one posted request, against no cached records
  or against records a configured DC had answered for that very zone before.
\<close>

theorem updates_from_requests:
  assumes "served opts W C c" "UpdateCall dc z ps cs \<in> set (o_wire (fst (sy_shared c)))"
  shows "dc \<in> set (opt_Hosts opts) \<and> z \<in> set (opt_Zones opts) \<and> \<not> opt_DryRun opts \<and>
    (\<exists>ch \<in> C. \<exists>entry. pred_option (\<lambda>recs. answered opts W 0 (clock c) (z, recs)) entry \<and>
       (let ops = share_of opts ch z
        in buildZoneChangeSet opts (cache_entry z entry) z
             (zo_create ops) (zo_updateOld ops) (zo_updateNew ops) (zo_del ops) =
           Ok \<lparr>cs_prereqs = ps, cs_changes = cs\<rparr>))"
  using served_change_sets [OF assms] by (auto simp: change_set_of_def)

lemma solo_served: "served opts W C c \<Longrightarrow> i < length (sy_progs c) \<Longrightarrow> served opts W C (solo opts W i n c)"
proof (induction n arbitrary: c)
  case (Suc n)
  then show ?case by (auto split: option.splits intro!: Suc.IH intro: served_step sys_run)
qed simp

definition posted_once :: conc_sys where
  "posted_once = (sys_init two_zones)\<lparr>sy_progs := [prog_of two_zones (CallApply x_changes)]\<rparr>"

lemma posted_once_served: "served two_zones quiet_world {x_changes} posted_once"
  using served_arrive [OF served_init, of "CallApply x_changes" "{x_changes}" two_zones quiet_world]
  by (simp add: posted_once_def) (simp add: sys_init_def)

theorem updates_from_requests_witness:
  "\<exists>dc z ps cs. UpdateCall dc z ps cs \<in> set (o_wire (fst (sy_shared (solo two_zones quiet_world 0 20 posted_once)))) \<and>
     dc \<in> set (opt_Hosts two_zones)"
proof -
  let ?c = "solo two_zones quiet_world 0 20 posted_once"
  have "case o_wire (fst (sy_shared ?c)) of UpdateCall dc z ps cs # ms \<Rightarrow> True | _ \<Rightarrow> False" by code_simp
  then obtain dc z ps cs where u: "UpdateCall dc z ps cs \<in> set (o_wire (fst (sy_shared ?c)))"
    by (auto split: list.splits wire.splits)
  have "served two_zones quiet_world {x_changes} ?c"
    by (rule solo_served [OF posted_once_served]) (simp add: posted_once_def)
  from updates_from_requests [OF this u] u show ?thesis by blast
qed

end
