(* ===== verification/Isolation.thy ===== *)
theory Isolation
  imports ConcurrentUpdates
begin

text \<open>
  Several owners share a zone.  Whatever the prerequisites woven in by
  \<open>buildZoneChangeSet\<close> let a server apply, a record that is not marked with an owner
  label of the requests stays: the argument is by RRsets, so it needs of the server
  only what RFC 2136 says of every update, that it changes nothing outside the
  RRsets its changes name, and nothing at all when a prerequisite fails.
\<close>

section \<open>The server\<close>

definition touches :: "Change \<Rightarrow> string \<Rightarrow> string \<Rightarrow> bool" where
  "touches c n t \<longleftrightarrow> normalizeName (rec_Name (chg_Record c)) = normalizeName n \<and> rec_Type (chg_Record c) = t"

definition server_update :: "Record set \<Rightarrow> Prereq list \<Rightarrow> Change list \<Rightarrow> Record set \<Rightarrow> bool" where
  "server_update Z ps cs Z' \<longleftrightarrow>
     (if prereqs_hold Z (set ps)
      then \<forall>n t. (\<forall>c \<in> set cs. \<not> touches c n t) \<longrightarrow> rrset Z' n t = rrset Z n t
      else Z' = Z)"

text \<open>A server applying messages of \<open>M\<close>, in any order, any of them any number of times.\<close>

inductive server_run :: "(Prereq list \<times> Change list) set \<Rightarrow> Record set \<Rightarrow> Record set \<Rightarrow> bool" for M where
  server_start: "server_run M Z Z"
| server_apply: "server_run M Z Z1 \<Longrightarrow> (ps, cs) \<in> M \<Longrightarrow> server_update Z1 ps cs Z2 \<Longrightarrow> server_run M Z Z2"

section \<open>Whose record\<close>

text \<open>
  A TXT record is foreign to the owners \<open>Us\<close> if it is not one of their marks, any
  other record if no mark of theirs stands at its marker name.
\<close>

definition our_marks :: "string set \<Rightarrow> string set" where
  "our_marks Us = encodeOwnership ` Us"

definition foreign :: "string set \<Rightarrow> Record set \<Rightarrow> Record \<Rightarrow> bool" where
  "foreign Us Z s \<longleftrightarrow>
     (if rec_Type s = ''TXT'' then rec_Value s \<notin> our_marks Us
      else rec_Value ` rrset Z (ownershipNameFor (rec_Type s) (rec_Name s)) ''TXT'' \<inter> our_marks Us = {})"

definition owner_in :: "string set \<Rightarrow> Endpoint \<Rightarrow> bool" where
  "owner_in Us e \<longleftrightarrow> (\<forall>w. ownerFromEndpoint (Some e) = Some w \<longrightarrow> w \<in> Us)"

definition same_key :: "Record \<Rightarrow> Record \<Rightarrow> bool" where
  "same_key r s \<longleftrightarrow> normalizeName (rec_Name r) = normalizeName (rec_Name s) \<and> rec_Type r = rec_Type s"

text \<open>An update that renames nothing: what it adds has the name and type of something it takes away.\<close>

definition keeps_keys :: "Options \<Rightarrow> Endpoint \<Rightarrow> Endpoint \<Rightarrow> bool" where
  "keeps_keys opts oldE newE \<longleftrightarrow>
     (\<forall>r \<in> set (endpointToRecords opts (Some newE)). \<exists>r0 \<in> set (endpointToRecords opts (Some oldE)). same_key r0 r)"

definition key_markable :: "Record \<Rightarrow> bool" where
  "key_markable r \<longleftrightarrow> markable (rec_Type r) (rec_Name r)"

section \<open>What a change set may touch\<close>

lemma rrset_member: "s \<in> Z \<Longrightarrow> s \<in> rrset Z (rec_Name s) (rec_Type s)"
  by (simp add: rrset_def)

lemma rrset_same_name: "normalizeName m = normalizeName n \<Longrightarrow> rrset Z m t = rrset Z n t"
  by (simp add: rrset_def)

lemma marker_same_key: "same_key r s \<Longrightarrow> ownershipNameFor (rec_Type r) (rec_Name r) = ownershipNameFor (rec_Type s) (rec_Name s)"
  unfolding same_key_def using marker.enc_norm by metis

text \<open>Every change, with the prerequisite that stands for it.\<close>

lemma create_part_guard:
  assumes "c \<in> set (cs_changes (create_part opts cached e))"
  obtains r where "r \<in> set (endpointToRecords opts (Some e))" "ownerFromEndpoint (Some e) \<noteq> None"
    "nxrrset (rec_Name r) (rec_Type r) \<in> set (cs_prereqs (create_part opts cached e))"
    "chg_Record c = r \<or>
     rec_Name (chg_Record c) = ownershipNameFor (rec_Type r) (rec_Name r) \<and> rec_Type (chg_Record c) = ''TXT'' \<and>
     nxrrset (ownershipNameFor (rec_Type r) (rec_Name r)) ''TXT'' \<in> set (cs_prereqs (create_part opts cached e))"
proof -
  from assms obtain w r where wr: "(w, r) \<in> set (owned_records opts e)"
    and c: "c \<in> set (cs_changes (create_emit opts (indexByName cached) (orphanOwnership cached) w r))"
    by (auto simp: create_part_def)
  let ?e = "create_emit opts (indexByName cached) (orphanOwnership cached) w r"
  have sub: "set (cs_prereqs ?e) \<subseteq> set (cs_prereqs (create_part opts cached e))"
    using wr by (auto simp: create_part_def)
  have "nxrrset (rec_Name r) (rec_Type r) \<in> set (cs_prereqs ?e)"
    "chg_Record c = r \<or> rec_Name (chg_Record c) = ownershipNameFor (rec_Type r) (rec_Name r) \<and>
       rec_Type (chg_Record c) = ''TXT'' \<and>
       nxrrset (ownershipNameFor (rec_Type r) (rec_Name r)) ''TXT'' \<in> set (cs_prereqs ?e)"
    using c by (auto simp: create_emit_def add_rec_def txt_rec_def Let_def split: if_splits)
  with sub wr that [of r] show thesis by (auto simp: owned_records_iff)
qed

lemma build_guard:
  assumes "buildZoneChangeSet opts cache zone creates olds news dels = Ok cs" "length olds = length news"
    and "c \<in> set (cs_changes cs)"
    and keep: "\<forall>(oldE, newE) \<in> set (zip olds news). keeps_keys opts oldE newE"
    and own: "\<forall>e \<in> set olds \<union> set dels. owner_in Us e"
  obtains (created) e r where "e \<in> set creates" "r \<in> set (endpointToRecords opts (Some e))"
      "nxrrset (rec_Name r) (rec_Type r) \<in> set (cs_prereqs cs)"
      "chg_Record c = r \<or>
       rec_Name (chg_Record c) = ownershipNameFor (rec_Type r) (rec_Name r) \<and> rec_Type (chg_Record c) = ''TXT'' \<and>
       nxrrset (ownershipNameFor (rec_Type r) (rec_Name r)) ''TXT'' \<in> set (cs_prereqs cs)"
    | (owned) r w where "w \<in> Us" "rec_Type r \<noteq> ''TXT''"
      "yx_txt (ownershipNameFor (rec_Type r) (rec_Name r)) (encodeOwnership w) \<in> set (cs_prereqs cs)"
      "same_key r (chg_Record c) \<or>
       rec_Name (chg_Record c) = ownershipNameFor (rec_Type r) (rec_Name r) \<and> rec_Type (chg_Record c) = ''TXT''"
proof -
  note sets = build_sets [OF assms(1,2)]
  from assms(3) sets(1) consider
      e where "e \<in> set creates" "c \<in> set (cs_changes (create_part opts (slice_at (cache_Get cache) zone) e))"
    | oldE newE where "(oldE, newE) \<in> set (zip olds news)" "c \<in> set (cs_changes (update_part opts (oldE, newE)))"
    | e where "e \<in> set dels" "c \<in> set (cs_changes (delete_part opts e))"
    by auto
  then show thesis
  proof cases
    case 1
    have sub: "set (cs_prereqs (create_part opts (slice_at (cache_Get cache) zone) e)) \<subseteq> set (cs_prereqs cs)"
      using 1(1) sets(2) by blast
    show thesis by (rule create_part_guard [OF 1(2)]) (use 1(1) created sub in blast)
  next
    case 2
    have sub: "set (cs_prereqs (update_part opts (oldE, newE))) \<subseteq> set (cs_prereqs cs)"
      using 2(1) sets(2) by blast
    have old: "owner_in Us oldE" using 2(1) own by (auto dest: set_zip_leftD)
    have guard: thesis if "r \<in> set (endpointToRecords opts (Some oldE))" "same_key r (chg_Record c)"
      "ownerFromEndpoint (Some oldE) = Some w" for r w
    proof (rule owned [of w r])
      show "w \<in> Us" using old that(3) by (simp add: owner_in_def)
      show "rec_Type r \<noteq> ''TXT''" using that(1) by (rule endpoint_record_not_TXT)
      show "yx_txt (ownershipNameFor (rec_Type r) (rec_Name r)) (encodeOwnership w) \<in> set (cs_prereqs cs)"
        using sub that by (auto simp: update_part_def old_emit_def)
    qed (use that in blast)
    show thesis
    proof (cases "chg_Op c = ''add''")
      case True
      from update_part_adds [OF 2(2) True] obtain w where w: "ownerFromEndpoint (Some oldE) = Some w"
        and n: "chg_Record c \<in> set (endpointToRecords opts (Some newE))" by blast
      from keep 2(1) n obtain r0 where "r0 \<in> set (endpointToRecords opts (Some oldE))" "same_key r0 (chg_Record c)"
        unfolding keeps_keys_def by blast
      with w show thesis by (rule guard [rotated -1])
    next
      case False
      from update_part_dels [OF 2(2) False] show thesis
        by (auto simp: del_rec_def same_key_def intro!: guard)
    qed
  next
    case 3
    have sub: "set (cs_prereqs (delete_part opts e)) \<subseteq> set (cs_prereqs cs)" using 3(1) sets(2) by blast
    from delete_part_dels [OF 3(2)] obtain w r where
      "ownerFromEndpoint (Some e) = Some w" "r \<in> set (endpointToRecords opts (Some e))"
      "c = del_rec r \<or> c = del_rec (txt_rec (ownershipNameFor (rec_Type r) (rec_Name r)) 0 (encodeOwnership w))"
      "yx_txt (ownershipNameFor (rec_Type r) (rec_Name r)) (encodeOwnership w) \<in> set (cs_prereqs cs)"
      using sub by (auto simp: Let_def)
    moreover from this own 3(1) have "w \<in> Us" by (auto simp: owner_in_def)
    ultimately show thesis
      by (intro owned [of w r]) (auto simp: del_rec_def txt_rec_def same_key_def dest: endpoint_record_not_TXT)
  qed
qed

text \<open>The value-dependent prerequisites of a change set are marks.\<close>

lemma build_prereqs:
  assumes "buildZoneChangeSet opts cache zone creates olds news dels = Ok cs" "length olds = length news"
    and "p \<in> set (cs_prereqs cs)" "pre_Kind p = ''YXRRSET''" "\<forall>e \<in> set olds \<union> set dels. owner_in Us e"
  shows "pre_Value p \<in> our_marks Us"
proof -
  note sets = build_sets [OF assms(1,2)]
  from assms(3) sets(2) consider
      e where "e \<in> set creates" "p \<in> set (cs_prereqs (create_part opts (slice_at (cache_Get cache) zone) e))"
    | oldE newE where "(oldE, newE) \<in> set (zip olds news)" "p \<in> set (cs_prereqs (update_part opts (oldE, newE)))"
    | e where "e \<in> set dels" "p \<in> set (cs_prereqs (delete_part opts e))"
    by auto
  then show ?thesis
  proof cases
    case 1
    then show ?thesis
      using assms(4) by (auto simp: create_part_def create_emit_def nxrrset_def Let_def split: if_splits)
  next
    case 2
    moreover have "owner_in Us oldE" using 2(1) assms(5) by (auto dest: set_zip_leftD)
    ultimately show ?thesis
      by (auto simp: update_part_def old_emit_def new_emit_def yx_txt_def our_marks_def owner_in_def split: option.splits)
  next
    case 3
    moreover have "owner_in Us e" using 3(1) assms(5) by blast
    ultimately show ?thesis
      by (auto simp: delete_part_def delete_emit_def yx_txt_def our_marks_def owner_in_def owned_records_iff Let_def)
  qed
qed

section \<open>Foreign records stay\<close>

text \<open>The requests behind a change set, as far as isolation depends on them.\<close>

definition considerate :: "Options \<Rightarrow> string set \<Rightarrow> Endpoint list \<Rightarrow> Endpoint list \<Rightarrow> Endpoint list \<Rightarrow> Endpoint list \<Rightarrow> bool" where
  "considerate opts Us creates olds news dels \<longleftrightarrow>
     (\<forall>(oldE, newE) \<in> set (zip olds news). keeps_keys opts oldE newE) \<and>
     (\<forall>e \<in> set olds \<union> set dels. owner_in Us e) \<and>
     (\<forall>e \<in> set creates. \<forall>r \<in> set (endpointToRecords opts (Some e)). key_markable r)"

lemma foreign_untouched:
  assumes b: "buildZoneChangeSet opts cache zone creates olds news dels = Ok cs" "length olds = length news"
    and co: "considerate opts Us creates olds news dels" and h: "prereqs_hold Z (set (cs_prereqs cs))"
    and s: "s \<in> Z" "foreign Us Z s" and c: "c \<in> set (cs_changes cs)"
  shows "\<not> touches c (rec_Name s) (rec_Type s)"
proof
  assume t: "touches c (rec_Name s) (rec_Type s)"
  have req: "\<forall>(oldE, newE) \<in> set (zip olds news). keeps_keys opts oldE newE"
    "\<forall>e \<in> set olds \<union> set dels. owner_in Us e"
    "\<forall>e \<in> set creates. \<forall>r \<in> set (endpointToRecords opts (Some e)). key_markable r"
    using co unfolding considerate_def by blast+
  have nx: False if "nxrrset n ty \<in> set (cs_prereqs cs)" "normalizeName n = normalizeName (rec_Name s)" "ty = rec_Type s" for n ty
    using prereqs_hold_nx [OF h that(1)] that(2,3) rrset_member [OF s(1)] by (auto simp: rrset_def)
  from b c req(1,2) show False
  proof (cases rule: build_guard)
    case (created e r)
    then show ?thesis using t nx by (auto simp: touches_def)
  next
    case (owned r w)
    let ?m = "ownershipNameFor (rec_Type r) (rec_Name r)"
    from prereqs_hold_yx [OF h owned(3)] have w: "encodeOwnership w \<in> rec_Value ` rrset Z ?m ''TXT''" .
    from owned(4) show ?thesis
    proof
      assume k: "same_key r (chg_Record c)"
      then have "same_key r s" using t by (auto simp: same_key_def touches_def)
      then have "?m = ownershipNameFor (rec_Type s) (rec_Name s)" "rec_Type s \<noteq> ''TXT''"
        using owned(2) by (simp_all add: marker_same_key) (simp add: same_key_def)
      with w owned(1) s(2) show False by (auto simp: foreign_def our_marks_def)
    next
      assume k: "rec_Name (chg_Record c) = ?m \<and> rec_Type (chg_Record c) = ''TXT''"
      with t have st: "normalizeName (rec_Name s) = normalizeName ?m" "rec_Type s = ''TXT''" by (auto simp: touches_def)
      let ?p = "yx_txt ?m (encodeOwnership w)"
      have p: "pre_Kind ?p = ''YXRRSET''" "pre_Name ?p = ?m" "pre_Type ?p = ''TXT''" by (simp_all add: yx_txt_def)
      from h owned(3) have "pre_Kind ?p = ''YXRRSET'' \<longrightarrow> rec_Value ` rrset Z (pre_Name ?p) (pre_Type ?p) =
          required_values (set (cs_prereqs cs)) (pre_Name ?p) (pre_Type ?p)"
        unfolding prereqs_hold_def by blast
      then have "rec_Value ` rrset Z ?m ''TXT'' = required_values (set (cs_prereqs cs)) ?m ''TXT''" using p by simp
      moreover have "rec_Value s \<in> rec_Value ` rrset Z ?m ''TXT''"
        using rrset_member [OF s(1)] st rrset_same_name [OF st(1)] by simp
      ultimately obtain p where "p \<in> set (cs_prereqs cs)" "pre_Kind p = ''YXRRSET''" "pre_Value p = rec_Value s"
        by (auto simp: required_values_def)
      with build_prereqs [OF b, of p Us] req s(2) st(2) show False by (simp add: foreign_def)
    qed
  qed
qed

text \<open>Nor does anything touch the marker of a foreign data record, so it stays foreign.\<close>

lemma foreign_marker_untouched:
  assumes b: "buildZoneChangeSet opts cache zone creates olds news dels = Ok cs" "length olds = length news"
    and co: "considerate opts Us creates olds news dels" and h: "prereqs_hold Z (set (cs_prereqs cs))"
    and s: "s \<in> Z" "foreign Us Z s" "rec_Type s \<in> set supported_types" "key_markable s"
    and c: "c \<in> set (cs_changes cs)"
  shows "\<not> touches c (ownershipNameFor (rec_Type s) (rec_Name s)) ''TXT''"
proof
  let ?ms = "ownershipNameFor (rec_Type s) (rec_Name s)"
  assume t: "touches c ?ms ''TXT''"
  have req: "\<forall>(oldE, newE) \<in> set (zip olds news). keeps_keys opts oldE newE"
    "\<forall>e \<in> set olds \<union> set dels. owner_in Us e"
    "\<forall>e \<in> set creates. \<forall>r \<in> set (endpointToRecords opts (Some e)). key_markable r"
    using co unfolding considerate_def by blast+
  have st: "rec_Type s \<noteq> ''TXT''" and up: "ToUpper (rec_Type s) = rec_Type s"
    using s(3) by (auto simp: supported_types_def ToUpper_def upper_char_def)
  have norm: "normalizeName (ownershipNameFor (rec_Type r) (rec_Name r)) = ownershipNameFor (rec_Type r) (rec_Name r)"
    if "key_markable r" for r
    using that by (intro normalize_marker) (auto simp: key_markable_def markable_def)
  from b c req(1,2) show False
  proof (cases rule: build_guard)
    case (created e r)
    note f = endpointToRecords_fields(3) [OF created(2)]
    have ru: "ToUpper (rec_Type r) = rec_Type r" "rec_Type r \<noteq> ''TXT''"
      using f by (auto simp: supported_types_def ToUpper_def upper_char_def)
    have mr: "key_markable r" using created(1,2) req by blast
    have "rec_Name (chg_Record c) = ownershipNameFor (rec_Type r) (rec_Name r)"
      using created(4) t ru(2) by (auto simp: touches_def)
    with t have "ownershipNameFor (rec_Type r) (rec_Name r) = ?ms"
      using norm [OF mr] norm [OF s(4)] by (simp add: touches_def)
    with mr s(4) have "same_key r s"
      using marker.enc_inj [of "rec_Type r" "rec_Name r" "rec_Type s" "rec_Name s"] up ru(1)
      by (simp add: same_key_def key_markable_def)
    then show ?thesis
      using prereqs_hold_nx [OF h created(3)] rrset_member [OF s(1)] by (auto simp: rrset_def same_key_def)
  next
    case (owned r w)
    let ?m = "ownershipNameFor (rec_Type r) (rec_Name r)"
    from t owned(2,4) have "normalizeName ?m = normalizeName ?ms"
      by (auto simp: touches_def same_key_def)
    then have "rrset Z ?m ''TXT'' = rrset Z ?ms ''TXT''" by (rule rrset_same_name)
    with prereqs_hold_yx [OF h owned(3)] owned(1) s(2) st show ?thesis
      by (auto simp: foreign_def our_marks_def)
  qed
qed

text \<open>A record others rely on: foreign, and of a kind whose marker name is its own.\<close>

definition kept_apart :: "string set \<Rightarrow> Record set \<Rightarrow> Record \<Rightarrow> bool" where
  "kept_apart Us Z s \<longleftrightarrow> s \<in> Z \<and> foreign Us Z s \<and>
     (rec_Type s = ''TXT'' \<or> rec_Type s \<in> set supported_types \<and> key_markable s)"

lemma kept_apart_update:
  assumes "buildZoneChangeSet opts cache zone creates olds news dels = Ok cs" "length olds = length news"
    and "considerate opts Us creates olds news dels"
    and "kept_apart Us Z s" "server_update Z (cs_prereqs cs) (cs_changes cs) Z'"
  shows "kept_apart Us Z' s"
proof (cases "prereqs_hold Z (set (cs_prereqs cs))")
  case True
  note h = assms(5) [unfolded server_update_def, simplified True if_True, rule_format]
  have s: "s \<in> Z" "foreign Us Z s" using assms(4) by (simp_all add: kept_apart_def)
  have "rrset Z' (rec_Name s) (rec_Type s) = rrset Z (rec_Name s) (rec_Type s)"
    by (rule h) (rule foreign_untouched [OF assms(1-3) True s])
  with rrset_member [OF s(1)] have "s \<in> Z'" by (auto simp: rrset_def)
  moreover have "foreign Us Z' s"
  proof (cases "rec_Type s = ''TXT''")
    case False
    then have "rrset Z' (ownershipNameFor (rec_Type s) (rec_Name s)) ''TXT'' =
        rrset Z (ownershipNameFor (rec_Type s) (rec_Name s)) ''TXT''"
      by (intro h foreign_marker_untouched [OF assms(1-3) True s]) (use assms(4) in \<open>simp_all add: kept_apart_def\<close>)
    with s(2) False show ?thesis by (simp add: foreign_def)
  qed (use s(2) in \<open>simp add: foreign_def\<close>)
  ultimately show ?thesis using assms(4) by (simp add: kept_apart_def)
next
  case False
  with assms(4,5) show ?thesis by (simp add: server_update_def)
qed

lemma kept_apart_run:
  assumes "server_run M Z Z'" "kept_apart Us Z s"
    and "\<And>ps cs. (ps, cs) \<in> M \<Longrightarrow> \<exists>cache creates olds news dels.
      buildZoneChangeSet opts cache zone creates olds news dels = Ok \<lparr>cs_prereqs = ps, cs_changes = cs\<rparr> \<and>
      length olds = length news \<and> considerate opts Us creates olds news dels"
  shows "kept_apart Us Z' s"
  using assms(1,2)
proof (induction rule: server_run.induct)
  case server_start
  then show ?case .
next
  case (server_apply Z Z1 ps cs Z2)
  from assms(3) [OF server_apply.hyps(2)] obtain cache creates olds news dels where
    b: "buildZoneChangeSet opts cache zone creates olds news dels = Ok \<lparr>cs_prereqs = ps, cs_changes = cs\<rparr>"
    "length olds = length news" "considerate opts Us creates olds news dels" by blast
  from kept_apart_update [OF b server_apply.IH [OF server_apply.prems]] server_apply.hyps(3) show ?case by simp
qed

section \<open>Considerate requests\<close>

text \<open>
  A request as a controller that owns the labels \<open>Us\<close> posts it: what it updates or
  deletes is labelled with one of \<open>Us\<close> (or not at all), and no update renames.
\<close>

definition considerate_request :: "Options \<Rightarrow> string set \<Rightarrow> Changes \<Rightarrow> bool" where
  "considerate_request opts Us ch \<longleftrightarrow>
     (\<forall>e. Some e \<in> set (ch_UpdateOld ch) \<union> set (ch_Delete ch) \<longrightarrow> owner_in Us e) \<and>
     (\<forall>oldE newE. (Some oldE, Some newE) \<in> set (zip (ch_UpdateOld ch) (ch_UpdateNew ch)) \<longrightarrow> keeps_keys opts oldE newE)"

definition proper_zone :: "string \<Rightarrow> bool" where
  "proper_zone z \<longleftrightarrow> z \<noteq> [] \<and> \<not> HasSuffix z ''.''"

lemma under_proper:
  assumes "under n z" "proper_zone z"
  shows "n \<noteq> [] \<and> \<not> HasSuffix n ''.''"
proof -
  from assms(1) obtain r where "n = z \<or> n = r @ ''.'' @ z" by (auto simp: under_def HasSuffix_iff)
  with assms(2) show ?thesis by (auto simp: proper_zone_def HasSuffix_single)
qed

lemma supported_markable:
  assumes "t \<in> set supported_types" "normalizeName n \<noteq> []" "\<not> HasSuffix (normalizeName n) ''.''"
  shows "markable t n"
proof -
  have "list_all (\<lambda>t. CHR ''.'' \<notin> set t \<and> \<not> HasSuffix (ToLower t) wildcardSentinel) supported_types"
    by code_simp
  then show ?thesis using assms by (simp add: markable_def list_all_iff)
qed

lemma considerate_share:
  assumes "considerate_request opts Us ch" "proper_zone z"
  shows "considerate opts Us (zo_create (share_of opts ch z)) (zo_updateOld (share_of opts ch z))
    (zo_updateNew (share_of opts ch z)) (zo_del (share_of opts ch z))"
proof -
  let ?o = "zo_updateOld (share_of opts ch z)" and ?n = "zo_updateNew (share_of opts ch z)"
  have len: "length ?o = length ?n" by (simp add: share_of_def Let_def)
  have pairs: "\<forall>(oldE, newE) \<in> set (zip ?o ?n). keeps_keys opts oldE newE"
    using assms(1) share_of_members(3) by (auto simp: considerate_request_def)
  have olds: "owner_in Us e" if e: "e \<in> set ?o" for e
  proof -
    from e len obtain newE where "(e, newE) \<in> set (zip ?o ?n)"
      by (metis in_set_impl_in_set_zip1)
    then have "Some e \<in> set (ch_UpdateOld ch)" by (auto simp: share_of_members dest: set_zip_leftD)
    with assms(1) show ?thesis by (auto simp: considerate_request_def)
  qed
  have dels: "owner_in Us e" if "e \<in> set (zo_del (share_of opts ch z))" for e
    using that assms(1) by (auto simp: share_of_members considerate_request_def)
  have "key_markable r" if e: "e \<in> set (zo_create (share_of opts ch z))" and r: "r \<in> set (endpointToRecords opts (Some e))" for e r
  proof -
    from e have "zoneFor opts (ep_DNSName e) = z" by (simp add: share_of_members routed_def)
    with zoneFor_in(2) [of opts "ep_DNSName e"] assms(2) have "under (normalizeName (ep_DNSName e)) z"
      by (auto simp: proper_zone_def)
    note n = under_proper [OF this assms(2)]
    then have "normalizeName (rec_Name r) = normalizeName (ep_DNSName e)"
      using endpointToRecords_fields(1) [OF r] normalizeName_idem by simp
    with n endpointToRecords_fields(3) [OF r] show ?thesis
      by (simp add: key_markable_def supported_markable)
  qed
  with pairs olds dels show ?thesis by (auto simp: considerate_def)
qed

section \<open>Properties\<close>


definition shared_zone :: "Record set" where
  "shared_zone = {a_rec ''y.example.com'' ''2.2.2.2'', mark_rec ''ddo-a.y.example.com'' ''stage''}"

lemma adds_update:
  assumes "prereqs_hold Z (set ps)"
  shows "server_update Z ps cs (Z \<union> chg_Record ` set cs)"
  using assms by (auto simp: server_update_def rrset_def touches_def)

lemma sent_x_create:
  "UpdateCall ''dc1.example.com'' ''example.com'' (cs_prereqs x_create) (cs_changes x_create)
     \<in> set (o_wire (fst (sy_shared (solo two_zones quiet_world 0 20 posted_once))))"
proof -
  have "case o_wire (fst (sy_shared (solo two_zones quiet_world 0 20 posted_once))) of
      UpdateCall dc z ps cs # ms \<Rightarrow> dc = ''dc1.example.com'' \<and> z = ''example.com'' \<and> ps = cs_prereqs x_create \<and> cs = cs_changes x_create
    | _ \<Rightarrow> False"
    by code_simp
  then show ?thesis by (auto split: list.splits wire.splits)
qed


end
