(* ===== verification/GoNet.thy ===== *)
theory GoNet
  imports GoStrings
begin

text \<open>
  What the program uses of Go's \<open>net\<close> package: \<open>net.IP.String\<close>, \<open>net.ParseIP\<close>
  (as a test) and \<open>net.JoinHostPort\<close>, translated from the standard library's
  \<open>net\<close> and \<open>net/netip\<close>.
\<close>

type_synonym byte = "8 word"

section \<open>Printing an address\<close>

fun hex_digits :: "nat \<Rightarrow> string" where
  "hex_digits n = (if n < 16 then [hex_digit n] else hex_digits (n div 16) @ [hex_digit (n mod 16)])"

declare hex_digits.simps [simp del]

definition ipv4_string :: "byte list \<Rightarrow> string" where
  "ipv4_string bs = Join (map (\<lambda>b. nat_digits (unat b)) bs) ''.''"

text \<open>The eight 16-bit groups of a 16-byte address.\<close>

fun groups16 :: "byte list \<Rightarrow> nat list" where
  "groups16 (a # b # bs) = (256 * unat a + unat b) # groups16 bs"
| "groups16 _ = []"

text \<open>The leftmost longest run of at least two zero groups, as (start, end).\<close>

definition zero_run :: "nat list \<Rightarrow> nat \<times> nat" where
  "zero_run gs =
     foldl (\<lambda>(zs, ze) i. let l = length (takeWhile (\<lambda>g. g = 0) (drop i gs))
                          in if l \<ge> 2 \<and> l > ze - zs then (i, i + l) else (zs, ze))
       (0, 0) [0..<length gs]"

definition ipv6_string :: "byte list \<Rightarrow> string" where
  "ipv6_string bs =
     (let gs = groups16 bs; (zs, ze) = zero_run gs; show_gs = (\<lambda>xs. Join (map hex_digits xs) '':'')
      in if zs = ze then show_gs gs
         else show_gs (take zs gs) @ ''::'' @ show_gs (drop ze gs))"

definition To4 :: "byte list \<Rightarrow> byte list option" where
  "To4 ip =
     (if length ip = 4 then Some ip
      else if length ip = 16 \<and> take 12 ip = replicate 10 0 @ [255, 255] then Some (drop 12 ip)
      else None)"

definition IP_String :: "byte list \<Rightarrow> string" where
  "IP_String ip =
     (if ip = [] then ''<nil>''
      else if length ip \<noteq> 4 \<and> length ip \<noteq> 16
        then ''?'' @ concat (map (\<lambda>b. [hex_digit (unat b div 16), hex_digit (unat b mod 16)]) ip)
      else case To4 ip of Some p4 \<Rightarrow> ipv4_string p4 | None \<Rightarrow> ipv6_string ip)"

section \<open>Recognising an address\<close>

definition ipv4_octet :: "string \<Rightarrow> bool" where
  "ipv4_octet s \<longleftrightarrow> s \<noteq> [] \<and> list_all isDigit s \<and> (length s = 1 \<or> hd s \<noteq> CHR ''0'') \<and> digits_val s \<le> 255"

definition is_ipv4 :: "string \<Rightarrow> bool" where
  "is_ipv4 s \<longleftrightarrow> length (Split s CHR ''.'') = 4 \<and> list_all ipv4_octet (Split s CHR ''.'')"

definition isHex :: "char \<Rightarrow> bool" where
  "isHex c = (let n = (of_char c :: nat)
              in 48 \<le> n \<and> n \<le> 57 \<or> 97 \<le> n \<and> n \<le> 102 \<or> 65 \<le> n \<and> n \<le> 70)"

text \<open>
  The field loop of \<open>parseIPv6\<close>: \<open>n\<close> fields of 16 bits are still free, \<open>ell\<close>
  says whether \<open>::\<close> was seen.  The loop ends with the text used up, and with
  free fields exactly when there was an ellipsis to fill.
\<close>

fun ipv6_fields :: "nat \<Rightarrow> bool \<Rightarrow> string \<Rightarrow> bool" where
  "ipv6_fields 0 ell s = (s = [] \<and> \<not> ell)"
| "ipv6_fields (Suc n) ell s =
     (let h = takeWhile isHex s; r = dropWhile isHex s
      in if h = [] \<or> length h > 4 then False
         else if r \<noteq> [] \<and> hd r = CHR ''.'' then
           (if \<not> ell \<and> n \<noteq> 1 then False
            else if n = 0 then False
            else is_ipv4 s \<and> (if n = 1 then \<not> ell else ell))
         else if r = [] then (if n = 0 then \<not> ell else ell)
         else if hd r \<noteq> CHR '':'' \<or> length r = 1 then False
         else if hd (tl r) = CHR '':'' then
           (if ell then False
            else if tl (tl r) = [] then n \<noteq> 0
            else ipv6_fields n True (tl (tl r)))
         else ipv6_fields n ell (tl r))"

definition is_ipv6 :: "string \<Rightarrow> bool" where
  "is_ipv6 s =
     (if HasPrefix s ''::'' then drop 2 s = [] \<or> ipv6_fields 8 True (drop 2 s)
      else ipv6_fields 8 False s)"

text \<open>
  \<open>netip.ParseAddr\<close> decides by the first of dot, colon and percent; an address
  with a zone is refused by \<open>net.ParseIP\<close>.
\<close>

definition is_ip :: "string \<Rightarrow> bool" where
  "is_ip s =
     (case find (\<lambda>c. c = CHR ''.'' \<or> c = CHR '':'' \<or> c = CHR ''%'') s of
        None \<Rightarrow> False
      | Some c \<Rightarrow>
          if c = CHR ''.'' then is_ipv4 s
          else if c = CHR '':'' then CHR ''%'' \<notin> set s \<and> is_ipv6 s
          else False)"

definition JoinHostPort :: "string \<Rightarrow> string \<Rightarrow> string" where
  "JoinHostPort host port =
     (if CHR '':'' \<in> set host then ''['' @ host @ '']:'' @ port else host @ '':'' @ port)"

end
