(* ===== verification/GoBase64.thy ===== *)
theory GoBase64
  imports GoStrings
begin

text \<open>
  \<open>base64.StdEncoding.DecodeString\<close> of Go's \<open>encoding/base64\<close>: the standard
  alphabet, padding required, line breaks skipped.  \<open>Inl n\<close> is
  \<open>CorruptInputError(n)\<close>.  Also \<open>encode\<close>, the encoder of RFC 4648, for the round trip.
\<close>

definition b64_val :: "char \<Rightarrow> nat option" where
  "b64_val c =
     (let n = (of_char c :: nat)
      in if 65 \<le> n \<and> n \<le> 90 then Some (n - 65)
         else if 97 \<le> n \<and> n \<le> 122 then Some (n - 71)
         else if 48 \<le> n \<and> n \<le> 57 then Some (n + 4)
         else if n = 43 then Some 62
         else if n = 47 then Some 63
         else None)"

definition is_newline :: "char \<Rightarrow> bool" where
  "is_newline c \<longleftrightarrow> c = CHR 0x0A \<or> c = CHR 0x0D"

text \<open>The bytes of a quantum of two, three or four sextets.\<close>

definition quantum :: "nat list \<Rightarrow> string" where
  "quantum d =
     (let val = (\<lambda>i. if i < length d then d ! i else 0);
          v = val 0 * 262144 + val 1 * 4096 + val 2 * 64 + val 3
      in take (length d - 1) [char_of (v div 65536), char_of (v div 256), char_of v])"

definition b64_finish :: "nat list \<Rightarrow> string \<Rightarrow> nat \<Rightarrow> string \<Rightarrow> nat + string" where
  "b64_finish buf out si rest =
     (let k = length (takeWhile is_newline rest)
      in if drop k rest \<noteq> [] then Inl (si + k) else Inr (out @ quantum buf))"

text \<open>\<open>n\<close> is the length of the source, \<open>si\<close> the position, \<open>buf\<close> the open quantum.\<close>

fun b64_loop :: "nat \<Rightarrow> nat \<Rightarrow> nat list \<Rightarrow> string \<Rightarrow> string \<Rightarrow> nat + string" where
  "b64_loop n si buf out [] = (if buf = [] then Inr out else Inl (si - length buf))"
| "b64_loop n si buf out (c # cs) =
     (case b64_val c of
        Some v \<Rightarrow>
          (if length buf = 3 then b64_loop n (Suc si) [] (out @ quantum (buf @ [v])) cs
           else b64_loop n (Suc si) (buf @ [v]) out cs)
      | None \<Rightarrow>
          (if is_newline c then b64_loop n (Suc si) buf out cs
           else if c \<noteq> CHR ''='' \<or> length buf < 2 then Inl si
           else if length buf = 2 then
             (let k = length (takeWhile is_newline cs)
              in case drop k cs of
                   [] \<Rightarrow> Inl n
                 | d # ds \<Rightarrow>
                     if d \<noteq> CHR ''='' then Inl (si + k) else b64_finish buf out (si + k + 2) ds)
           else b64_finish buf out (Suc si) cs))"

definition DecodeString :: "string \<Rightarrow> nat + string" where
  "DecodeString s = b64_loop (length s) 0 [] [] s"

section \<open>Round trip\<close>

definition b64_char :: "nat \<Rightarrow> char" where
  "b64_char v =
     (if v < 26 then char_of (v + 65) else if v < 52 then char_of (v + 71)
      else if v < 62 then char_of (v - 4) else if v = 62 then CHR ''+'' else CHR ''/'')"

fun encode :: "string \<Rightarrow> string" where
  "encode [] = []"
| "encode [a] =
     (let x = of_char a :: nat in [b64_char (x div 4), b64_char (x mod 4 * 16)] @ ''='' @ ''='')"
| "encode [a, b] =
     (let x = of_char a :: nat; y = of_char b :: nat
      in [b64_char (x div 4), b64_char (x mod 4 * 16 + y div 16), b64_char (y mod 16 * 4)] @ ''='')"
| "encode (a # b # c # cs) =
     (let x = of_char a :: nat; y = of_char b :: nat; z = of_char c :: nat
      in [b64_char (x div 4), b64_char (x mod 4 * 16 + y div 16), b64_char (y mod 16 * 4 + z div 64),
          b64_char (z mod 64)]) @ encode cs"

lemma b64_val_char: "v < 64 \<Longrightarrow> b64_val (b64_char v) = Some v"
  by (cases "v = 62"; cases "v = 63") (auto simp: b64_val_def b64_char_def Let_def)

lemma b64_val_pad: "b64_val CHR ''='' = None" "\<not> is_newline CHR ''=''"
  by (simp_all add: b64_val_def is_newline_def)

lemma char_of_mod: "(char_of (n :: nat) :: char) = c \<longleftrightarrow> n mod 256 = of_char c"
  unfolding char_eq_of_char by simp

lemma sextets_aux:
  "x = 4 * xq + xr \<Longrightarrow> y = 16 * yq + yr \<Longrightarrow> z = 64 * zq + zr \<Longrightarrow>
     xq * 262144 + (xr * 16 + yq) * 4096 + (yr * 4 + zq) * 64 + zr = x * 65536 + y * 256 + (z :: nat)"
  by simp

lemma sextets:
  "(x div 4) * 262144 + (x mod 4 * 16 + y div 16) * 4096 + (y mod 16 * 4 + z div 64) * 64 + z mod 64 =
     x * 65536 + y * 256 + (z :: nat)"
  by (rule sextets_aux) simp_all

lemma bytes_of_sum:
  assumes "y < 256" "z < (256 :: nat)"
  shows "(x * 65536 + y * 256 + z) div 65536 = x" "(x * 65536 + y * 256 + z) div 256 = x * 256 + y"
  using assms by auto

definition three_bytes :: "nat \<Rightarrow> string" where
  "three_bytes v = [char_of (v div 65536), char_of (v div 256), char_of v]"

lemma three_bytes_eq: "three_bytes (of_char a * 65536 + of_char b * 256 + of_char c) = [a, b, c]"
proof -
  let ?v = "of_char a * 65536 + of_char b * 256 + of_char c :: nat"
  have "?v div 65536 = of_char a" "?v div 256 = of_char a * 256 + of_char b"
    by (rule bytes_of_sum; simp)+
  moreover have "(of_char a * 256 + of_char b :: nat) mod 256 = of_char b" by simp
  moreover have "?v mod 256 = of_char c"
    using mod_mult_self3 [of "of_char a * 256 + of_char b" 256 "of_char c :: nat"] by (simp add: algebra_simps)
  ultimately show ?thesis by (simp add: three_bytes_def char_of_mod)
qed

text \<open>Three bytes, or their first one or two, survive the four sextets.\<close>

definition sextets_of :: "char \<Rightarrow> char \<Rightarrow> char \<Rightarrow> nat list" where
  "sextets_of a b c =
     (let x = of_char a :: nat; y = of_char b :: nat; z = of_char c :: nat
      in [x div 4, x mod 4 * 16 + y div 16, y mod 16 * 4 + z div 64, z mod 64])"

lemma quantum_4: "quantum [p, q, r, t] = three_bytes (p * 262144 + q * 4096 + r * 64 + t)"
  by (simp add: quantum_def three_bytes_def Let_def)

lemma quantum_3: "quantum [p, q, r] = take 2 (three_bytes (p * 262144 + q * 4096 + r * 64 + 0))"
  by (simp add: quantum_def three_bytes_def Let_def numeral_2_eq_2)

lemma quantum_2: "quantum [p, q] = take 1 (three_bytes (p * 262144 + q * 4096 + 0 * 64 + 0))"
  by (simp add: quantum_def three_bytes_def Let_def)

lemma sextets_of_value:
  "sextets_of a b c = [p, q, r, t] \<Longrightarrow> three_bytes (p * 262144 + q * 4096 + r * 64 + t) = [a, b, c]"
  using sextets [of "of_char a" "of_char b" "of_char c"] three_bytes_eq [of a b c]
  by (auto simp: sextets_of_def Let_def)

lemma join_less: "p < 4 \<Longrightarrow> q < 16 \<Longrightarrow> p * 16 + q < (64 :: nat)" "p < 16 \<Longrightarrow> q < 4 \<Longrightarrow> p * 4 + q < (64 :: nat)"
  by simp_all

lemma sextets_of_less:
  assumes "sextets_of a b c = [p, q, r, t]"
  shows "p < 64 \<and> q < 64 \<and> r < 64 \<and> t < 64"
proof -
  have "(of_char a :: nat) div 4 < 64" "(of_char b :: nat) div 16 < 16" "(of_char c :: nat) div 64 < 4"
    using of_char_less [of a] of_char_less [of b] of_char_less [of c] by (simp_all add: less_mult_imp_div_less)
  then show ?thesis
    using assms by (auto simp: sextets_of_def Let_def intro: join_less)
qed

lemma sextets_of_ex: "\<exists>p q r t. sextets_of a b c = [p, q, r, t]"
  by (simp add: sextets_of_def Let_def)

lemma encode_sextets:
  "sextets_of a b c = [p, q, r, t] \<Longrightarrow>
     encode (a # b # c # cs) = b64_char p # b64_char q # b64_char r # b64_char t # encode cs"
  "sextets_of a b (char_of (0 :: nat)) = [p, q, r, t] \<Longrightarrow>
     encode [a, b] = [b64_char p, b64_char q, b64_char r, CHR ''=''] \<and> t = 0"
  "sextets_of a (char_of (0 :: nat)) (char_of (0 :: nat)) = [p, q, r, t] \<Longrightarrow>
     encode [a] = [b64_char p, b64_char q, CHR ''='', CHR ''=''] \<and> r = 0 \<and> t = 0"
  by (auto simp: sextets_of_def Let_def)

lemma b64_loop_encode: "b64_loop n si [] out (encode s) = Inr (out @ s)"
proof (induction s arbitrary: si out rule: encode.induct)
  case 1
  then show ?case by simp
next
  case (2 a)
  obtain p q r t where sx: "sextets_of a (char_of (0 :: nat)) (char_of (0 :: nat)) = [p, q, r, t]"
    using sextets_of_ex by blast
  note e = encode_sextets(3) [OF sx] and l = sextets_of_less [OF sx] and v = sextets_of_value [OF sx]
  have "quantum [p, q] = [a]" using v e by (simp add: quantum_2)
  then show ?case using e l by (simp add: b64_val_char b64_val_pad b64_finish_def)
next
  case (3 a b)
  obtain p q r t where sx: "sextets_of a b (char_of (0 :: nat)) = [p, q, r, t]"
    using sextets_of_ex by blast
  note e = encode_sextets(2) [OF sx] and l = sextets_of_less [OF sx] and v = sextets_of_value [OF sx]
  have "quantum [p, q, r] = [a, b]" using v e by (simp add: quantum_3 numeral_2_eq_2)
  then show ?case using e l by (simp add: b64_val_char b64_val_pad b64_finish_def)
next
  case (4 a b c cs)
  obtain p q r t where sx: "sextets_of a b c = [p, q, r, t]"
    using sextets_of_ex by blast
  note e = encode_sextets(1) [OF sx] and l = sextets_of_less [OF sx] and v = sextets_of_value [OF sx]
  have "quantum [p, q, r, t] = [a, b, c]" using v by (simp add: quantum_4)
  then show ?case using 4 l by (simp add: b64_val_char e del: encode.simps)
qed

lemma DecodeString_encode: "DecodeString (encode s) = Inr s"
  by (simp add: DecodeString_def b64_loop_encode)

end
