(* ===== verification/GoDuration.thy ===== *)
theory GoDuration
  imports GoStrings
begin

text \<open>
  \<open>time.ParseDuration\<close> and \<open>time.Duration.String\<close> of Go's library, as the
  configuration uses them.  \<open>uint64\<close> values are naturals, the wrap-around of the
  running sum is written out.

  Fractions go through \<open>float64\<close> in Go.  All values in play are finite and
  positive, so the model rounds to 53 significant bits, ties to even, and leaves
  the exponent unbounded: below the normal range, and above the largest double,
  the product is smaller than one nanosecond either way and is truncated to zero.
\<close>

section \<open>Double precision\<close>

fun bitlen :: "nat \<Rightarrow> nat" where
  "bitlen n = (if n = 0 then 0 else Suc (bitlen (n div 2)))"

declare bitlen.simps [simp del]

text \<open>\<open>n / d\<close> to the nearest natural, ties to even.\<close>

definition half_even :: "nat \<Rightarrow> nat \<Rightarrow> nat" where
  "half_even n d =
     (let q = n div d; r = n mod d
      in if 2 * r < d \<or> 2 * r = d \<and> even q then q else Suc q)"

definition round53 :: "nat \<Rightarrow> nat" where
  "round53 n = (let s = bitlen n - 53 in half_even n (2 ^ s) * 2 ^ s)"

text \<open>\<open>float64(unit) / scale\<close> as a mantissa over a power of two; \<open>unit < 2 ^ 53\<close>.\<close>

definition div53 :: "nat \<Rightarrow> nat \<Rightarrow> nat \<times> nat" where
  "div53 u q =
     (let t = 52 + bitlen q - bitlen u; t = (if u * 2 ^ t < 2 ^ 52 * q then Suc t else t)
      in (half_even (u * 2 ^ t) q, t))"

text \<open>\<open>uint64(float64(f) * (float64(unit) / scale))\<close>.\<close>

definition frac_units :: "nat \<Rightarrow> nat \<Rightarrow> nat \<Rightarrow> nat" where
  "frac_units f unit scale = (case div53 unit scale of (m, t) \<Rightarrow> round53 (round53 f * m) div 2 ^ t)"

section \<open>Parsing\<close>

definition time_quote_char :: "char \<Rightarrow> string" where
  "time_quote_char c =
     (let n = (of_char c :: nat)
      in if n < 32 \<or> 128 \<le> n then [CHR 0x5C, CHR ''x'', hex_digit (n div 16), hex_digit (n mod 16)]
         else if c = CHR 0x22 \<or> c = CHR 0x5C then [CHR 0x5C, c] else [c])"

definition time_quote :: "string \<Rightarrow> string" where
  "time_quote s = [CHR 0x22] @ concat (map time_quote_char s) @ [CHR 0x22]"

definition two63 :: nat where "two63 = 9223372036854775808"

fun leadingInt :: "nat \<Rightarrow> string \<Rightarrow> (nat \<times> string) option" where
  "leadingInt x [] = Some (x, [])"
| "leadingInt x (c # s) =
     (if \<not> isDigit c then Some (x, c # s)
      else if x > two63 div 10 then None
      else let y = x * 10 + digit_val c in if y > two63 then None else leadingInt y s)"

fun leadingFraction :: "bool \<Rightarrow> nat \<Rightarrow> nat \<Rightarrow> string \<Rightarrow> nat \<times> nat \<times> string" where
  "leadingFraction overflow x scale [] = (x, scale, [])"
| "leadingFraction overflow x scale (c # s) =
     (if \<not> isDigit c then (x, scale, c # s)
      else if overflow then leadingFraction True x scale s
      else if x > (two63 - 1) div 10 then leadingFraction True x scale s
      else let y = x * 10 + digit_val c
           in if y > two63 then leadingFraction True x scale s
              else leadingFraction False y (round53 (scale * 10)) s)"

definition unitMap :: "(string \<times> nat) list" where
  "unitMap =
     [(''ns'', 1), (''us'', 1000), ([CHR 0xC2, CHR 0xB5] @ ''s'', 1000), ([CHR 0xCE, CHR 0xBC] @ ''s'', 1000),
      (''ms'', 1000000), (''s'', 1000000000), (''m'', 60000000000), (''h'', 3600000000000)]"

definition in_number :: "char \<Rightarrow> bool" where
  "in_number c \<longleftrightarrow> c = CHR ''.'' \<or> isDigit c"

definition invalid :: "string \<Rightarrow> string" where
  "invalid orig = ''time: invalid duration '' @ time_quote orig"

text \<open>The digits before and after the point, with the scale of the fraction and the rest.\<close>

definition duration_number :: "string \<Rightarrow> (nat \<times> nat \<times> nat \<times> string) option" where
  "duration_number s =
     (if \<not> in_number (hd s) then None
      else case leadingInt 0 s of
             None \<Rightarrow> None
           | Some (v, s1) \<Rightarrow>
               (let pre = length s1 \<noteq> length s
                in if s1 \<noteq> [] \<and> hd s1 = CHR ''.'' then
                     (case leadingFraction False 0 1 (tl s1) of
                        (f, scale, s2) \<Rightarrow>
                          (let post = length s2 \<noteq> length (tl s1)
                           in if \<not> pre \<and> \<not> post then None else Some (v, f, scale, s2)))
                   else if \<not> pre then None else Some (v, 0, 1, s1)))"

text \<open>Its unit: the nanoseconds and the rest, or an error text.\<close>

definition duration_unit :: "string \<Rightarrow> nat \<Rightarrow> nat \<Rightarrow> nat \<Rightarrow> string \<Rightarrow> string + nat \<times> string" where
  "duration_unit orig v f scale s =
     (let u = takeWhile (\<lambda>c. \<not> in_number c) s; s' = dropWhile (\<lambda>c. \<not> in_number c) s
      in if u = [] then Inl (''time: missing unit in duration '' @ time_quote orig)
         else case map_of unitMap u of
                None \<Rightarrow> Inl (''time: unknown unit '' @ time_quote u @ '' in duration '' @ time_quote orig)
              | Some unit \<Rightarrow>
                  if v > two63 div unit then Inl (invalid orig)
                  else let v' = v * unit + (if f > 0 then frac_units f unit scale else 0)
                       in if f > 0 \<and> v' > two63 then Inl (invalid orig) else Inr (v', s'))"

definition duration_item :: "string \<Rightarrow> string \<Rightarrow> string + nat \<times> string" where
  "duration_item orig s =
     (case duration_number s of
        None \<Rightarrow> Inl (invalid orig)
      | Some (v, f, scale, s') \<Rightarrow> duration_unit orig v f scale s')"

lemma leadingInt_length: "leadingInt x s = Some (v, s') \<Longrightarrow> length s' \<le> length s"
  by (induction x s rule: leadingInt.induct) (auto simp: Let_def split: if_splits)

lemma leadingFraction_length: "leadingFraction ov x sc s = (f, scale, s') \<Longrightarrow> length s' \<le> length s"
  by (induction ov x sc s rule: leadingFraction.induct) (auto simp: Let_def split: if_splits)

lemma duration_number_length: "duration_number s = Some (v, f, scale, s') \<Longrightarrow> length s' \<le> length s"
  by (auto simp: duration_number_def Let_def split: if_splits option.splits prod.splits
      dest!: leadingInt_length leadingFraction_length)

lemma duration_unit_length:
  assumes "duration_unit orig v f scale s = Inr (n, s')"
  shows "length s' < length s"
proof -
  from assms have "takeWhile (\<lambda>c. \<not> in_number c) s \<noteq> []" "s' = dropWhile (\<lambda>c. \<not> in_number c) s"
    by (auto simp: duration_unit_def Let_def split: if_splits option.splits)
  moreover have "length s = length (takeWhile (\<lambda>c. \<not> in_number c) s) + length (dropWhile (\<lambda>c. \<not> in_number c) s)"
    by (metis length_append takeWhile_dropWhile_id)
  ultimately show ?thesis by simp
qed

lemma duration_item_length: "duration_item orig s = Inr (n, s') \<Longrightarrow> length s' < length s"
  by (auto simp: duration_item_def split: option.splits prod.splits
      dest!: duration_number_length duration_unit_length)

function duration_loop :: "string \<Rightarrow> nat \<Rightarrow> string \<Rightarrow> string + nat" where
  "duration_loop orig d s =
     (if s = [] then Inr d
      else case duration_item orig s of
             Inl e \<Rightarrow> Inl e
           | Inr (v, s') \<Rightarrow>
               (let d' = (d + v) mod 18446744073709551616
                in if d' > two63 then Inl (invalid orig) else duration_loop orig d' s'))"
  by pat_completeness auto
termination
  by (relation "measure (\<lambda>(orig, d, s). length s)") (auto dest: duration_item_length)

declare duration_loop.simps [simp del]

definition ParseDuration :: "string \<Rightarrow> string + int" where
  "ParseDuration orig =
     (let neg = (orig \<noteq> [] \<and> hd orig = CHR ''-'');
          s = (if orig \<noteq> [] \<and> (hd orig = CHR ''-'' \<or> hd orig = CHR ''+'') then tl orig else orig)
      in if s = ''0'' then Inr 0
         else if s = [] then Inl (invalid orig)
         else case duration_loop orig 0 s of
                Inl e \<Rightarrow> Inl e
              | Inr d \<Rightarrow>
                  if neg then Inr (- int d)
                  else if d > two63 - 1 then Inl (invalid orig)
                  else Inr (int d))"

section \<open>Printing\<close>

fun fmtFrac :: "nat \<Rightarrow> nat \<Rightarrow> bool \<Rightarrow> string \<Rightarrow> string \<times> nat" where
  "fmtFrac v 0 shown buf = (if shown then CHR ''.'' # buf else buf, v)"
| "fmtFrac v (Suc prec) shown buf =
     (let digit = v mod 10; shown' = (shown \<or> digit \<noteq> 0)
      in fmtFrac (v div 10) prec shown' (if shown' then digit_char digit # buf else buf))"

text \<open>A duration without its sign, built from the back as in the source.\<close>

definition duration_body :: "nat \<Rightarrow> string" where
  "duration_body u =
     (if u = 0 then ''0s''
      else if u < 1000 then (case fmtFrac u 0 False ''ns'' of (b, v) \<Rightarrow> nat_digits v @ b)
      else if u < 1000000 then
        (case fmtFrac u 3 False ([CHR 0xC2, CHR 0xB5] @ ''s'') of (b, v) \<Rightarrow> nat_digits v @ b)
      else if u < 1000000000 then (case fmtFrac u 6 False ''ms'' of (b, v) \<Rightarrow> nat_digits v @ b)
      else (case fmtFrac u 9 False ''s'' of
              (b, v) \<Rightarrow>
                (let secs = nat_digits (v mod 60) @ b; mins = v div 60
                 in if mins = 0 then secs
                    else let ms = nat_digits (mins mod 60) @ ''m'' @ secs; hours = mins div 60
                         in if hours = 0 then ms else nat_digits hours @ ''h'' @ ms)))"

definition DurationString :: "int \<Rightarrow> string" where
  "DurationString d = (let body = duration_body (nat \<bar>d\<bar>) in if d < 0 then CHR ''-'' # body else body)"

section \<open>Exact arithmetic\<close>

lemma bitlen_less: "n < 2 ^ k \<Longrightarrow> bitlen n \<le> k"
proof (induction k arbitrary: n)
  case 0
  then show ?case by (simp add: bitlen.simps)
next
  case (Suc k)
  then have "n div 2 < 2 ^ k" by simp
  from Suc.IH [OF this] show ?case by (subst bitlen.simps) simp
qed

lemma bitlen_shift: "0 < n \<Longrightarrow> bitlen (n * 2 ^ t) = bitlen n + t"
proof (induction t)
  case (Suc t)
  have "bitlen (n * 2 ^ Suc t) = Suc (bitlen (n * 2 ^ t))"
    using Suc.prems by (subst bitlen.simps) (simp add: mult.assoc [symmetric])
  with Suc show ?case by simp
qed simp

lemma half_even_exact: "0 < d \<Longrightarrow> half_even (a * d) d = a"
  by (simp add: half_even_def)

text \<open>A value with at most 53 significant bits is a double.\<close>

lemma round53_exact:
  assumes "n < 2 ^ 53"
  shows "round53 (n * 2 ^ t) = n * 2 ^ t"
proof (cases "n = 0")
  case False
  define s where "s = bitlen (n * 2 ^ t) - 53"
  have "s \<le> t" using bitlen_less [OF assms] False by (simp add: s_def bitlen_shift)
  then have eq: "n * 2 ^ t = n * 2 ^ (t - s) * 2 ^ s" by (simp add: power_add [symmetric])
  have "half_even (n * 2 ^ t) (2 ^ s) = n * 2 ^ (t - s)" by (subst eq, rule half_even_exact) simp
  then show ?thesis using \<open>s \<le> t\<close> by (simp add: round53_def Let_def s_def [symmetric] power_add [symmetric])
qed (simp add: round53_def half_even_def)

lemma round53_small: "n < 2 ^ 53 \<Longrightarrow> round53 n = n"
  using round53_exact [of n 0] by simp

lemma frac_units_exact:
  assumes "0 < scale" "f < 2 ^ 53" "f * c < 2 ^ 53"
  shows "frac_units f (c * scale) scale = f * c"
proof -
  obtain t where "div53 (c * scale) scale = (half_even (c * scale * 2 ^ t) scale, t)"
    by (auto simp: div53_def Let_def)
  moreover have "half_even (c * scale * 2 ^ t) scale = c * 2 ^ t"
    using half_even_exact [OF assms(1), of "c * 2 ^ t"] by (simp add: ac_simps)
  ultimately show ?thesis
    using round53_small [OF assms(2)] round53_exact [OF assms(3), of t]
    by (simp add: frac_units_def mult.assoc [symmetric])
qed

section \<open>Reading digits\<close>

definition digits_from :: "nat \<Rightarrow> string \<Rightarrow> nat" where
  "digits_from x ds = foldl (\<lambda>a c. a * 10 + digit_val c) x ds"

lemma digits_from_simps [simp]:
  "digits_from x [] = x" "digits_from x (c # ds) = digits_from (x * 10 + digit_val c) ds"
  "digits_from x (ds @ es) = digits_from (digits_from x ds) es"
  by (simp_all add: digits_from_def)

lemma digits_from_nat_digits [simp]: "digits_from 0 (nat_digits n) = n"
  using digits_val_nat_digits [of n] by (simp add: digits_from_def digits_val_def mult.commute)

lemma digits_from_ge: "x \<le> digits_from x ds"
proof (induction ds arbitrary: x)
  case (Cons c ds)
  show ?case using Cons.IH [of "x * 10 + digit_val c"] by simp
qed simp

definition stops :: "string \<Rightarrow> bool" where
  "stops s \<longleftrightarrow> s = [] \<or> \<not> isDigit (hd s)"

lemma leadingInt_digits:
  "list_all isDigit ds \<Longrightarrow> stops rest \<Longrightarrow> digits_from x ds \<le> two63 \<Longrightarrow>
     leadingInt x (ds @ rest) = Some (digits_from x ds, rest)"
proof (induction ds arbitrary: x)
  case Nil
  then show ?case by (cases rest) (simp_all add: stops_def)
next
  case (Cons c ds)
  have le: "x * 10 + digit_val c \<le> two63"
    using digits_from_ge [of "x * 10 + digit_val c" ds] Cons.prems(3) by simp
  then have "x \<le> two63 div 10" by simp
  with le Cons show ?case by (simp add: not_less)
qed

lemma leadingFraction_digits:
  "list_all isDigit ds \<Longrightarrow> stops rest \<Longrightarrow> digits_from x ds < 2 ^ 53 \<Longrightarrow> scale * 10 ^ length ds < 2 ^ 53 \<Longrightarrow>
     0 < scale \<Longrightarrow>
     leadingFraction False x scale (ds @ rest) = (digits_from x ds, scale * 10 ^ length ds, rest)"
proof (induction ds arbitrary: x scale)
  case Nil
  then show ?case by (cases rest) (simp_all add: stops_def)
next
  case (Cons c ds)
  have le: "x * 10 + digit_val c < 2 ^ 53"
    using digits_from_ge [of "x * 10 + digit_val c" ds] Cons.prems(3) by simp
  have "scale * 10 * 1 \<le> scale * 10 * 10 ^ length ds" by (intro mult_le_mono) simp_all
  from le_less_trans [OF this Cons.prems(4) [unfolded length_Cons power_Suc mult.assoc [symmetric]]]
  have "scale * 10 < 2 ^ 53" by simp
  then have sc: "round53 (scale * 10) = scale * 10" by (rule round53_small)
  have "leadingFraction False (x * 10 + digit_val c) (scale * 10) (ds @ rest) =
      (digits_from (x * 10 + digit_val c) ds, scale * 10 * 10 ^ length ds, rest)"
    by (rule Cons.IH) (use Cons.prems in \<open>simp_all add: mult.assoc\<close>)
  with le Cons.prems(1) sc show ?case by (simp add: two63_def not_less mult.assoc)
qed

section \<open>What \<open>String\<close> prints is read back\<close>

lemma fmtFrac_shown:
  "fmtFrac v prec True buf = (b, w) \<Longrightarrow>
     w = v div 10 ^ prec \<and> (\<exists>ds. b = CHR ''.'' # ds @ buf \<and> list_all isDigit ds \<and> length ds = prec \<and>
       digits_from 0 ds = v mod 10 ^ prec)"
proof (induction prec arbitrary: v buf)
  case (Suc prec)
  from Suc.IH [of "v div 10" "digit_char (v mod 10) # buf"] Suc.prems obtain ds where
    w: "w = v div 10 div 10 ^ prec" and ds: "b = CHR ''.'' # ds @ digit_char (v mod 10) # buf"
      "list_all isDigit ds" "length ds = prec" "digits_from 0 ds = v div 10 mod 10 ^ prec"
    by (auto simp: Let_def)
  have "v mod 10 ^ Suc prec = 10 * (v div 10 mod 10 ^ prec) + v mod 10"
    by (simp add: mod_mult2_eq)
  with w ds show ?case
    by (intro conjI exI [of _ "ds @ [digit_char (v mod 10)]"])
      (simp_all add: div_mult2_eq isDigit_digit_char digit_val_digit_char)
qed simp

lemma fmtFrac_silent:
  "fmtFrac v prec False buf = (b, w) \<Longrightarrow>
     w = v div 10 ^ prec \<and>
     (b = buf \<and> v mod 10 ^ prec = 0 \<or>
      (\<exists>ds k. b = CHR ''.'' # ds @ buf \<and> list_all isDigit ds \<and> ds \<noteq> [] \<and> length ds + k = prec \<and>
        0 < digits_from 0 ds \<and> digits_from 0 ds * 10 ^ k = v mod 10 ^ prec))"
proof (induction prec arbitrary: v buf)
  case (Suc prec)
  have split: "v mod 10 ^ Suc prec = 10 * (v div 10 mod 10 ^ prec) + v mod 10"
    by (simp add: mod_mult2_eq)
  show ?case
  proof (cases "v mod 10 = 0")
    case True
    with Suc.prems have "fmtFrac (v div 10) prec False buf = (b, w)" by (simp add: Let_def)
    from Suc.IH [OF this] show ?thesis
    proof (elim conjE disjE exE)
      fix ds k assume d: "w = v div 10 div 10 ^ prec" "b = CHR ''.'' # ds @ buf" "list_all isDigit ds" "ds \<noteq> []"
        "length ds + k = prec" "0 < digits_from 0 ds" "digits_from 0 ds * 10 ^ k = v div 10 mod 10 ^ prec"
      then have "digits_from 0 ds * 10 ^ Suc k = v mod 10 ^ Suc prec" using split True by simp
      with d show ?thesis
        by (intro conjI disjI2 exI [of _ ds] exI [of _ "Suc k"]) (simp_all add: div_mult2_eq)
    qed (use split True in \<open>simp_all add: div_mult2_eq\<close>)
  next
    case False
    with Suc.prems have "fmtFrac (v div 10) prec True (digit_char (v mod 10) # buf) = (b, w)"
      by (simp add: Let_def)
    from fmtFrac_shown [OF this] obtain ds where
      w: "w = v div 10 div 10 ^ prec" and ds: "b = CHR ''.'' # ds @ digit_char (v mod 10) # buf"
        "list_all isDigit ds" "length ds = prec" "digits_from 0 ds = v div 10 mod 10 ^ prec"
      by auto
    with split False show ?thesis
      by (intro conjI disjI2 exI [of _ "ds @ [digit_char (v mod 10)]"] exI [of _ 0])
        (simp_all add: div_mult2_eq isDigit_digit_char digit_val_digit_char)
  qed
qed simp

definition unit_word :: "string \<Rightarrow> bool" where
  "unit_word u \<longleftrightarrow> u \<noteq> [] \<and> list_all (\<lambda>c. \<not> in_number c) u"

definition item_start :: "string \<Rightarrow> bool" where
  "item_start s \<longleftrightarrow> s = [] \<or> in_number (hd s)"

lemma unit_split:
  assumes "unit_word u" "item_start rest"
  shows "takeWhile (\<lambda>c. \<not> in_number c) (u @ rest) = u" "dropWhile (\<lambda>c. \<not> in_number c) (u @ rest) = rest"
  using assms
  by (cases rest; force simp: unit_word_def item_start_def list_all_iff takeWhile_append dropWhile_append)+

lemma in_number_digit: "isDigit c \<Longrightarrow> in_number c"
  by (simp add: in_number_def)

lemma item_int:
  assumes "map_of unitMap u = Some unit" "unit_word u" "item_start rest" "n \<le> two63 div unit" "n \<le> two63"
  shows "duration_item orig (nat_digits n @ u @ rest) = Inr (n * unit, rest)"
proof -
  obtain c ds where d: "nat_digits n = c # ds" "isDigit c" using nat_digits_Cons by blast
  have st: "stops (u @ rest)" and nd: "hd (u @ rest) \<noteq> CHR ''.''" "u \<noteq> []"
    using assms(2) by (auto simp: unit_word_def stops_def in_number_def list_all_iff neq_Nil_conv)
  have "leadingInt 0 (nat_digits n @ u @ rest) = Some (n, u @ rest)"
    using leadingInt_digits [OF nat_digits_isDigit st, of 0 n] assms(5) by simp
  then have "duration_number (nat_digits n @ u @ rest) = Some (n, 0, 1, u @ rest)"
    using d nd by (simp add: duration_number_def in_number_digit)
  then show ?thesis
    using assms(1,4) nd by (simp add: duration_item_def duration_unit_def unit_split [OF assms(2,3)] not_less)
qed

lemma item_frac:
  assumes "map_of unitMap u = Some (c * 10 ^ length ds)" "unit_word u" "item_start rest"
    and "n \<le> two63 div (c * 10 ^ length ds)" "n \<le> two63" "list_all isDigit ds" "ds \<noteq> []"
    and "0 < digits_from 0 ds" "digits_from 0 ds * c < 2 ^ 53" "digits_from 0 ds < 2 ^ 53"
    and "(10 :: nat) ^ length ds < 2 ^ 53" "n * (c * 10 ^ length ds) + digits_from 0 ds * c \<le> two63"
  shows "duration_item orig (nat_digits n @ CHR ''.'' # ds @ u @ rest) =
    Inr (n * (c * 10 ^ length ds) + digits_from 0 ds * c, rest)"
proof -
  obtain d es where d: "nat_digits n = d # es" "isDigit d" using nat_digits_Cons by blast
  have st: "stops (u @ rest)" and u: "u \<noteq> []"
    using assms(2) by (auto simp: unit_word_def stops_def in_number_def list_all_iff neq_Nil_conv)
  have "leadingInt 0 (nat_digits n @ CHR ''.'' # ds @ u @ rest) = Some (n, CHR ''.'' # ds @ u @ rest)"
    using leadingInt_digits [OF nat_digits_isDigit, of "CHR ''.'' # ds @ u @ rest" 0 n] assms(5)
    by (simp add: stops_def isDigit_def)
  moreover have "leadingFraction False 0 1 (ds @ u @ rest) = (digits_from 0 ds, 10 ^ length ds, u @ rest)"
    using leadingFraction_digits [OF assms(6) st assms(10), of 1] assms(11) by simp
  ultimately have "duration_number (nat_digits n @ CHR ''.'' # ds @ u @ rest) =
      Some (n, digits_from 0 ds, 10 ^ length ds, u @ rest)"
    using d by (simp add: duration_number_def in_number_digit)
  then show ?thesis
    using assms u frac_units_exact [OF _ assms(10,9), of "10 ^ length ds"]
    by (simp add: duration_item_def duration_unit_def unit_split [OF assms(2,3)] not_less)
qed

lemma item_fmt:
  assumes "fmtFrac w prec False u = (b, v)" "map_of unitMap u = Some (10 ^ prec)" "prec \<le> 9" "unit_word u"
    and "n * 10 ^ prec + w mod 10 ^ prec \<le> two63"
  shows "duration_item orig (nat_digits n @ b) = Inr (n * 10 ^ prec + w mod 10 ^ prec, [])"
proof -
  have "n * 10 ^ prec \<le> two63" using assms(5) by simp
  then have n: "n \<le> two63 div 10 ^ prec" by (simp add: less_eq_div_iff_mult_less_eq)
  have n': "n \<le> two63" using n div_le_dividend le_trans by blast
  have ten: "(10 :: nat) ^ prec \<le> 10 ^ 9" using assms(3) by (intro power_increasing) simp_all
  have small: "w mod 10 ^ prec < 10 ^ 9" using ten by (rule less_le_trans [rotated]) simp
  from fmtFrac_silent [OF assms(1)] show ?thesis
  proof (elim conjE disjE exE)
    assume "b = u" "w mod 10 ^ prec = 0"
    then show ?thesis using item_int [OF assms(2,4), of "[]" n orig] n n' by (simp add: item_start_def)
  next
    fix ds k assume d: "b = CHR ''.'' # ds @ u" "list_all isDigit ds" "ds \<noteq> []" "length ds + k = prec"
      "0 < digits_from 0 ds" "digits_from 0 ds * 10 ^ k = w mod 10 ^ prec"
    have p: "(10 :: nat) ^ prec = 10 ^ k * 10 ^ length ds" using d(4) by (metis add.commute power_add)
    have "digits_from 0 ds * 1 \<le> digits_from 0 ds * 10 ^ k" by (intro mult_le_mono) simp_all
    then have f: "digits_from 0 ds < 2 ^ 53" using d(6) small by simp
    have l: "(10 :: nat) ^ length ds < 2 ^ 53"
    proof -
      have "(10 :: nat) ^ length ds \<le> 10 ^ 9" using assms(3) d(4) by (intro power_increasing) simp_all
      then show ?thesis by simp
    qed
    have "duration_item orig (nat_digits n @ CHR ''.'' # ds @ u @ []) =
        Inr (n * (10 ^ k * 10 ^ length ds) + digits_from 0 ds * 10 ^ k, [])"
      by (rule item_frac)
        (use assms(2,4,5) d f l n n' small in \<open>simp_all add: p item_start_def\<close>)
    then show ?thesis using d(1,6) p by simp
  qed
qed

lemma loop_step:
  assumes "duration_item orig s = Inr (v, s')" "s \<noteq> []" "d + v \<le> two63"
  shows "duration_loop orig d s = duration_loop orig (d + v) s'"
  using assms by (subst duration_loop.simps) (simp add: two63_def)

lemma loop_end: "duration_loop orig d [] = Inr d"
  by (simp add: duration_loop.simps)

lemma body_loop:
  assumes "u \<le> two63"
  shows "duration_loop orig 0 (duration_body u) = Inr u"
proof -
  have units: "map_of unitMap ''ns'' = Some (10 ^ 0)" "map_of unitMap ([CHR 0xC2, CHR 0xB5] @ ''s'') = Some (10 ^ 3)"
    "map_of unitMap ''ms'' = Some (10 ^ 6)" "map_of unitMap ''s'' = Some (10 ^ 9)"
    "map_of unitMap ''m'' = Some 60000000000" "map_of unitMap ''h'' = Some 3600000000000"
    by (simp_all add: unitMap_def)
  have words: "unit_word ''ns''" "unit_word ([CHR 0xC2, CHR 0xB5] @ ''s'')" "unit_word ''ms''" "unit_word ''s''"
    "unit_word ''m''" "unit_word ''h''"
    by (simp_all add: unit_word_def in_number_def isDigit_def)
  have one: "duration_loop orig 0 (case fmtFrac u prec False w of (b, v) \<Rightarrow> nat_digits v @ b) = Inr u"
    if "map_of unitMap w = Some (10 ^ prec)" "unit_word w" "prec \<le> 9" for prec w
  proof -
    obtain b v where bv: "fmtFrac u prec False w = (b, v)" by fastforce
    have v: "v * 10 ^ prec + u mod 10 ^ prec = u" using fmtFrac_silent [OF bv] div_mult_mod_eq [of u "10 ^ prec"] by blast
    from item_fmt [OF bv that(1,3,2), of v orig] have "duration_item orig (nat_digits v @ b) = Inr (u, [])"
      using assms by (simp add: v)
    from loop_step [OF this, of 0] assms bv show ?thesis by (simp add: nat_digits_nonempty loop_end)
  qed
  consider "u = 0" | "u \<noteq> 0" "u < 1000" | "1000 \<le> u" "u < 1000000" | "1000000 \<le> u" "u < 1000000000"
    | "1000000000 \<le> u" by linarith
  then show ?thesis
  proof cases
    case 1
    have "digit_char 0 = CHR ''0''" by code_simp
    then have z: "nat_digits 0 = ''0''" by (subst nat_digits.simps) simp
    from item_int [OF units(4) words(4), of "[]" 0 orig] have "duration_item orig ''0s'' = Inr (0, [])"
      by (simp add: item_start_def z)
    from loop_step [OF this, of 0] 1 show ?thesis by (simp add: duration_body_def loop_end)
  next
    case 2
    then show ?thesis using one [OF units(1) words(1)] by (simp add: duration_body_def del: fmtFrac.simps)
  next
    case 3
    then show ?thesis using one [OF units(2) words(2)] by (simp add: duration_body_def del: fmtFrac.simps)
  next
    case 4
    then show ?thesis using one [OF units(3) words(3)] by (simp add: duration_body_def del: fmtFrac.simps)
  next
    case 5
    obtain b v where bv: "fmtFrac u 9 False ''s'' = (b, v)" by fastforce
    then have v: "v = u div 10 ^ 9" using fmtFrac_silent by blast
    let ?s = "nat_digits (v mod 60) @ b" and ?m = "v div 60"
    let ?ms = "nat_digits (?m mod 60) @ ''m'' @ ?s"
    have vu: "v * 1000000000 + u mod 1000000000 = u" by (simp add: v)
    have parts: "?m div 60 * 3600000000000 + ?m mod 60 * 60000000000 + (v mod 60 * 1000000000 + u mod 1000000000) = u"
      using vu div_mult_mod_eq [of v 60] div_mult_mod_eq [of ?m 60] by linarith
    have s: "duration_item orig ?s = Inr (v mod 60 * 1000000000 + u mod 1000000000, [])"
      using item_fmt [OF bv units(4) _ words(4), of "v mod 60" orig] parts assms by simp
    have start: "item_start (nat_digits n @ x)" for n x
      using nat_digits_Cons [of n] by (auto simp: item_start_def in_number_digit)
    have m: "duration_item orig ?ms = Inr (?m mod 60 * 60000000000, ?s)"
      by (rule item_int [OF units(5) words(5) start]) (simp_all add: two63_def)
    have hb: "?m div 60 \<le> two63 div 3600000000000"
      using parts assms by (simp add: two63_def)
    have h: "duration_item orig (nat_digits (?m div 60) @ ''h'' @ ?ms) = Inr (?m div 60 * 3600000000000, ?ms)"
      by (rule item_int [OF units(6) words(6) start hb]) (use hb in \<open>simp add: two63_def\<close>)
    have ls: "duration_loop orig d ?s = Inr u" if "d + (v mod 60 * 1000000000 + u mod 1000000000) = u" for d
      using loop_step [OF s, of d] that assms by (simp add: nat_digits_nonempty loop_end)
    have lm: "duration_loop orig d ?ms = Inr u"
      if "d + ?m mod 60 * 60000000000 + (v mod 60 * 1000000000 + u mod 1000000000) = u" for d
      using loop_step [OF m, of d] ls that assms by (simp add: nat_digits_nonempty)
    have lh: "duration_loop orig 0 (nat_digits (?m div 60) @ ''h'' @ ?ms) = Inr u"
      using loop_step [OF h, of 0] lm parts assms by (simp add: nat_digits_nonempty)
    have ls0: "duration_loop orig 0 (nat_digits v @ b) = Inr u" if "?m = 0"
      using ls [of 0] parts that by (simp add: div_eq_0_iff)
    show ?thesis
      using 5 bv ls0 lm [of 0] lh parts by (simp add: duration_body_def Let_def del: fmtFrac.simps)
  qed
qed

lemma body_start: "\<exists>c s. duration_body u = c # s \<and> isDigit c"
proof -
  have d: "\<exists>c s. nat_digits n @ x = c # s \<and> isDigit c" for n x using nat_digits_Cons [of n] by auto
  then show ?thesis
    by (auto simp: duration_body_def Let_def isDigit_def split: prod.splits)
qed

lemma ParseDuration_String:
  assumes "in_int64 d"
  shows "ParseDuration (DurationString d) = Inr d"
proof -
  let ?b = "duration_body (nat \<bar>d\<bar>)"
  have u: "nat \<bar>d\<bar> \<le> two63" using assms by (simp add: int64_defs two63_def nat_le_iff abs_le_iff)
  obtain c s where c: "?b = c # s" "isDigit c" using body_start by blast
  then have sign: "c \<noteq> CHR ''-''" "c \<noteq> CHR ''+''" by (auto simp: isDigit_def)
  have "duration_loop orig 0 ''0'' \<noteq> Inr n" for orig n
    by (simp add: duration_loop.simps duration_item_def duration_number_def duration_unit_def in_number_def
        isDigit_def digit_val_def two63_def)
  then have "?b \<noteq> ''0''" using body_loop [OF u] by metis
  then show ?thesis
    using body_loop [OF u] c sign assms
    by (auto simp: ParseDuration_def DurationString_def Let_def int64_defs two63_def)
qed

text \<open>Whatever is accepted fits 64 bits.\<close>

lemma duration_loop_le: "duration_loop orig d s = Inr n \<Longrightarrow> d \<le> two63 \<Longrightarrow> n \<le> two63"
proof (induction orig d s rule: duration_loop.induct)
  case (1 orig d s)
  from 1(2) [unfolded duration_loop.simps [of orig d s]] show ?case
    using 1(1,3) by (auto simp: Let_def split: if_splits sum.splits prod.splits)
qed

lemma ParseDuration_in_int64:
  assumes "ParseDuration s = Inr d"
  shows "in_int64 d"
  using assms duration_loop_le [of s 0]
  by (force simp: ParseDuration_def Let_def int64_defs two63_def split: if_splits sum.splits)

end
