(* ===== verification/GoRegexp.thy ===== *)
theory GoRegexp
  imports GoStrings
begin

text \<open>
  The part of package \<open>regexp\<close> the configuration uses: character classes,
  concatenation, \<open>?\<close>, \<open>*\<close>, \<open>+\<close>, matched against a whole string (\<open>^\<close> to \<open>$\<close>).  The
  meaning of an expression is the relation \<open>accepts\<close>; \<open>re_match\<close> decides it by
  consuming the string byte by byte.  The classes used hold ASCII only, so bytes
  and runes agree.
\<close>

section \<open>Expressions and their meaning\<close>

datatype regexp =
    RNothing
  | REmpty
  | RClass "(char \<times> char) list"
  | RSeq regexp regexp
  | RAlt regexp regexp
  | RStar regexp

definition ROpt :: "regexp \<Rightarrow> regexp" where
  "ROpt r = RAlt REmpty r"

definition RPlus :: "regexp \<Rightarrow> regexp" where
  "RPlus r = RSeq r (RStar r)"

definition RChar :: "char \<Rightarrow> regexp" where
  "RChar c = RClass [(c, c)]"

definition in_class :: "(char \<times> char) list \<Rightarrow> char \<Rightarrow> bool" where
  "in_class rs c = list_ex (\<lambda>(a, b). of_char a \<le> (of_char c :: nat) \<and> of_char c \<le> (of_char b :: nat)) rs"

inductive accepts :: "regexp \<Rightarrow> string \<Rightarrow> bool" where
  acc_empty: "accepts REmpty []"
| acc_class: "in_class rs c \<Longrightarrow> accepts (RClass rs) [c]"
| acc_seq: "accepts r s \<Longrightarrow> accepts q t \<Longrightarrow> accepts (RSeq r q) (s @ t)"
| acc_left: "accepts r s \<Longrightarrow> accepts (RAlt r q) s"
| acc_right: "accepts q s \<Longrightarrow> accepts (RAlt r q) s"
| acc_done: "accepts (RStar r) []"
| acc_more: "accepts r s \<Longrightarrow> accepts (RStar r) t \<Longrightarrow> accepts (RStar r) (s @ t)"

inductive_simps accepts_simps:
  "accepts RNothing s" "accepts REmpty s" "accepts (RClass rs) s" "accepts (RSeq r q) s" "accepts (RAlt r q) s"

inductive_cases accepts_seqE: "accepts (RSeq r q) s"

section \<open>The matcher\<close>

fun skippable :: "regexp \<Rightarrow> bool" where
  "skippable RNothing = False"
| "skippable REmpty = True"
| "skippable (RClass rs) = False"
| "skippable (RSeq r q) = (skippable r \<and> skippable q)"
| "skippable (RAlt r q) = (skippable r \<or> skippable q)"
| "skippable (RStar r) = True"

text \<open>Constructors that keep the remainders small.\<close>

definition mk_seq :: "regexp \<Rightarrow> regexp \<Rightarrow> regexp" where
  "mk_seq r q = (if r = RNothing then RNothing else if r = REmpty then q else RSeq r q)"

definition mk_alt :: "regexp \<Rightarrow> regexp \<Rightarrow> regexp" where
  "mk_alt r q = (if r = RNothing then q else if q = RNothing \<or> r = q then r else RAlt r q)"

fun rest_after :: "char \<Rightarrow> regexp \<Rightarrow> regexp" where
  "rest_after c RNothing = RNothing"
| "rest_after c REmpty = RNothing"
| "rest_after c (RClass rs) = (if in_class rs c then REmpty else RNothing)"
| "rest_after c (RSeq r q) =
     (let here = mk_seq (rest_after c r) q in if skippable r then mk_alt here (rest_after c q) else here)"
| "rest_after c (RAlt r q) = mk_alt (rest_after c r) (rest_after c q)"
| "rest_after c (RStar r) = mk_seq (rest_after c r) (RStar r)"

fun re_match :: "regexp \<Rightarrow> string \<Rightarrow> bool" where
  "re_match r [] = skippable r"
| "re_match r (c # s) = re_match (rest_after c r) s"

section \<open>The matcher decides the meaning\<close>

lemma accepts_mk_seq: "accepts (mk_seq r q) s = accepts (RSeq r q) s"
  by (auto simp: mk_seq_def accepts_simps)

lemma accepts_mk_alt: "accepts (mk_alt r q) s = accepts (RAlt r q) s"
  by (auto simp: mk_alt_def accepts_simps)

lemma skippable_accepts: "skippable r \<longleftrightarrow> accepts r []"
  by (induction r) (auto simp: accepts_simps intro: accepts.intros)

lemma accepts_star_Cons:
  "accepts (RStar r) (c # s) \<longleftrightarrow> (\<exists>t u. s = t @ u \<and> accepts r (c # t) \<and> accepts (RStar r) u)"
proof
  assume "accepts (RStar r) (c # s)"
  then show "\<exists>t u. s = t @ u \<and> accepts r (c # t) \<and> accepts (RStar r) u"
  proof (induction "RStar r" "c # s" rule: accepts.induct)
    case (acc_more t u)
    then show ?case by (cases t) auto
  qed
next
  assume "\<exists>t u. s = t @ u \<and> accepts r (c # t) \<and> accepts (RStar r) u"
  then obtain t u where "c # s = (c # t) @ u" "accepts r (c # t)" "accepts (RStar r) u" by auto
  then show "accepts (RStar r) (c # s)" by (metis acc_more)
qed

lemma rest_after_accepts: "accepts (rest_after c r) s \<longleftrightarrow> accepts r (c # s)"
proof (induction r arbitrary: s)
  case (RSeq r q)
  have "accepts (RSeq r q) (c # s) \<longleftrightarrow>
      (\<exists>t u. s = t @ u \<and> accepts r (c # t) \<and> accepts q u) \<or> accepts r [] \<and> accepts q (c # s)"
    by (auto simp: accepts_simps Cons_eq_append_conv)
  with RSeq show ?case
    by (auto simp: Let_def accepts_mk_alt accepts_mk_seq skippable_accepts accepts_simps)
qed (auto simp: accepts_mk_alt accepts_mk_seq accepts_star_Cons accepts_simps)

lemma re_match_accepts: "re_match r s \<longleftrightarrow> accepts r s"
  by (induction s arbitrary: r) (simp_all add: skippable_accepts rest_after_accepts)

section \<open>Lists of a separator\<close>

lemma accepts_class_seq:
  "accepts (RSeq (RClass rs) q) s \<longleftrightarrow> (\<exists>c t. s = c # t \<and> in_class rs c \<and> accepts q t)"
proof
  assume "accepts (RSeq (RClass rs) q) s"
  then show "\<exists>c t. s = c # t \<and> in_class rs c \<and> accepts q t"
    by (subst (asm) accepts_simps(4)) (auto simp: accepts_simps(3))
next
  assume "\<exists>c t. s = c # t \<and> in_class rs c \<and> accepts q t"
  then show "accepts (RSeq (RClass rs) q) s" using acc_seq [OF acc_class, of rs] by auto
qed

lemma accepts_star_class: "accepts (RStar (RClass rs)) s \<longleftrightarrow> list_all (in_class rs) s"
proof (induction s)
  case (Cons c s)
  then show ?case by (auto simp: accepts_star_Cons accepts_simps)
qed (simp add: acc_done)

lemma accepts_star_iff: "accepts (RStar r) s \<longleftrightarrow> (\<exists>ss. list_all (accepts r) ss \<and> s = concat ss)"
proof
  assume "accepts (RStar r) s"
  then show "\<exists>ss. list_all (accepts r) ss \<and> s = concat ss"
  proof (induction "RStar r" s rule: accepts.induct)
    case acc_done
    then show ?case by (intro exI [of _ "[]"]) simp
  next
    case (acc_more s t)
    then obtain ss where "list_all (accepts r) ss" "t = concat ss" by blast
    with acc_more show ?case by (intro exI [of _ "s # ss"]) simp
  qed
next
  assume "\<exists>ss. list_all (accepts r) ss \<and> s = concat ss"
  then obtain ss where "list_all (accepts r) ss" "s = concat ss" by blast
  then show "accepts (RStar r) s"
    by (induction ss arbitrary: s) (auto intro: accepts.intros)
qed

definition joined :: "char \<Rightarrow> string \<Rightarrow> string list \<Rightarrow> string" where
  "joined d l ls = l @ concat (map (Cons d) ls)"

lemma Split_joined: "d \<notin> set l \<Longrightarrow> \<forall>l' \<in> set ls. d \<notin> set l' \<Longrightarrow> Split (joined d l ls) d = l # ls"
proof (induction ls arbitrary: l)
  case Nil
  then show ?case by (induction l) (auto simp: joined_def)
next
  case (Cons l' ls)
  from Cons.prems(1) show ?case
  proof (induction l)
    case Nil
    then show ?case using Cons.IH [of l'] Cons.prems by (simp add: joined_def)
  qed (auto simp: joined_def)
qed

lemma joined_Split: "Split s d = l # ls \<Longrightarrow> joined d l ls = s"
proof (induction s arbitrary: l ls)
  case (Cons c s)
  obtain p ps where p: "Split s d = p # ps" using Split_nonempty [of s d] by (cases "Split s d") auto
  from Cons.IH [OF p] have s: "s = joined d p ps" by simp
  from Cons.prems p have "c = d \<and> l = [] \<and> ls = p # ps \<or> c \<noteq> d \<and> l = c # p \<and> ls = ps"
    by (auto split: if_splits)
  with s show ?case by (auto simp: joined_def)
qed (simp add: joined_def)

end
