(* ===== verification/HostNames.thy ===== *)
theory HostNames
  imports GoRegexp
begin

text \<open>
  The pattern of a host name in \<open>internal/config/config.go\<close>, and what it takes.
\<close>

section \<open>The pattern\<close>

text \<open>\<open>^[a-z0-9]([a-z0-9-]*[a-z0-9])?(\.[a-z0-9]([a-z0-9-]*[a-z0-9])?)+\.?$\<close>\<close>

definition alnum :: "(char \<times> char) list" where
  "alnum = [(CHR ''a'', CHR ''z''), (CHR ''0'', CHR ''9'')]"

definition fqdn_label_re :: regexp where
  "fqdn_label_re =
     RSeq (RClass alnum) (ROpt (RSeq (RStar (RClass (alnum @ [(CHR ''-'', CHR ''-'')]))) (RClass alnum)))"

definition fqdnRe :: regexp where
  "fqdnRe = RSeq fqdn_label_re (RSeq (RPlus (RSeq (RChar CHR ''.'') fqdn_label_re)) (ROpt (RChar CHR ''.'')))"

definition fqdnRe_MatchString :: "string \<Rightarrow> bool" where
  "fqdnRe_MatchString s = re_match fqdnRe s"

section \<open>What it takes\<close>

text \<open>
  What \<open>fqdnRe\<close> takes: two labels at least, of letters, digits and inner dashes, and
  one optional dot at the end.
\<close>

definition is_alnum :: "char \<Rightarrow> bool" where
  "is_alnum c = (let n = (of_char c :: nat) in 97 \<le> n \<and> n \<le> 122 \<or> 48 \<le> n \<and> n \<le> 57)"

definition fqdn_label :: "string \<Rightarrow> bool" where
  "fqdn_label l \<longleftrightarrow>
     l \<noteq> [] \<and> is_alnum (hd l) \<and> is_alnum (last l) \<and> list_all (\<lambda>c. is_alnum c \<or> c = CHR ''-'') l"

definition fqdn :: "string \<Rightarrow> bool" where
  "fqdn s \<longleftrightarrow> (let ls = Split (TrimSuffix s ''.'') CHR ''.'' in 2 \<le> length ls \<and> list_all fqdn_label ls)"

lemma in_class_alnum: "in_class alnum c \<longleftrightarrow> is_alnum c"
  by (auto simp: in_class_def alnum_def is_alnum_def Let_def)

lemma in_class_inner: "in_class (alnum @ [(CHR ''-'', CHR ''-'')]) c \<longleftrightarrow> is_alnum c \<or> c = CHR ''-''"
proof -
  have "of_char c = (45 :: nat) \<longleftrightarrow> c = CHR ''-''"
    using of_char_eq_iff [of c "CHR ''-''"] by (simp del: of_char_eq_iff)
  then show ?thesis by (auto simp: in_class_def alnum_def is_alnum_def Let_def)
qed

lemma in_class_dot: "in_class [(CHR ''.'', CHR ''.'')] c \<longleftrightarrow> c = CHR ''.''"
proof -
  have "of_char c = (46 :: nat) \<longleftrightarrow> c = CHR ''.''"
    using of_char_eq_iff [of c "CHR ''.''"] by (simp del: of_char_eq_iff)
  then show ?thesis by (auto simp: in_class_def)
qed

lemma accepts_alnum: "accepts (RClass alnum) s \<longleftrightarrow> (\<exists>c. s = [c] \<and> is_alnum c)"
  by (simp add: accepts_simps in_class_alnum)

lemma accepts_inner:
  "accepts (RStar (RClass (alnum @ [(CHR ''-'', CHR ''-'')]))) s \<longleftrightarrow> list_all (\<lambda>c. is_alnum c \<or> c = CHR ''-'') s"
  by (simp only: accepts_star_class in_class_inner cong: list.pred_cong)

lemma accepts_label: "accepts fqdn_label_re l \<longleftrightarrow> fqdn_label l"
proof -
  have tail: "accepts (RSeq (RStar (RClass (alnum @ [(CHR ''-'', CHR ''-'')]))) (RClass alnum)) t \<longleftrightarrow>
      (\<exists>m b. t = m @ [b] \<and> list_all (\<lambda>c. is_alnum c \<or> c = CHR ''-'') m \<and> is_alnum b)" for t
    unfolding accepts_simps(4) [of "RStar (RClass (alnum @ [(CHR ''-'', CHR ''-'')]))"] accepts_inner accepts_alnum
    by auto
  have "accepts fqdn_label_re l \<longleftrightarrow>
      (\<exists>a t. l = a # t \<and> is_alnum a \<and> (t = [] \<or>
        (\<exists>m b. t = m @ [b] \<and> list_all (\<lambda>c. is_alnum c \<or> c = CHR ''-'') m \<and> is_alnum b)))"
    unfolding fqdn_label_re_def ROpt_def accepts_class_seq in_class_alnum accepts_simps(5) accepts_simps(2) tail
    by auto
  also have "\<dots> \<longleftrightarrow> fqdn_label l"
  proof (cases l)
    case (Cons a t)
    then show ?thesis by (cases t rule: rev_cases) (auto simp: fqdn_label_def)
  qed (simp add: fqdn_label_def)
  finally show ?thesis .
qed

lemma fqdn_label_dotless: "fqdn_label l \<Longrightarrow> CHR ''.'' \<notin> set l"
  by (auto simp: fqdn_label_def list_all_iff is_alnum_def Let_def)

lemma accepts_dot: "accepts (RChar CHR ''.'') s \<longleftrightarrow> s = ''.''"
  by (auto simp: RChar_def accepts_simps in_class_dot)

lemma accepts_dotted: "accepts (RSeq (RChar CHR ''.'') fqdn_label_re) s \<longleftrightarrow> (\<exists>l. s = CHR ''.'' # l \<and> fqdn_label l)"
  by (auto simp: accepts_simps accepts_dot accepts_label)

lemma accepts_dotteds:
  "accepts (RStar (RSeq (RChar CHR ''.'') fqdn_label_re)) s \<longleftrightarrow>
     (\<exists>ls. list_all fqdn_label ls \<and> s = concat (map (Cons CHR ''.'') ls))"
proof -
  have "(\<exists>ss. list_all (\<lambda>s. \<exists>l. s = CHR ''.'' # l \<and> fqdn_label l) ss \<and> s = concat ss) \<longleftrightarrow>
      (\<exists>ls. list_all fqdn_label ls \<and> s = concat (map (Cons CHR ''.'') ls))"
  proof
    assume "\<exists>ss. list_all (\<lambda>s. \<exists>l. s = CHR ''.'' # l \<and> fqdn_label l) ss \<and> s = concat ss"
    then obtain ss where ss: "list_all (\<lambda>s. \<exists>l. s = CHR ''.'' # l \<and> fqdn_label l) ss" "s = concat ss" by blast
    then have "map (Cons CHR ''.'') (map tl ss) = ss" "list_all fqdn_label (map tl ss)"
      by (auto simp: list_all_iff intro!: map_idI)
    with ss show "\<exists>ls. list_all fqdn_label ls \<and> s = concat (map (Cons CHR ''.'') ls)" by metis
  next
    assume "\<exists>ls. list_all fqdn_label ls \<and> s = concat (map (Cons CHR ''.'') ls)"
    then obtain ls where "list_all fqdn_label ls" "s = concat (map (Cons CHR ''.'') ls)" by blast
    then show "\<exists>ss. list_all (\<lambda>s. \<exists>l. s = CHR ''.'' # l \<and> fqdn_label l) ss \<and> s = concat ss"
      by (intro exI [of _ "map (Cons CHR ''.'') ls"]) (auto simp: list_all_iff)
  qed
  then show ?thesis by (simp add: accepts_star_iff accepts_dotted cong: list.pred_cong)
qed

lemma joined_last:
  "list_all fqdn_label (l # ls) \<Longrightarrow> joined CHR ''.'' l ls \<noteq> [] \<and> last (joined CHR ''.'' l ls) \<noteq> CHR ''.''"
proof (induction ls arbitrary: l)
  case Nil
  then have "l \<noteq> []" "CHR ''.'' \<notin> set l"
    using fqdn_label_dotless by (auto simp: fqdn_label_def)
  moreover from this have "last l \<noteq> CHR ''.''" by (metis last_in_set)
  ultimately show ?case by (simp add: joined_def)
next
  case (Cons l' ls)
  from Cons.IH [of l'] Cons.prems show ?case by (auto simp: joined_def)
qed

lemma fqdnRe_joined:
  "fqdnRe_MatchString s \<longleftrightarrow>
     (\<exists>l ls. list_all fqdn_label (l # ls) \<and> ls \<noteq> [] \<and>
        (s = joined CHR ''.'' l ls \<or> s = joined CHR ''.'' l ls @ ''.''))"
proof -
  have plus: "accepts (RPlus (RSeq (RChar CHR ''.'') fqdn_label_re)) t \<longleftrightarrow>
      (\<exists>ls. ls \<noteq> [] \<and> list_all fqdn_label ls \<and> t = concat (map (Cons CHR ''.'') ls))" for t
  proof -
    have "accepts (RPlus (RSeq (RChar CHR ''.'') fqdn_label_re)) t \<longleftrightarrow>
        (\<exists>l ls. fqdn_label l \<and> list_all fqdn_label ls \<and> t = concat (map (Cons CHR ''.'') (l # ls)))"
    proof
      assume "accepts (RPlus (RSeq (RChar CHR ''.'') fqdn_label_re)) t"
      then obtain u v where "t = u @ v" "accepts (RSeq (RChar CHR ''.'') fqdn_label_re) u"
        "accepts (RStar (RSeq (RChar CHR ''.'') fqdn_label_re)) v"
        unfolding RPlus_def by (rule accepts_seqE)
      then show "\<exists>l ls. fqdn_label l \<and> list_all fqdn_label ls \<and> t = concat (map (Cons CHR ''.'') (l # ls))"
        unfolding accepts_dotted accepts_dotteds by (elim exE conjE) (intro exI conjI; simp)
    next
      assume "\<exists>l ls. fqdn_label l \<and> list_all fqdn_label ls \<and> t = concat (map (Cons CHR ''.'') (l # ls))"
      then obtain l ls where l: "fqdn_label l" "list_all fqdn_label ls"
        "t = (CHR ''.'' # l) @ concat (map (Cons CHR ''.'') ls)" by auto
      have "accepts (RSeq (RChar CHR ''.'') fqdn_label_re) (CHR ''.'' # l)"
        unfolding accepts_dotted using l(1) by blast
      moreover have "accepts (RStar (RSeq (RChar CHR ''.'') fqdn_label_re)) (concat (map (Cons CHR ''.'') ls))"
        unfolding accepts_dotteds using l(2) by blast
      ultimately show "accepts (RPlus (RSeq (RChar CHR ''.'') fqdn_label_re)) t"
        unfolding RPlus_def l(3) by (rule acc_seq)
    qed
    also have "\<dots> \<longleftrightarrow> (\<exists>ls. ls \<noteq> [] \<and> list_all fqdn_label ls \<and> t = concat (map (Cons CHR ''.'') ls))"
      by (metis list.distinct(1) list.pred_inject(2) neq_Nil_conv)
    finally show ?thesis .
  qed
  have dot: "accepts (ROpt (RChar CHR ''.'')) u \<longleftrightarrow> u = [] \<or> u = ''.''" for u
    unfolding ROpt_def accepts_simps(5) accepts_simps(2) accepts_dot ..
  have "accepts fqdnRe s \<longleftrightarrow>
      (\<exists>l t u. s = l @ t @ u \<and> fqdn_label l \<and> accepts (RPlus (RSeq (RChar CHR ''.'') fqdn_label_re)) t \<and>
        (u = [] \<or> u = ''.''))"
    unfolding fqdnRe_def accepts_simps(4) [of fqdn_label_re]
      accepts_simps(4) [of "RPlus (RSeq (RChar CHR ''.'') fqdn_label_re)"] accepts_label dot
    by blast
  also have "\<dots> \<longleftrightarrow> (\<exists>l ls u. list_all fqdn_label (l # ls) \<and> ls \<noteq> [] \<and> s = joined CHR ''.'' l ls @ u \<and>
        (u = [] \<or> u = ''.''))"
    unfolding plus joined_def append_assoc list.pred_inject by blast
  also have "\<dots> \<longleftrightarrow> (\<exists>l ls. list_all fqdn_label (l # ls) \<and> ls \<noteq> [] \<and>
        (s = joined CHR ''.'' l ls \<or> s = joined CHR ''.'' l ls @ ''.''))"
    by (metis append_Nil2)
  finally show ?thesis unfolding fqdnRe_MatchString_def re_match_accepts .
qed

lemma fqdnRe_fqdn: "fqdnRe_MatchString s \<longleftrightarrow> fqdn s"
proof
  assume "fqdnRe_MatchString s"
  then obtain l ls where l: "list_all fqdn_label (l # ls)" "ls \<noteq> []"
      "s = joined CHR ''.'' l ls \<or> s = joined CHR ''.'' l ls @ ''.''"
    by (auto simp: fqdnRe_joined)
  have "\<not> HasSuffix (joined CHR ''.'' l ls) ''.''" using joined_last [OF l(1)] by (simp add: HasSuffix_single)
  with l(3) have "TrimSuffix s ''.'' = joined CHR ''.'' l ls" by auto
  moreover have "Split (joined CHR ''.'' l ls) CHR ''.'' = l # ls"
    by (rule Split_joined) (use l(1) fqdn_label_dotless in \<open>auto simp: list_all_iff\<close>)
  ultimately show "fqdn s" using l(1,2) by (cases ls) (simp_all add: fqdn_def)
next
  assume f: "fqdn s"
  then obtain l ls where l: "Split (TrimSuffix s ''.'') CHR ''.'' = l # ls" "ls \<noteq> []" "list_all fqdn_label (l # ls)"
    by (cases "Split (TrimSuffix s ''.'') CHR ''.''") (force simp: fqdn_def Let_def)+
  have "TrimSuffix s ''.'' = joined CHR ''.'' l ls" using joined_Split [OF l(1)] by simp
  with l(2,3) show "fqdnRe_MatchString s"
    by (cases s "''.''" rule: TrimSuffix_cases) (auto simp: fqdnRe_joined)
qed

section \<open>Properties\<close>


end
