(* ===== verification/Config.thy ===== *)
theory Config
  imports GoNet GoBase64 GoDuration HostNames "HOL-Library.List_Lexorder" "HOL-Library.Char_ord"
begin

text \<open>
  Reading the configuration (\<open>internal/config/config.go\<close>).

  The process environment and the file system are the record \<open>host\<close>: what
  \<open>LookupEnv\<close>, \<open>ReadFile\<close> and \<open>CreateTemp\<close> answer; \<open>dns.Fqdn\<close> of \<open>miekg/dns\<close> is a field of
  it too.  The writes of the temporary keytab are returned in order.
\<close>

section \<open>The host\<close>

record host =
  h_env :: "string \<rightharpoonup> string"
  h_ReadFile :: "string \<Rightarrow> string + string"
  h_CreateTemp :: "string + string"
  h_Chmod :: "string \<Rightarrow> string option"
  h_Write :: "string \<Rightarrow> string \<Rightarrow> string option"
  h_Fqdn :: "string \<Rightarrow> string"

datatype fsop = CreatedTemp string | Chmod string nat | Wrote string string | Closed string

type_synonym 'a io = "'a go \<times> fsop list"

definition pure :: "'a go \<Rightarrow> 'a io" where
  "pure r = (r, [])"

definition bind_io :: "'a io \<Rightarrow> ('a \<Rightarrow> 'b io) \<Rightarrow> 'b io" where
  "bind_io m f =
     (case m of
        (Ok a, ops) \<Rightarrow> (case f a of (r, ops') \<Rightarrow> (r, ops @ ops'))
      | (Err e, ops) \<Rightarrow> (Err e, ops)
      | (Panic, ops) \<Rightarrow> (Panic, ops))"

definition Getenv :: "host \<Rightarrow> string \<Rightarrow> string" where
  "Getenv H k = (case h_env H k of None \<Rightarrow> [] | Some v \<Rightarrow> v)"

section \<open>Data\<close>

datatype AuthMode = AuthGSSTSIG | AuthHMACTSIG | AuthInsecure

fun mode_string :: "AuthMode \<Rightarrow> string" where
  "mode_string AuthGSSTSIG = ''gss-tsig''"
| "mode_string AuthHMACTSIG = ''hmac-tsig''"
| "mode_string AuthInsecure = ''insecure''"

text \<open>The FQDN forms are the algorithm names of RFC 8945, as \<open>miekg/dns\<close> spells them.\<close>

definition tsigAlgs :: "(string \<times> string) list" where
  "tsigAlgs =
     [(''hmac-sha1'', ''hmac-sha1.''), (''hmac-sha224'', ''hmac-sha224.''),
      (''hmac-sha256'', ''hmac-sha256.''), (''hmac-sha384'', ''hmac-sha384.''),
      (''hmac-sha512'', ''hmac-sha512.'')]"

record Config =
  c_Listen :: string
  c_AuthMode :: AuthMode
  c_TSIGKeyName :: string
  c_TSIGSecret :: string
  c_TSIGAlgorithm :: string
  c_Realm :: string
  c_Principal :: string
  c_Keytab :: string
  c_Password :: string
  c_Krb5Conf :: string
  c_DryRun :: bool
  c_KinitRefreshInterval :: int
  c_Hosts :: "string list"
  c_Port :: int
  c_Zones :: "string list"
  c_AxfrEnabled :: bool
  c_DefaultTTL :: int
  c_MinTTL :: int
  c_CircuitBreakerThreshold :: int
  c_DomainFilter :: "string list"
  c_AxfrTimeout :: int
  c_UpdateTimeout :: int

section \<open>Single variables\<close>

definition envOr :: "host \<Rightarrow> string \<Rightarrow> string \<Rightarrow> string" where
  "envOr H key fallback =
     (case h_env H key of Some v \<Rightarrow> if v \<noteq> [] then v else fallback | None \<Rightarrow> fallback)"

definition config_parseBool :: "host \<Rightarrow> string \<Rightarrow> bool" where
  "config_parseBool H key =
     (let v = Getenv H key
      in if v = [] then False else case ParseBool v of Some b \<Rightarrow> b | None \<Rightarrow> False)"

definition parseBoolDefault :: "host \<Rightarrow> string \<Rightarrow> bool \<Rightarrow> bool" where
  "parseBoolDefault H key fallback =
     (let v = Getenv H key
      in if v = [] then fallback else case ParseBool v of Some b \<Rightarrow> b | None \<Rightarrow> fallback)"

definition parseDuration :: "host \<Rightarrow> string \<Rightarrow> int \<Rightarrow> int go" where
  "parseDuration H key fallback =
     (let v = Getenv H key
      in if v = [] then Ok fallback
         else case ParseDuration v of
                Inl e \<Rightarrow> Err (key @ '': invalid duration '' @ Quote v @ '': '' @ e)
              | Inr d \<Rightarrow> if d \<le> 0 then Err (key @ '': must be > 0, got '' @ DurationString d) else Ok d)"

definition Second :: int where "Second = 1000000000"

text \<open>\<open>time.Duration(n) * time.Second\<close> is a 64-bit product.\<close>

definition parseSeconds :: "host \<Rightarrow> string \<Rightarrow> int \<Rightarrow> int go" where
  "parseSeconds H key fallback =
     (let v = Getenv H key
      in if v = [] then Ok fallback
         else case ParseInt v of
                None \<Rightarrow> Err (key @ '': must be a positive integer (seconds), got '' @ Quote v)
              | Some n \<Rightarrow>
                  if n \<le> 0 then Err (key @ '': must be a positive integer (seconds), got '' @ Quote v)
                  else Ok (wrap64 (n * Second)))"

definition parsePositiveInt :: "host \<Rightarrow> string \<Rightarrow> int \<Rightarrow> int go" where
  "parsePositiveInt H key fallback =
     (let v = Getenv H key
      in if v = [] then Ok fallback
         else case ParseInt v of
                None \<Rightarrow> Err (key @ '': must be a positive integer, got '' @ Quote v)
              | Some n \<Rightarrow>
                  if n \<le> 0 then Err (key @ '': must be a positive integer, got '' @ Quote v) else Ok n)"

definition parsePositiveInt64 :: "host \<Rightarrow> string \<Rightarrow> int \<Rightarrow> int go" where
  "parsePositiveInt64 H key fallback =
     (let v = Getenv H key
      in if v = [] then Ok fallback
         else case ParseInt v of
                None \<Rightarrow> Err (key @ '': must be a positive integer, got '' @ Quote v)
              | Some n \<Rightarrow>
                  if n \<le> 0 then Err (key @ '': must be a positive integer, got '' @ Quote v) else Ok n)"

text \<open>The cutset of \<open>TrimRight(s, \\r\\n)\<close>.\<close>

definition envOrFile :: "host \<Rightarrow> string \<Rightarrow> string \<Rightarrow> string go" where
  "envOrFile H envKey fileKey =
     (let env = Getenv H envKey; file = Getenv H fileKey
      in if env \<noteq> [] \<and> file \<noteq> [] then Err (''set exactly one of '' @ envKey @ '' or '' @ fileKey)
         else if env \<noteq> [] then Ok env
         else if file \<noteq> [] then
           (case h_ReadFile H file of
              Inl e \<Rightarrow> Err (fileKey @ '': read: '' @ e)
            | Inr b \<Rightarrow> Ok (TrimRight is_newline b))
         else Ok [])"

section \<open>Lists\<close>

definition trimmed :: "string \<Rightarrow> string" where
  "trimmed p = TrimSuffix (ToLower (TrimSpace p)) ''.''"

definition hosts_required :: string where
  "hosts_required = ''RFC2136_HOSTS is required (comma-separated server names)''"

fun hosts_loop :: "AuthMode \<Rightarrow> string list \<Rightarrow> string list \<Rightarrow> string list go" where
  "hosts_loop mode out [] = (if out = [] then Err hosts_required else Ok out)"
| "hosts_loop mode out (p # ps) =
     (let h = trimmed p
      in if h = [] then hosts_loop mode out ps
         else if is_ip h then
           (if mode = AuthGSSTSIG then
              Err (''RFC2136_HOSTS: '' @ Quote h @ '' is an IP literal '' @
                   [char_of (0xE2 :: nat), char_of (0x80 :: nat), char_of (0x94 :: nat)] @
                   '' Kerberos auth requires an FQDN with a matching SPN'')
            else hosts_loop mode (out @ [h]) ps)
         else if \<not> fqdnRe_MatchString h then Err (''RFC2136_HOSTS: '' @ Quote h @ '' is not a valid FQDN'')
         else hosts_loop mode (out @ [h]) ps)"

definition parseHosts :: "string \<Rightarrow> AuthMode \<Rightarrow> string list go" where
  "parseHosts raw mode =
     (if raw = [] then Err hosts_required else hosts_loop mode [] (Split raw CHR '',''))"

definition zones_required :: string where
  "zones_required = ''RFC2136_ZONES is required (comma-separated zone names)''"

fun zones_loop :: "string list \<Rightarrow> string list \<Rightarrow> string list go" where
  "zones_loop out [] = (if out = [] then Err zones_required else Ok out)"
| "zones_loop out (p # ps) =
     (let z = trimmed p
      in if z = [] then zones_loop out ps
         else if \<not> Contains z ''.'' then
           Err (''RFC2136_ZONES: '' @ Quote z @ '' must be a multi-label zone (e.g. corp.example.com)'')
         else zones_loop (out @ [z]) ps)"

definition parseZones :: "string \<Rightarrow> string list go" where
  "parseZones raw = (if raw = [] then Err zones_required else zones_loop [] (Split raw CHR '',''))"

definition parseDomainFilter :: "string \<Rightarrow> string list" where
  "parseDomainFilter raw =
     (if raw = [] then [] else filter (\<lambda>s. s \<noteq> []) (map trimmed (Split raw CHR '','')))"

section \<open>Authentication\<close>

definition parseAuthMode :: "string \<Rightarrow> AuthMode go" where
  "parseAuthMode raw =
     (let m = ToLower (TrimSpace raw)
      in if m = [] then Ok AuthGSSTSIG
         else if m = ''gss-tsig'' then Ok AuthGSSTSIG
         else if m = ''hmac-tsig'' then Ok AuthHMACTSIG
         else if m = ''insecure'' then Ok AuthInsecure
         else Err (''RFC2136_AUTH_MODE: '' @ Quote raw @ '' is not one of gss-tsig, hmac-tsig, insecure''))"

definition gssEnvVars :: "string list" where
  "gssEnvVars =
     [''RFC2136_KERBEROS_REALM'', ''RFC2136_KERBEROS_PRINCIPAL'', ''RFC2136_KERBEROS_PRINCIPAL_FILE'',
      ''RFC2136_KEYTAB_FILE'', ''RFC2136_KEYTAB_BASE64'', ''RFC2136_KEYTAB_BASE64_FILE'',
      ''RFC2136_AD_PASSWORD'', ''RFC2136_AD_PASSWORD_FILE'',
      ''RFC2136_KRB5_CONF'', ''RFC2136_KINIT_REFRESH_INTERVAL'']"

definition tsigEnvVars :: "string list" where
  "tsigEnvVars =
     [''RFC2136_TSIG_KEY_NAME'', ''RFC2136_TSIG_SECRET'', ''RFC2136_TSIG_SECRET_FILE'',
      ''RFC2136_TSIG_ALGORITHM'']"

fun foreign :: "AuthMode \<Rightarrow> string list list" where
  "foreign AuthGSSTSIG = [tsigEnvVars]"
| "foreign AuthHMACTSIG = [gssEnvVars]"
| "foreign AuthInsecure = [gssEnvVars, tsigEnvVars]"

definition rejectForeignEnv :: "host \<Rightarrow> AuthMode \<Rightarrow> unit go" where
  "rejectForeignEnv H mode =
     (case find (\<lambda>k. Getenv H k \<noteq> []) (concat (foreign mode)) of
        None \<Rightarrow> Ok ()
      | Some k \<Rightarrow> Err (k @ '' is set but RFC2136_AUTH_MODE='' @ mode_string mode @ '' never reads it''))"

text \<open>The keys of \<open>tsigAlgs\<close>, in whatever order Go ranges over them, then sorted by bytes.\<close>

definition supportedAlgs :: "string list" where
  "supportedAlgs = sort (map fst tsigAlgs)"

definition resolveTSIG :: "host \<Rightarrow> (string \<times> string \<times> string) go" where
  "resolveTSIG H =
     bind_go (envOrFile H ''RFC2136_TSIG_SECRET'' ''RFC2136_TSIG_SECRET_FILE'')
       (\<lambda>secret.
          (let algName = ToLower (TrimSpace (envOr H ''RFC2136_TSIG_ALGORITHM'' ''hmac-sha256''))
           in case map_of tsigAlgs algName of
                None \<Rightarrow> Err (''RFC2136_TSIG_ALGORITHM: '' @ Quote algName @
                           '' is not a supported TSIG algorithm (want one of '' @ Join supportedAlgs '', '' @ '')'')
              | Some alg \<Rightarrow>
                  (let raw = TrimSpace (Getenv H ''RFC2136_TSIG_KEY_NAME'');
                       nm = (if raw \<noteq> [] then h_Fqdn H (ToLower raw) else [])
                   in Ok (nm, secret, alg))))"

definition materialiseKeytabFromBase64 :: "host \<Rightarrow> string \<Rightarrow> string io" where
  "materialiseKeytabFromBase64 H b64 =
     (case DecodeString (TrimSpace b64) of
        Inl n \<Rightarrow> (Err (''RFC2136_KEYTAB_BASE64: decode: illegal base64 data at input byte '' @ Itoa (int n)), [])
      | Inr dat \<Rightarrow>
          (case h_CreateTemp H of
             Inl e \<Rightarrow> (Err (''RFC2136_KEYTAB_BASE64: create temp: '' @ e), [])
           | Inr f \<Rightarrow>
               (case h_Chmod H f of
                  Some e \<Rightarrow> (Err (''RFC2136_KEYTAB_BASE64: chmod: '' @ e), [CreatedTemp f, Closed f])
                | None \<Rightarrow>
                    (case h_Write H f dat of
                       Some e \<Rightarrow> (Err (''RFC2136_KEYTAB_BASE64: write: '' @ e),
                                [CreatedTemp f, Chmod f 0x180, Closed f])
                     | None \<Rightarrow> (Ok f, [CreatedTemp f, Chmod f 0x180, Wrote f dat, Closed f])))))"

definition one_source :: string where
  "one_source = ''set exactly one of RFC2136_KEYTAB_FILE, RFC2136_KEYTAB_BASE64, RFC2136_KEYTAB_BASE64_FILE, RFC2136_AD_PASSWORD, RFC2136_AD_PASSWORD_FILE''"

definition secret_sources :: "string list" where
  "secret_sources =
     [''RFC2136_KEYTAB_FILE'', ''RFC2136_KEYTAB_BASE64'', ''RFC2136_KEYTAB_BASE64_FILE'',
      ''RFC2136_AD_PASSWORD'', ''RFC2136_AD_PASSWORD_FILE'']"

definition resolveAuth :: "host \<Rightarrow> (string \<times> string) io" where
  "resolveAuth H =
     (let keytabFile = Getenv H ''RFC2136_KEYTAB_FILE'';
          keytabB64 = Getenv H ''RFC2136_KEYTAB_BASE64'';
          keytabB64File = Getenv H ''RFC2136_KEYTAB_BASE64_FILE'';
          password = Getenv H ''RFC2136_AD_PASSWORD'';
          passwordFile = Getenv H ''RFC2136_AD_PASSWORD_FILE''
      in if length (filter (\<lambda>v. v \<noteq> []) [keytabFile, keytabB64, keytabB64File, password, passwordFile]) > 1
         then pure (Err one_source)
         else if keytabFile \<noteq> [] then pure (Ok (keytabFile, []))
         else if keytabB64 \<noteq> [] then
           bind_io (materialiseKeytabFromBase64 H keytabB64) (\<lambda>path. pure (Ok (path, [])))
         else if keytabB64File \<noteq> [] then
           (case h_ReadFile H keytabB64File of
              Inl e \<Rightarrow> pure (Err (''RFC2136_KEYTAB_BASE64_FILE: read: '' @ e))
            | Inr b \<Rightarrow> bind_io (materialiseKeytabFromBase64 H b) (\<lambda>path. pure (Ok (path, []))))
         else if password \<noteq> [] then pure (Ok ([], password))
         else if passwordFile \<noteq> [] then
           (case h_ReadFile H passwordFile of
              Inl e \<Rightarrow> pure (Err (''RFC2136_AD_PASSWORD_FILE: read: '' @ e))
            | Inr b \<Rightarrow> pure (Ok ([], TrimRight is_newline b)))
         else pure (Ok ([], [])))"

definition validate :: "Config \<Rightarrow> unit go" where
  "validate c =
     (case c_AuthMode c of
        AuthGSSTSIG \<Rightarrow>
          (if c_Realm c = [] then Err ''RFC2136_KERBEROS_REALM is required in gss-tsig mode''
           else if c_Principal c = [] then Err ''RFC2136_KERBEROS_PRINCIPAL is required in gss-tsig mode''
           else if c_Keytab c = [] \<and> c_Password c = [] then
             Err ''one of RFC2136_KEYTAB_FILE, RFC2136_KEYTAB_BASE64, RFC2136_KEYTAB_BASE64_FILE, RFC2136_AD_PASSWORD, or RFC2136_AD_PASSWORD_FILE is required in gss-tsig mode''
           else if \<not> Contains (c_Principal c) ''@'' then
             Err ''RFC2136_KERBEROS_PRINCIPAL must be in name@REALM form''
           else Ok ())
      | AuthHMACTSIG \<Rightarrow>
          (if c_TSIGKeyName c = [] then Err ''RFC2136_TSIG_KEY_NAME is required in hmac-tsig mode''
           else if c_TSIGSecret c = [] then
             Err ''one of RFC2136_TSIG_SECRET or RFC2136_TSIG_SECRET_FILE is required in hmac-tsig mode''
           else Ok ())
      | AuthInsecure \<Rightarrow> Ok ())"

section \<open>Load\<close>

definition Load :: "host \<Rightarrow> Config io" where
  "Load H =
     bind_io (pure (parseAuthMode (Getenv H ''RFC2136_AUTH_MODE''))) (\<lambda>mode.
     bind_io (pure (rejectForeignEnv H mode)) (\<lambda>_.
     bind_io (pure (parseDuration H ''RFC2136_KINIT_REFRESH_INTERVAL'' (8 * 3600 * Second))) (\<lambda>refresh.
     bind_io (if mode = AuthGSSTSIG then resolveAuth H else pure (Ok ([], []))) (\<lambda>(keytab, password).
     bind_io (pure (if mode = AuthHMACTSIG then resolveTSIG H else Ok ([], [], [])))
       (\<lambda>(tsigKey, tsigSecret, tsigAlg).
     bind_io (pure (parseSeconds H ''RFC2136_AXFR_TIMEOUT_SECONDS'' (30 * Second))) (\<lambda>axfrTimeout.
     bind_io (pure (parseSeconds H ''RFC2136_UPDATE_TIMEOUT_SECONDS'' (15 * Second))) (\<lambda>updateTimeout.
     bind_io (pure (parsePositiveInt H ''RFC2136_PORT'' 53)) (\<lambda>port.
     bind_io (pure (parsePositiveInt64 H ''RFC2136_DEFAULT_TTL'' 3600)) (\<lambda>defaultTTL.
     bind_io (pure (parsePositiveInt64 H ''RFC2136_MIN_TTL'' 60)) (\<lambda>minTTL.
     bind_io (pure (parsePositiveInt H ''RFC2136_CIRCUIT_BREAKER_THRESHOLD'' 3)) (\<lambda>threshold.
     bind_io (pure (parseHosts (Getenv H ''RFC2136_HOSTS'') mode)) (\<lambda>hosts.
     bind_io (pure (parseZones (Getenv H ''RFC2136_ZONES''))) (\<lambda>zones.
     bind_io (pure (envOrFile H ''RFC2136_KERBEROS_PRINCIPAL'' ''RFC2136_KERBEROS_PRINCIPAL_FILE'')) (\<lambda>princ.
       (let c = \<lparr>c_Listen = envOr H ''WEBHOOK_LISTEN'' '':9090'', c_AuthMode = mode, c_TSIGKeyName = tsigKey,
                 c_TSIGSecret = tsigSecret, c_TSIGAlgorithm = tsigAlg,
                 c_Realm = Getenv H ''RFC2136_KERBEROS_REALM'', c_Principal = princ, c_Keytab = keytab,
                 c_Password = password, c_Krb5Conf = envOr H ''RFC2136_KRB5_CONF'' ''/etc/krb5.conf'',
                 c_DryRun = config_parseBool H ''RFC2136_DRY_RUN'', c_KinitRefreshInterval = refresh,
                 c_Hosts = hosts, c_Port = port, c_Zones = zones,
                 c_AxfrEnabled = parseBoolDefault H ''RFC2136_AXFR_ENABLED'' True,
                 c_DefaultTTL = defaultTTL, c_MinTTL = minTTL, c_CircuitBreakerThreshold = threshold,
                 c_DomainFilter = parseDomainFilter (Getenv H ''RFC2136_DOMAIN_FILTER''),
                 c_AxfrTimeout = axfrTimeout, c_UpdateTimeout = updateTimeout\<rparr>
        in bind_io (pure (validate c)) (\<lambda>_. pure (Ok c)))))))))))))))))"

section \<open>Modes\<close>

text \<open>The modes can be enumerated, so statements about all of them compute.\<close>

instantiation AuthMode :: enum
begin

definition "enum_AuthMode = [AuthGSSTSIG, AuthHMACTSIG, AuthInsecure]"

definition "enum_all_AuthMode P \<longleftrightarrow> P AuthGSSTSIG \<and> P AuthHMACTSIG \<and> P AuthInsecure"

definition "enum_ex_AuthMode P \<longleftrightarrow> P AuthGSSTSIG \<or> P AuthHMACTSIG \<or> P AuthInsecure"

instance
proof
  have u: "m \<in> {AuthGSSTSIG, AuthHMACTSIG, AuthInsecure}" for m by (cases m) simp_all
  then show "(UNIV :: AuthMode set) = set enum_class.enum" by (auto simp: enum_AuthMode_def)
  show "distinct (enum_class.enum :: AuthMode list)" by (simp add: enum_AuthMode_def)
  show "enum_class.enum_all P \<longleftrightarrow> Ball UNIV P" for P :: "AuthMode \<Rightarrow> bool"
    by (auto simp: enum_all_AuthMode_def) (metis AuthMode.exhaust)
  show "enum_class.enum_ex P \<longleftrightarrow> Bex UNIV P" for P :: "AuthMode \<Rightarrow> bool"
    by (auto simp: enum_ex_AuthMode_def) (metis AuthMode.exhaust)
qed

end

lemma parseAuthMode_mode_string: "\<forall>m. parseAuthMode (mode_string m) = Ok m"
  by code_simp

lemma supportedAlgs_eq: "supportedAlgs = map fst tsigAlgs"
  by code_simp

section \<open>What each reader yields\<close>

lemma bind_io_Ok [simp]: "fst (bind_io m f) = Ok b \<longleftrightarrow> (\<exists>a. fst m = Ok a \<and> fst (f a) = Ok b)"
  by (auto simp: bind_io_def split: prod.splits go.splits)

lemma bind_io_OkE:
  assumes "fst (bind_io m f) = Ok b"
  obtains a where "fst m = Ok a" "fst (f a) = Ok b"
  using assms by auto

lemma bind_io_OkE0:
  assumes "fst (bind_io m (\<lambda>_ :: unit. f)) = Ok b"
  obtains "fst m = Ok ()" "fst f = Ok b"
  using assms by auto

lemma bind_io_OkE2:
  assumes "fst (bind_io m (\<lambda>(x, y). f x y)) = Ok b"
  obtains x y where "fst m = Ok (x, y)" "fst (f x y) = Ok b"
  using assms by auto

lemma bind_io_OkE3:
  assumes "fst (bind_io m (\<lambda>(x, y, z). f x y z)) = Ok b"
  obtains x y z where "fst m = Ok (x, y, z)" "fst (f x y z) = Ok b"
  using assms by auto

lemma pure_fst [simp]: "fst (pure r) = r"
  by (simp add: pure_def)

lemma parsePositiveInt_Ok:
  "parsePositiveInt H k fb = Ok n \<Longrightarrow> 0 < fb \<Longrightarrow> in_int64 fb \<Longrightarrow> 0 < n \<and> in_int64 n"
  by (auto simp: parsePositiveInt_def Let_def dest: ParseInt_range split: if_splits option.splits)

lemma parsePositiveInt64_Ok:
  "parsePositiveInt64 H k fb = Ok n \<Longrightarrow> 0 < fb \<Longrightarrow> in_int64 fb \<Longrightarrow> 0 < n \<and> in_int64 n"
  by (auto simp: parsePositiveInt64_def Let_def dest: ParseInt_range split: if_splits option.splits)

lemma parseDuration_Ok: "parseDuration H k fb = Ok d \<Longrightarrow> 0 < fb \<Longrightarrow> in_int64 fb \<Longrightarrow> 0 < d \<and> in_int64 d"
  by (auto simp: parseDuration_def Let_def dest: ParseDuration_in_int64 split: if_splits sum.splits)

lemma parseSeconds_Ok:
  "parseSeconds H k fb = Ok d \<Longrightarrow> Getenv H k \<noteq> [] \<Longrightarrow>
     \<exists>n. ParseInt (Getenv H k) = Some n \<and> 0 < n \<and> d = wrap64 (n * Second)"
  by (auto simp: parseSeconds_def Let_def split: if_splits option.splits)

lemma seconds_in_range: "0 < n \<Longrightarrow> n \<le> 9223372036 \<Longrightarrow> wrap64 (n * Second) = n * Second"
  by (rule wrap64_id) (simp add: Second_def int64_defs)

lemma ToLower_TrimSuffix: "ToLower (TrimSuffix s ''.'') = TrimSuffix (ToLower s) ''.''"
  by (simp add: TrimSuffix_def) (simp add: ToLower_def take_map)

lemma trimmed_lower [simp]: "ToLower (trimmed p) = trimmed p"
  by (simp add: trimmed_def ToLower_TrimSuffix)

definition good_host :: "AuthMode \<Rightarrow> string \<Rightarrow> bool" where
  "good_host mode h \<longleftrightarrow> h \<noteq> [] \<and> ToLower h = h \<and> (if is_ip h then mode \<noteq> AuthGSSTSIG else fqdnRe_MatchString h)"

definition good_zone :: "string \<Rightarrow> bool" where
  "good_zone z \<longleftrightarrow> z \<noteq> [] \<and> ToLower z = z \<and> CHR ''.'' \<in> set z"

lemma Contains_char: "Contains s [c] \<longleftrightarrow> c \<in> set s"
  by (auto simp: Contains_iff in_set_conv_decomp)

lemma good_host_trimmed:
  "trimmed p \<noteq> [] \<Longrightarrow> is_ip (trimmed p) \<Longrightarrow> mode \<noteq> AuthGSSTSIG \<Longrightarrow> good_host mode (trimmed p)"
  "trimmed p \<noteq> [] \<Longrightarrow> \<not> is_ip (trimmed p) \<Longrightarrow> fqdnRe_MatchString (trimmed p) \<Longrightarrow> good_host mode (trimmed p)"
  by (simp_all add: good_host_def)

lemma hosts_loop_Ok:
  "hosts_loop mode out ps = Ok hs \<Longrightarrow> list_all (good_host mode) out \<Longrightarrow> list_all (good_host mode) hs \<and> hs \<noteq> []"
proof (induction ps arbitrary: out)
  case (Cons p ps)
  then show ?case by (auto simp: Let_def good_host_trimmed split: if_splits)
qed (auto split: if_splits)

lemma zones_loop_Ok:
  "zones_loop out ps = Ok zs \<Longrightarrow> list_all good_zone out \<Longrightarrow> list_all good_zone zs \<and> zs \<noteq> []"
proof (induction ps arbitrary: out)
  case (Cons p ps)
  have "trimmed p \<noteq> [] \<Longrightarrow> CHR ''.'' \<in> set (trimmed p) \<Longrightarrow> good_zone (trimmed p)"
    by (simp add: good_zone_def)
  with Cons show ?case by (auto simp: Let_def Contains_char split: if_splits)
qed (auto split: if_splits)

lemma rejectForeignEnv_Ok:
  "rejectForeignEnv H mode = Ok () \<longleftrightarrow> (\<forall>g \<in> set (foreign mode). \<forall>k \<in> set g. Getenv H k = [])"
proof -
  have "rejectForeignEnv H mode = Ok () \<longleftrightarrow> find (\<lambda>k. Getenv H k \<noteq> []) (concat (foreign mode)) = None"
    by (simp add: rejectForeignEnv_def split: option.splits)
  then show ?thesis by (auto simp: find_None_iff)
qed

lemma resolveAuth_one: "fst (resolveAuth H) = Ok (kt, pw) \<Longrightarrow> kt = [] \<or> pw = []"
  by (auto simp: resolveAuth_def Let_def split: if_splits sum.splits)

lemma resolveTSIG_alg:
  assumes "resolveTSIG H = Ok (k, s, a)"
  shows "a \<in> snd ` set tsigAlgs"
proof -
  have "\<exists>n. map_of tsigAlgs n = Some a"
    using assms unfolding resolveTSIG_def Let_def bind_go_eq_Ok
    by (elim exE conjE) (simp split: option.splits, blast)
  then show ?thesis by (force dest: map_of_SomeD)
qed

lemma envOrFile_unset: "Getenv H e = [] \<Longrightarrow> Getenv H f = [] \<Longrightarrow> envOrFile H e f = Ok []"
  by (simp add: envOrFile_def)

section \<open>A loaded configuration\<close>

definition credentials_ok :: "Config \<Rightarrow> bool" where
  "credentials_ok c =
     (case c_AuthMode c of
        AuthGSSTSIG \<Rightarrow> c_Realm c \<noteq> [] \<and> CHR ''@'' \<in> set (c_Principal c) \<and>
          (c_Keytab c = []) \<noteq> (c_Password c = []) \<and>
          c_TSIGKeyName c = [] \<and> c_TSIGSecret c = [] \<and> c_TSIGAlgorithm c = []
      | AuthHMACTSIG \<Rightarrow> c_TSIGKeyName c \<noteq> [] \<and> c_TSIGSecret c \<noteq> [] \<and>
          c_TSIGAlgorithm c \<in> snd ` set tsigAlgs \<and>
          c_Realm c = [] \<and> c_Principal c = [] \<and> c_Keytab c = [] \<and> c_Password c = []
      | AuthInsecure \<Rightarrow> c_TSIGKeyName c = [] \<and> c_TSIGSecret c = [] \<and> c_TSIGAlgorithm c = [] \<and>
          c_Realm c = [] \<and> c_Principal c = [] \<and> c_Keytab c = [] \<and> c_Password c = [])"

definition settings_ok :: "Config \<Rightarrow> bool" where
  "settings_ok c \<longleftrightarrow>
     c_Hosts c \<noteq> [] \<and> list_all (good_host (c_AuthMode c)) (c_Hosts c) \<and>
     c_Zones c \<noteq> [] \<and> list_all good_zone (c_Zones c) \<and>
     0 < c_Port c \<and> 0 < c_DefaultTTL c \<and> 0 < c_MinTTL c \<and> 0 < c_CircuitBreakerThreshold c \<and>
     in_int64 (c_Port c) \<and> in_int64 (c_DefaultTTL c) \<and> in_int64 (c_MinTTL c) \<and>
     in_int64 (c_CircuitBreakerThreshold c) \<and> 0 < c_KinitRefreshInterval c \<and>
     in_int64 (c_KinitRefreshInterval c)"

text \<open>What the successful steps of \<open>Load\<close> were.\<close>

lemma Load_steps:
  assumes "fst (Load H) = Ok c"
  shows "parseAuthMode (Getenv H ''RFC2136_AUTH_MODE'') = Ok (c_AuthMode c)"
    "rejectForeignEnv H (c_AuthMode c) = Ok ()"
    "parseDuration H ''RFC2136_KINIT_REFRESH_INTERVAL'' (8 * 3600 * Second) = Ok (c_KinitRefreshInterval c)"
    "fst (if c_AuthMode c = AuthGSSTSIG then resolveAuth H else pure (Ok ([], []))) = Ok (c_Keytab c, c_Password c)"
    "(if c_AuthMode c = AuthHMACTSIG then resolveTSIG H else Ok ([], [], [])) =
       Ok (c_TSIGKeyName c, c_TSIGSecret c, c_TSIGAlgorithm c)"
    "parseSeconds H ''RFC2136_AXFR_TIMEOUT_SECONDS'' (30 * Second) = Ok (c_AxfrTimeout c)"
    "parseSeconds H ''RFC2136_UPDATE_TIMEOUT_SECONDS'' (15 * Second) = Ok (c_UpdateTimeout c)"
    "parsePositiveInt H ''RFC2136_PORT'' 53 = Ok (c_Port c)"
    "parsePositiveInt64 H ''RFC2136_DEFAULT_TTL'' 3600 = Ok (c_DefaultTTL c)"
    "parsePositiveInt64 H ''RFC2136_MIN_TTL'' 60 = Ok (c_MinTTL c)"
    "parsePositiveInt H ''RFC2136_CIRCUIT_BREAKER_THRESHOLD'' 3 = Ok (c_CircuitBreakerThreshold c)"
    "parseHosts (Getenv H ''RFC2136_HOSTS'') (c_AuthMode c) = Ok (c_Hosts c)"
    "parseZones (Getenv H ''RFC2136_ZONES'') = Ok (c_Zones c)"
    "envOrFile H ''RFC2136_KERBEROS_PRINCIPAL'' ''RFC2136_KERBEROS_PRINCIPAL_FILE'' = Ok (c_Principal c)"
    "c_Realm c = Getenv H ''RFC2136_KERBEROS_REALM''"
    "validate c = Ok ()"
  using assms unfolding Load_def Let_def
  by - ((erule bind_io_OkE0 | erule bind_io_OkE3 | erule bind_io_OkE2 | erule bind_io_OkE)+,
      simp only: pure_fst go.inject, (hypsubst, simp only: Config.simps)?)+

lemma Load_settings:
  assumes "fst (Load H) = Ok c"
  shows "settings_ok c"
proof -
  note st = Load_steps [OF assms]
  have "list_all (good_host (c_AuthMode c)) (c_Hosts c) \<and> c_Hosts c \<noteq> []"
    using st(12) hosts_loop_Ok by (fastforce simp: parseHosts_def split: if_splits)
  moreover have "list_all good_zone (c_Zones c) \<and> c_Zones c \<noteq> []"
    using st(13) zones_loop_Ok by (fastforce simp: parseZones_def split: if_splits)
  moreover have "0 < c_KinitRefreshInterval c \<and> in_int64 (c_KinitRefreshInterval c)"
    using parseDuration_Ok [OF st(3)] by (simp add: Second_def int64_defs)
  ultimately show ?thesis
    using parsePositiveInt_Ok [OF st(8)] parsePositiveInt64_Ok [OF st(9)] parsePositiveInt64_Ok [OF st(10)]
      parsePositiveInt_Ok [OF st(11)]
    by (simp add: settings_ok_def int64_defs)
qed

lemma gss_vars_unset:
  assumes "rejectForeignEnv H mode = Ok ()" "mode \<noteq> AuthGSSTSIG" "k \<in> set gssEnvVars"
  shows "Getenv H k = []"
  using assms by (cases mode) (auto simp: rejectForeignEnv_Ok)

lemma Load_credentials:
  assumes "fst (Load H) = Ok c"
  shows "credentials_ok c"
proof (cases "c_AuthMode c = AuthGSSTSIG")
  case True
  note st = Load_steps [OF assms]
  have "c_Keytab c = [] \<or> c_Password c = []" using st(4) resolveAuth_one True by simp
  then show ?thesis
    using True st(5,16) by (auto simp: credentials_ok_def validate_def Contains_char split: if_splits)
next
  case False
  note st = Load_steps [OF assms]
  have unset: "Getenv H k = []" if "k \<in> set gssEnvVars" for k
    using gss_vars_unset [OF st(2) False that] .
  have "c_Realm c = []" using st(15) unset by (simp add: gssEnvVars_def)
  moreover have "c_Principal c = []"
    using st(14) unset by (simp add: gssEnvVars_def envOrFile_unset)
  ultimately show ?thesis
    using False st(4,5,16) resolveTSIG_alg
    by (cases "c_AuthMode c") (auto simp: credentials_ok_def validate_def split: if_splits)
qed

section \<open>The temporary keytab\<close>

text \<open>The secret is written only after the file mode was restricted to its owner.\<close>

lemma materialise_ops:
  "materialiseKeytabFromBase64 H b64 = (r, ops) \<Longrightarrow> Wrote f dat \<in> set ops \<Longrightarrow>
     r = Ok f \<and> DecodeString (TrimSpace b64) = Inr dat \<and>
     ops = [CreatedTemp f, Chmod f 0x180, Wrote f dat, Closed f]"
  by (auto simp: materialiseKeytabFromBase64_def split: sum.splits option.splits)

lemma wrap64_high:
  assumes "9223372036854775808 \<le> x" "x < 18446744073709551616"
  shows "wrap64 x = x - 18446744073709551616"
proof -
  have "(word_of_int (x - 18446744073709551616) :: 64 word) = word_of_int x"
    by (simp add: word_of_int_eq_iff take_bit_eq_mod mod_diff_eq [symmetric])
  then have "wrap64 x = wrap64 (x - 18446744073709551616)" by (simp only: wrap64_def)
  also have "\<dots> = x - 18446744073709551616" using assms by (intro wrap64_id) (simp add: int64_defs)
  finally show ?thesis .
qed

lemma b64_char_nospace: "v < 64 \<Longrightarrow> \<not> isSpace (b64_char v)"
  by (auto simp: b64_char_def isSpace_def Let_def)

lemma encode_ends:
  "s \<noteq> [] \<Longrightarrow> encode s \<noteq> [] \<and> \<not> isSpace (hd (encode s)) \<and> \<not> isSpace (last (encode s))"
proof (induction s rule: encode.induct)
  case (2 a)
  have "(of_char a :: nat) div 4 < 64" using of_char_less [of a] by (simp add: less_mult_imp_div_less)
  then show ?case using b64_char_nospace by (simp add: Let_def isSpace_def)
next
  case (3 a b)
  have "(of_char a :: nat) div 4 < 64" using of_char_less [of a] by (simp add: less_mult_imp_div_less)
  then show ?case using b64_char_nospace by (simp add: Let_def isSpace_def)
next
  case (4 a b c cs)
  obtain p q r t where sx: "sextets_of a b c = [p, q, r, t]" using sextets_of_ex by blast
  note e = encode_sextets(1) [OF sx, of cs] and l = sextets_of_less [OF sx]
  show ?case
  proof (cases "cs = []")
    case True
    then show ?thesis using e l b64_char_nospace by simp
  next
    case False
    then show ?thesis using e l b64_char_nospace 4 by simp
  qed
qed simp

lemma TrimSpace_encode: "TrimSpace (encode s) = encode s"
proof (cases "s = []")
  case True
  then show ?thesis by (simp add: TrimSpace_def TrimLeft_def)
next
  case False
  with encode_ends show ?thesis by (intro TrimSpace_nonspace) blast+
qed

section \<open>Properties\<close>


definition plain_host :: "(string \<times> string) list \<Rightarrow> host" where
  "plain_host env =
     \<lparr>h_env = map_of env, h_ReadFile = (\<lambda>f. Inl ''no such file''), h_CreateTemp = Inr ''/tmp/ddo-keytab-1'',
      h_Chmod = (\<lambda>_. None), h_Write = (\<lambda>_ _. None), h_Fqdn = (\<lambda>s. s @ ''.'')\<rparr>"

definition bind_env :: "(string \<times> string) list" where
  "bind_env = [(''RFC2136_AUTH_MODE'', ''insecure''), (''RFC2136_HOSTS'', ''NS1.example.com., 10.1.2.3''),
              (''RFC2136_ZONES'', ''Example.com.'')]"


text \<open>
  C32. A timeout given in seconds is multiplied in 64 bits: up to 9223372036 it is
  that many seconds, and the next nine billion accepted values give a negative
  timeout.
\<close>

theorem timeout_seconds_wrap:
  assumes "ParseInt (Getenv H key) = Some n" "0 < n" "Getenv H key \<noteq> []" "n \<le> 18446744073"
  shows "parseSeconds H key fallback =
    Ok (if n \<le> 9223372036 then n * 1000000000 else n * 1000000000 - 18446744073709551616) \<and>
    (9223372037 \<le> n \<longrightarrow> n * 1000000000 - 18446744073709551616 < 0)"
proof -
  have w: "wrap64 (n * Second) = (if n \<le> 9223372036 then n * 1000000000 else n * 1000000000 - 18446744073709551616)"
  proof (cases "n \<le> 9223372036")
    case True
    then show ?thesis using seconds_in_range [OF assms(2)] by (simp add: Second_def)
  next
    case False
    then have "9223372036854775808 \<le> n * 1000000000" "n * 1000000000 < 18446744073709551616"
      using assms(4) by linarith+
    from wrap64_high [OF this] False show ?thesis by (simp add: Second_def)
  qed
  have "parseSeconds H key fallback = Ok (wrap64 (n * Second))"
    using assms(1,2,3) by (simp add: parseSeconds_def Let_def)
  moreover have "n * 1000000000 - 18446744073709551616 < 0" using assms(4) by linarith
  ultimately show ?thesis unfolding w by blast
qed

theorem timeout_seconds_wrap_witness:
  "parseSeconds (plain_host [(''T'', ''9223372037'')]) ''T'' 5 = Ok (- 9223372036709551616)"
proof -
  have p: "ParseInt (Getenv (plain_host [(''T'', ''9223372037'')]) ''T'') = Some 9223372037"
    by (simp add: ParseInt_def Getenv_def plain_host_def parse_digits_def digits_val_def digit_val_def isDigit_def
        int64_defs Let_def)
  have "Getenv (plain_host [(''T'', ''9223372037'')]) ''T'' \<noteq> []"
    by (simp add: Getenv_def plain_host_def)
  from timeout_seconds_wrap [OF p _ this, of 5] show ?thesis by simp
qed

text \<open>
  C33. A keytab given in base64 reaches the disk unchanged and private: when the
  temporary file can be made, restricted and written, the bytes written are those
  that were encoded, and they are written after the mode was set to 0600.
\<close>

theorem keytab_written_privately:
  assumes "h_CreateTemp H = Inr f" "h_Chmod H f = None" "h_Write H f keytab = None"
  shows "materialiseKeytabFromBase64 H (encode keytab) =
    (Ok f, [CreatedTemp f, Chmod f (6 * 64), Wrote f keytab, Closed f])"
  using assms by (simp add: materialiseKeytabFromBase64_def TrimSpace_encode DecodeString_encode)

theorem keytab_written_privately_witness:
  "materialiseKeytabFromBase64 (plain_host []) (encode ''keytab'') =
     (Ok ''/tmp/ddo-keytab-1'', [CreatedTemp ''/tmp/ddo-keytab-1'', Chmod ''/tmp/ddo-keytab-1'' (6 * 64),
        Wrote ''/tmp/ddo-keytab-1'' ''keytab'', Closed ''/tmp/ddo-keytab-1''])"
  by (rule keytab_written_privately) (simp_all add: plain_host_def)

text \<open>
  A refresh interval is read as it is written: for any 64-bit duration, the text
  \<open>Duration.String\<close> prints for it, from whole nanoseconds to hours with a fraction of
  a second, is parsed back to exactly that duration by \<open>time.ParseDuration\<close> (no
  nanosecond is lost in the floating point of the fraction), and is accepted if
  and only if it is positive.
\<close>

theorem printed_interval_reads_back:
  assumes "in_int64 d" "h_env H key = Some (DurationString d)"
  shows "parseDuration H key fallback =
    (if d \<le> 0 then Err (key @ '': must be > 0, got '' @ DurationString d) else Ok d)"
proof -
  have "DurationString d \<noteq> []" using body_start [of "nat \<bar>d\<bar>"] by (auto simp: DurationString_def Let_def)
  with assms show ?thesis by (simp add: parseDuration_def Getenv_def ParseDuration_String)
qed

theorem printed_interval_reads_back_witness:
  "parseDuration (plain_host [(''I'', DurationString 5400000000001)]) ''I'' 1 = Ok 5400000000001"
  by (subst printed_interval_reads_back [where d = 5400000000001])
    (simp_all add: plain_host_def int64_defs)

end
