(* ===== verification/KerberosHealth.thy ===== *)
theory KerberosHealth
  imports GoStrings
begin

text \<open>
  The health state shared by the refresher and \<open>/healthz\<close>
  (\<open>internal/state/kerberos.go\<close>).  Each method holds the mutex for its whole body,
  so it is one step.  Times are nanoseconds since Go's zero time, which is \<open>0\<close>.
\<close>

datatype KerberosStatus = StatusUnknown | StatusReady | StatusExpired

fun status_string :: "KerberosStatus \<Rightarrow> string" where
  "status_string StatusUnknown = ''unknown''"
| "status_string StatusReady = ''ready''"
| "status_string StatusExpired = ''expired''"

record Kerberos =
  k_status :: KerberosStatus
  k_detail :: string
  k_lastRefresh :: int

definition NewKerberos :: Kerberos where
  "NewKerberos = \<lparr>k_status = StatusUnknown, k_detail = [], k_lastRefresh = 0\<rparr>"

definition MarkReady :: "Kerberos \<Rightarrow> int \<Rightarrow> Kerberos" where
  "MarkReady k at = k\<lparr>k_status := StatusReady, k_detail := [], k_lastRefresh := at\<rparr>"

definition MarkExpired :: "Kerberos \<Rightarrow> string \<Rightarrow> Kerberos" where
  "MarkExpired k detail = k\<lparr>k_status := StatusExpired, k_detail := detail\<rparr>"

definition Snapshot :: "Kerberos \<Rightarrow> KerberosStatus \<times> string \<times> int" where
  "Snapshot k = (k_status k, k_detail k, k_lastRefresh k)"

section \<open>A history of marks\<close>

datatype mark = ReadyAt int | ExpiredWith string

definition mark_step :: "Kerberos \<Rightarrow> mark \<Rightarrow> Kerberos" where
  "mark_step k m = (case m of ReadyAt at \<Rightarrow> MarkReady k at | ExpiredWith d \<Rightarrow> MarkExpired k d)"

definition marked :: "mark list \<Rightarrow> Kerberos" where
  "marked ms = foldl mark_step NewKerberos ms"

text \<open>What an observer is told, read off the history.\<close>

definition last_ready :: "mark list \<Rightarrow> int" where
  "last_ready ms = foldl (\<lambda>t m. case m of ReadyAt at \<Rightarrow> at | ExpiredWith d \<Rightarrow> t) 0 ms"

definition health_of :: "mark list \<Rightarrow> KerberosStatus \<times> string \<times> int" where
  "health_of ms =
     (if ms = [] then (StatusUnknown, [], 0)
      else case last ms of
             ReadyAt at \<Rightarrow> (StatusReady, [], at)
           | ExpiredWith d \<Rightarrow> (StatusExpired, d, last_ready ms))"

lemma marked_snoc: "marked (ms @ [m]) = mark_step (marked ms) m"
  by (simp add: marked_def)

lemma last_ready_snoc:
  "last_ready (ms @ [m]) = (case m of ReadyAt at \<Rightarrow> at | ExpiredWith d \<Rightarrow> last_ready ms)"
  by (simp add: last_ready_def split: mark.splits)

lemma marked_lastRefresh: "k_lastRefresh (marked ms) = last_ready ms"
proof (induction ms rule: rev_induct)
  case Nil
  then show ?case by (simp add: marked_def last_ready_def NewKerberos_def)
next
  case (snoc m ms)
  then show ?case
    by (simp add: marked_snoc last_ready_snoc mark_step_def MarkReady_def MarkExpired_def split: mark.splits)
qed

lemma Snapshot_marked: "Snapshot (marked ms) = health_of ms"
proof (cases ms rule: rev_cases)
  case Nil
  then show ?thesis by (simp add: marked_def health_of_def Snapshot_def NewKerberos_def)
next
  case (snoc ks m)
  then show ?thesis
    using marked_lastRefresh [of ks]
    by (simp add: marked_snoc health_of_def last_ready_snoc mark_step_def MarkReady_def MarkExpired_def
        Snapshot_def split: mark.splits)
qed

end
