(* ===== verification/KerberosRefresh.thy ===== *)
theory KerberosRefresh
  imports KerberosHealth "HOL-Library.Signed_Division"
begin

text \<open>
  Acquiring the ticket and keeping it fresh (\<open>internal/kerberos/krb.go\<close>,
  \<open>internal/kerberos/refresh.go\<close>).

  The process state is the environment, the commands run, the shared health
  state and a step counter.  The world answers the n-th clock reading, the n-th
  command and the n-th reading of the credential cache; \<open>gokrb5\<close>'s \<open>LoadCCache\<close>
  is not part of the repository and yields an error or the cache's entries.
  Durations and times are nanoseconds.
\<close>

section \<open>Process and world\<close>

record command =
  cmd_name :: string
  cmd_args :: "string list"
  cmd_stdin :: "string option"
  cmd_env :: "string \<rightharpoonup> string"

record cred =
  cred_NameString :: "string list"
  cred_EndTime :: int

record kworld =
  kw_Pid :: int
  kw_Now :: "nat \<Rightarrow> int"
  kw_Exec :: "nat \<Rightarrow> command \<Rightarrow> string option"
  kw_LoadCCache :: "nat \<Rightarrow> string \<Rightarrow> string + cred list"

record kproc =
  kp_env :: "string \<rightharpoonup> string"
  kp_cmds :: "command list"
  kp_health :: "Kerberos option"
  kp_tick :: nat

text \<open>\<open>os.Setenv\<close> with a fixed well-formed key refuses a value with a NUL byte.\<close>

definition Setenv :: "string \<Rightarrow> string \<Rightarrow> kproc \<Rightarrow> unit go \<times> kproc" where
  "Setenv key val p =
     (if CHR 0x00 \<in> set val then (Err ''setenv: invalid argument'', p)
      else (Ok (), p\<lparr>kp_env := (kp_env p)(key \<mapsto> val)\<rparr>))"

section \<open>krb.go\<close>

text \<open>\<open>RealExec.RunWithStdin\<close> over the answers of the pipe, the start and the wait.\<close>

datatype child_call = MkPipe | Start | WriteString string | ClosePipe | Wait

definition RealExec_RunWithStdin ::
  "(child_call \<Rightarrow> string option) \<Rightarrow> string \<Rightarrow> string option \<times> child_call list" where
  "RealExec_RunWithStdin answer stdin =
     (case answer MkPipe of
        Some e \<Rightarrow> (Some e, [MkPipe])
      | None \<Rightarrow>
          (case answer Start of
             Some e \<Rightarrow> (Some e, [MkPipe, Start])
           | None \<Rightarrow> (answer Wait, [MkPipe, Start, WriteString stdin, ClosePipe, Wait])))"

definition CCachePath :: "kworld \<Rightarrow> string" where
  "CCachePath K = ''/tmp/krb5cc_'' @ Itoa (kw_Pid K)"

definition prepareEnv :: "kworld \<Rightarrow> string \<Rightarrow> kproc \<Rightarrow> unit go \<times> kproc" where
  "prepareEnv K krb5conf p =
     (case Setenv ''KRB5_CONFIG'' krb5conf p of
        (Ok _, p1) \<Rightarrow>
          (case Setenv ''KRB5CCNAME'' (''FILE:'' @ ''/tmp/krb5cc_'' @ Itoa (kw_Pid K)) p1 of
             (Err e, p2) \<Rightarrow> (Err (''set KRB5CCNAME: '' @ e), p2)
           | r \<Rightarrow> r)
      | (Err e, p1) \<Rightarrow> (Err (''set KRB5_CONFIG: '' @ e), p1)
      | r \<Rightarrow> r)"

text \<open>The executor: the child inherits the environment of the process.\<close>

definition exec :: "kworld \<Rightarrow> string \<Rightarrow> string list \<Rightarrow> string option \<Rightarrow> kproc \<Rightarrow> string option \<times> kproc" where
  "exec K name args stdin p =
     (let c = \<lparr>cmd_name = name, cmd_args = args, cmd_stdin = stdin, cmd_env = kp_env p\<rparr>
      in (kw_Exec K (kp_tick p) c, p\<lparr>kp_cmds := kp_cmds p @ [c], kp_tick := Suc (kp_tick p)\<rparr>))"

definition kinit_Run :: "kworld \<Rightarrow> string \<Rightarrow> string \<Rightarrow> string \<Rightarrow> kproc \<Rightarrow> unit go \<times> kproc" where
  "kinit_Run K krb5conf keytab princ p =
     (case prepareEnv K krb5conf p of
        (Ok _, p1) \<Rightarrow>
          (case exec K ''kinit'' [''-kt'', keytab, princ] None p1 of
             (Some e, p2) \<Rightarrow> (Err (''kinit failed: '' @ e), p2)
           | (None, p2) \<Rightarrow> (Ok (), p2))
      | r \<Rightarrow> r)"

definition is_eol :: "char \<Rightarrow> bool" where
  "is_eol c \<longleftrightarrow> c = CHR 0x0D \<or> c = CHR 0x0A"

definition password_line :: "string \<Rightarrow> string" where
  "password_line pw = TrimRight is_eol pw @ [CHR 0x0A]"

definition kinit_RunWithPassword :: "kworld \<Rightarrow> string \<Rightarrow> string \<Rightarrow> string \<Rightarrow> kproc \<Rightarrow> unit go \<times> kproc" where
  "kinit_RunWithPassword K krb5conf princ pw p =
     (case prepareEnv K krb5conf p of
        (Ok _, p1) \<Rightarrow>
          (case exec K ''kinit'' [princ] (Some (password_line pw)) p1 of
             (Some e, p2) \<Rightarrow> (Err (''kinit (password) failed: '' @ e), p2)
           | (None, p2) \<Rightarrow> (Ok (), p2))
      | r \<Rightarrow> r)"

text \<open>\<open>strings.EqualFold\<close> on ASCII names.\<close>

definition EqualFold :: "string \<Rightarrow> string \<Rightarrow> bool" where
  "EqualFold s t \<longleftrightarrow> ToLower s = ToLower t"

definition is_tgt :: "cred \<Rightarrow> bool" where
  "is_tgt c = (case cred_NameString c of [] \<Rightarrow> False | nm # _ \<Rightarrow> EqualFold nm ''krbtgt'')"

fun endtimes :: "int \<Rightarrow> int \<Rightarrow> cred list \<Rightarrow> int \<times> int" where
  "endtimes tgt latest [] = (tgt, latest)"
| "endtimes tgt latest (c # cs) =
     endtimes (if is_tgt c \<and> cred_EndTime c > tgt then cred_EndTime c else tgt)
       (if cred_EndTime c > latest then cred_EndTime c else latest) cs"

definition TGTEndTime :: "kworld \<Rightarrow> string \<Rightarrow> nat \<Rightarrow> string + int" where
  "TGTEndTime K cpath n =
     (let path = (if cpath = [] then CCachePath K else cpath)
      in case kw_LoadCCache K n path of
           Inl e \<Rightarrow> Inl (''load ccache '' @ path @ '': '' @ e)
         | Inr cs \<Rightarrow>
             (case endtimes 0 0 cs of
                (tgt, latest) \<Rightarrow>
                  if tgt \<noteq> 0 then Inr tgt
                  else if latest \<noteq> 0 then Inr latest
                  else Inl (''ccache '' @ path @ '' has no usable credential endtime'')))"

section \<open>refresh.go\<close>

definition minute :: int where "minute = 60 * 1000000000"
definition DefaultRefreshInterval :: int where "DefaultRefreshInterval = 8 * 60 * minute"
definition retryBackoffMin :: int where "retryBackoffMin = 1 * minute"
definition retryBackoffMax :: int where "retryBackoffMax = 5 * minute"

lemmas refresh_consts = minute_def DefaultRefreshInterval_def retryBackoffMin_def retryBackoffMax_def

record Refresher =
  rf_Krb5Conf :: string
  rf_Keytab :: string
  rf_Password :: string
  rf_Principal :: string
  rf_Interval :: int
  rf_Lifetime :: "(nat \<Rightarrow> string + int) option"

definition ceiling_of :: "Refresher \<Rightarrow> int" where
  "ceiling_of r = (if rf_Interval r > 0 then rf_Interval r else DefaultRefreshInterval)"

text \<open>\<open>time.Time.Sub\<close> saturates at the ends of \<open>time.Duration\<close>.\<close>

definition time_Sub :: "int \<Rightarrow> int \<Rightarrow> int" where
  "time_Sub t u =
     (if t - u > max_int64 then max_int64 else if t - u < min_int64 then min_int64 else t - u)"

definition ktick :: "kproc \<Rightarrow> kproc" where
  "ktick p = p\<lparr>kp_tick := Suc (kp_tick p)\<rparr>"

definition read_clock :: "kworld \<Rightarrow> kproc \<Rightarrow> int \<times> kproc" where
  "read_clock K p = (kw_Now K (kp_tick p), ktick p)"

definition run_kinit :: "kworld \<Rightarrow> Refresher \<Rightarrow> kproc \<Rightarrow> unit go \<times> kproc" where
  "run_kinit K r p =
     (if rf_Password r \<noteq> [] then kinit_RunWithPassword K (rf_Krb5Conf r) (rf_Principal r) (rf_Password r) p
      else kinit_Run K (rf_Krb5Conf r) (rf_Keytab r) (rf_Principal r) p)"

text \<open>The delay derived from the ticket just issued.\<close>

definition lifetime_delay :: "kworld \<Rightarrow> Refresher \<Rightarrow> kproc \<Rightarrow> int \<times> kproc" where
  "lifetime_delay K r p =
     (let nxt = ceiling_of r
      in case rf_Lifetime r of
           None \<Rightarrow> (nxt, p)
         | Some src \<Rightarrow>
             (case src (kp_tick p) of
                Inl lerr \<Rightarrow> (nxt, ktick p)
              | Inr endtime \<Rightarrow>
                  (case read_clock K (ktick p) of
                     (n, p1) \<Rightarrow>
                       (let remaining = time_Sub endtime n; half = remaining sdiv 2
                        in (if 0 < half \<and> half < nxt then half else nxt, p1)))))"

definition refreshOnce :: "kworld \<Rightarrow> Refresher \<Rightarrow> kproc \<Rightarrow> int \<times> kproc" where
  "refreshOnce K r p =
     (case run_kinit K r p of
        (Ok _, p1) \<Rightarrow>
          (case lifetime_delay K r p1 of
             (nxt, p2) \<Rightarrow>
               (case kp_health p2 of
                  None \<Rightarrow> (nxt, p2)
                | Some k \<Rightarrow>
                    (case read_clock K p2 of
                       (n, p3) \<Rightarrow> (nxt, p3\<lparr>kp_health := Some (MarkReady k n)\<rparr>))))
      | (Err e, p1) \<Rightarrow>
          (retryBackoffMin, p1\<lparr>kp_health := map_option (\<lambda>k. MarkExpired k e) (kp_health p1)\<rparr>)
      | (Panic, p1) \<Rightarrow> (retryBackoffMin, p1))"

text \<open>
  \<open>Run\<close>: a timer armed with the ceiling; each firing refreshes once and rearms
  it; cancellation ends the loop.  Which of the two the \<open>select\<close> takes is open.
\<close>

record loop =
  lp_proc :: kproc
  lp_timer :: int
  lp_done :: bool

definition loop_start :: "Refresher \<Rightarrow> kproc \<Rightarrow> loop" where
  "loop_start r p = \<lparr>lp_proc = p, lp_timer = ceiling_of r, lp_done = False\<rparr>"

inductive run_step :: "kworld \<Rightarrow> Refresher \<Rightarrow> loop \<Rightarrow> loop \<Rightarrow> bool" for K r where
  run_cancel: "\<not> lp_done l \<Longrightarrow> run_step K r l (l\<lparr>lp_done := True\<rparr>)"
| run_fire: "\<not> lp_done l \<Longrightarrow> refreshOnce K r (lp_proc l) = (nxt, p') \<Longrightarrow>
     run_step K r l (l\<lparr>lp_proc := p', lp_timer := nxt\<rparr>)"

inductive_cases run_stepE: "run_step K r l l'"

inductive_simps run_step_done: "run_step K r \<lparr>lp_proc = p, lp_timer = t, lp_done = True\<rparr> l'"

inductive run_reach :: "kworld \<Rightarrow> Refresher \<Rightarrow> kproc \<Rightarrow> loop \<Rightarrow> bool" for K r p where
  reach_start: "run_reach K r p (loop_start r p)"
| reach_step: "run_reach K r p l \<Longrightarrow> run_step K r l l' \<Longrightarrow> run_reach K r p l'"

section \<open>Commands\<close>

lemma digit_char_not_NUL: "d < 10 \<Longrightarrow> digit_char d \<noteq> CHR 0x00"
  unfolding char_eq_of_char by (simp add: digit_char_def)

lemma nat_digits_not_NUL: "CHR 0x00 \<notin> set (nat_digits n)"
proof (induction n rule: nat_digits.induct)
  case (1 n)
  have "digit_char (n mod 10) \<noteq> CHR 0x00" by (simp add: digit_char_not_NUL)
  moreover have "n < 10 \<Longrightarrow> digit_char n \<noteq> CHR 0x00" by (simp add: digit_char_not_NUL)
  ultimately show ?case
    using 1 by (subst nat_digits.simps) (auto dest: sym)
qed

lemma CCachePath_not_NUL: "CHR 0x00 \<notin> set (CCachePath K)"
  using nat_digits_not_NUL by (auto simp: CCachePath_def Itoa_def)

lemma prepareEnv_eq:
  "prepareEnv K conf p =
     (if CHR 0x00 \<in> set conf then (Err ''set KRB5_CONFIG: setenv: invalid argument'', p)
      else (Ok (), p\<lparr>kp_env := (kp_env p)(''KRB5_CONFIG'' \<mapsto> conf,
                                          ''KRB5CCNAME'' \<mapsto> ''FILE:'' @ CCachePath K)\<rparr>))"
  using CCachePath_not_NUL [of K] by (auto simp: prepareEnv_def Setenv_def CCachePath_def)

text \<open>The command a refresh runs, and its result.\<close>

definition kinit_command :: "kworld \<Rightarrow> Refresher \<Rightarrow> kproc \<Rightarrow> command" where
  "kinit_command K r p =
     \<lparr>cmd_name = ''kinit'',
      cmd_args = (if rf_Password r \<noteq> [] then [rf_Principal r] else [''-kt'', rf_Keytab r, rf_Principal r]),
      cmd_stdin = (if rf_Password r \<noteq> [] then Some (password_line (rf_Password r)) else None),
      cmd_env = (kp_env p)(''KRB5_CONFIG'' \<mapsto> rf_Krb5Conf r, ''KRB5CCNAME'' \<mapsto> ''FILE:'' @ CCachePath K)\<rparr>"

definition kinit_error :: "kworld \<Rightarrow> Refresher \<Rightarrow> kproc \<Rightarrow> string option" where
  "kinit_error K r p =
     (if CHR 0x00 \<in> set (rf_Krb5Conf r) then Some ''set KRB5_CONFIG: setenv: invalid argument''
      else map_option (\<lambda>e. (if rf_Password r \<noteq> [] then ''kinit (password) failed: '' else ''kinit failed: '') @ e)
             (kw_Exec K (kp_tick p) (kinit_command K r p)))"

definition kinit_after :: "kworld \<Rightarrow> Refresher \<Rightarrow> kproc \<Rightarrow> kproc" where
  "kinit_after K r p =
     (if CHR 0x00 \<in> set (rf_Krb5Conf r) then p
      else p\<lparr>kp_env := cmd_env (kinit_command K r p), kp_cmds := kp_cmds p @ [kinit_command K r p],
             kp_tick := Suc (kp_tick p)\<rparr>)"

lemma run_kinit_eq:
  "run_kinit K r p =
     (case kinit_error K r p of None \<Rightarrow> Ok () | Some e \<Rightarrow> Err e, kinit_after K r p)"
  by (auto simp: run_kinit_def kinit_RunWithPassword_def kinit_Run_def prepareEnv_eq exec_def Let_def
      kinit_error_def kinit_after_def kinit_command_def split: option.splits)

lemma kinit_after_health [simp]: "kp_health (kinit_after K r p) = kp_health p"
  by (simp add: kinit_after_def)

section \<open>Endtimes\<close>

lemma endtimes_eq:
  "endtimes t l cs =
     (fold max (map cred_EndTime (filter is_tgt cs)) t, fold max (map cred_EndTime cs) l)"
  by (induction cs arbitrary: t l) (auto simp: max_def)

lemma fold_max_eq: "fold max xs (a :: int) = Max (insert a (set xs))"
  using Max.set_eq_fold [of a xs] by simp

section \<open>Delays\<close>

lemma ceiling_pos [simp]: "0 < ceiling_of r"
  by (simp add: ceiling_of_def refresh_consts)

lemma half_sdiv: "0 < (x :: int) sdiv 2 \<Longrightarrow> 2 * (x sdiv 2) \<le> x"
  by (cases x "0 :: int" rule: linorder_cases) (auto simp: signed_divide_int_def)

lemma sdiv_half: "2 \<le> (x :: int) \<Longrightarrow> 0 < x sdiv 2"
  by (auto simp: signed_divide_int_def)

lemma time_Sub_le: "0 < time_Sub t u \<Longrightarrow> time_Sub t u \<le> t - u"
  by (auto simp: time_Sub_def int64_defs split: if_splits)

lemma time_Sub_ge: "2 \<le> t - u \<Longrightarrow> 2 \<le> time_Sub t u"
  by (auto simp: time_Sub_def int64_defs)

lemma read_clock_simps [simp]:
  "fst (read_clock K p) = kw_Now K (kp_tick p)" "kp_health (snd (read_clock K p)) = kp_health p"
  "kp_cmds (snd (read_clock K p)) = kp_cmds p" "kp_env (snd (read_clock K p)) = kp_env p"
  by (simp_all add: read_clock_def ktick_def)

lemma ktick_simps [simp]:
  "kp_health (ktick p) = kp_health p" "kp_cmds (ktick p) = kp_cmds p" "kp_env (ktick p) = kp_env p"
  "kp_tick (ktick p) = Suc (kp_tick p)"
  by (simp_all add: ktick_def)

lemma lifetime_delay_bounds: "lifetime_delay K r p = (d, p') \<Longrightarrow> 0 < d \<and> d \<le> ceiling_of r"
  by (auto simp: lifetime_delay_def Let_def split: option.splits sum.splits prod.splits if_splits)

lemma lifetime_delay_frame:
  "lifetime_delay K r p = (d, p') \<Longrightarrow> kp_health p' = kp_health p \<and> kp_cmds p' = kp_cmds p \<and> kp_env p' = kp_env p"
  by (auto simp: lifetime_delay_def read_clock_def Let_def split: option.splits sum.splits prod.splits if_splits)

lemma lifetime_delay_half:
  assumes "rf_Lifetime r = Some src" "src (kp_tick p) = Inr endtime"
    and now: "n = kw_Now K (Suc (kp_tick p))" and left: "2 \<le> endtime - n"
    and "lifetime_delay K r p = (d, p')"
  shows "2 * d \<le> endtime - n"
proof -
  let ?half = "time_Sub endtime n sdiv 2"
  have pos: "0 < ?half" using time_Sub_ge [OF left] by (rule sdiv_half)
  have "d \<le> ?half"
    using assms pos by (auto simp: lifetime_delay_def read_clock_def Let_def split: if_splits)
  moreover have "2 * ?half \<le> time_Sub endtime n" using pos by (rule half_sdiv)
  moreover have "time_Sub endtime n \<le> endtime - n"
    using time_Sub_ge [OF left] by (intro time_Sub_le) simp
  ultimately show ?thesis by simp
qed

text \<open>What a refresh does to the health state.\<close>

lemma refreshOnce_failure:
  assumes "kinit_error K r p = Some e"
  shows "refreshOnce K r p =
    (retryBackoffMin, (kinit_after K r p)\<lparr>kp_health := map_option (\<lambda>k. MarkExpired k e) (kp_health p)\<rparr>)"
  using assms by (simp add: refreshOnce_def run_kinit_eq)

lemma refreshOnce_success:
  assumes "kinit_error K r p = None" "refreshOnce K r p = (d, p')"
  shows "\<exists>p2 n. lifetime_delay K r (kinit_after K r p) = (d, p2) \<and>
    kp_health p' = map_option (\<lambda>k. MarkReady k n) (kp_health p) \<and> kp_cmds p' = kp_cmds (kinit_after K r p)"
proof -
  obtain d2 p2 where l: "lifetime_delay K r (kinit_after K r p) = (d2, p2)" by fastforce
  then show ?thesis
    using assms lifetime_delay_frame [OF l]
    by (auto simp: refreshOnce_def run_kinit_eq read_clock_def ktick_def split: option.splits)
qed

lemma refreshOnce_bounds:
  assumes "refreshOnce K r p = (d, p')"
  shows "0 < d \<and> d \<le> max (ceiling_of r) retryBackoffMin"
proof (cases "kinit_error K r p")
  case None
  then show ?thesis using refreshOnce_success [OF None assms] lifetime_delay_bounds by fastforce
next
  case (Some e)
  then show ?thesis using assms refreshOnce_failure [OF Some] by (auto simp: refresh_consts)
qed

section \<open>The loop\<close>

text \<open>The health state tells how the last refresh went; before one it is unchanged.\<close>

definition loop_inv :: "Refresher \<Rightarrow> kproc \<Rightarrow> loop \<Rightarrow> bool" where
  "loop_inv r p l \<longleftrightarrow>
     0 < lp_timer l \<and> lp_timer l \<le> max (ceiling_of r) retryBackoffMin \<and>
     (kp_health (lp_proc l) = None \<longleftrightarrow> kp_health p = None) \<and>
     (\<forall>k. kp_health (lp_proc l) = Some k \<longrightarrow>
        (k_status k = StatusExpired \<longrightarrow> kp_health p \<noteq> Some k \<longrightarrow> lp_timer l = retryBackoffMin) \<and>
        (k_status k = StatusUnknown \<longrightarrow> kp_health p = Some k))"

lemma loop_inv_start: "loop_inv r p (loop_start r p)"
  by (auto simp: loop_inv_def loop_start_def)

lemma loop_inv_step:
  assumes "loop_inv r p l" "run_step K r l l'"
  shows "loop_inv r p l'"
  using assms(2)
proof cases
  case run_cancel
  then show ?thesis using assms(1) by (auto simp: loop_inv_def)
next
  case (run_fire nxt p')
  note b = refreshOnce_bounds [OF run_fire(3)]
  show ?thesis
  proof (cases "kinit_error K r (lp_proc l)")
    case None
    then show ?thesis
      using run_fire b assms(1) refreshOnce_success [OF None run_fire(3)]
      by (auto simp: loop_inv_def MarkReady_def)
  next
    case (Some e)
    then show ?thesis
      using run_fire b assms(1) refreshOnce_failure [OF Some]
      by (auto simp: loop_inv_def MarkExpired_def)
  qed
qed

lemma run_reach_inv: "run_reach K r p l \<Longrightarrow> loop_inv r p l"
  by (induction rule: run_reach.induct) (auto intro: loop_inv_start loop_inv_step)

text \<open>The maximum with Go's zero time thrown in.\<close>

lemma Max_zero:
  assumes "finite (S :: int set)"
  shows "Max (insert 0 S) \<noteq> 0 \<longleftrightarrow> (\<exists>x \<in> S. 0 < x)"
    "\<exists>x \<in> S. 0 < x \<Longrightarrow> Max (insert 0 S) = Max S \<and> 0 < Max S"
proof -
  have g: "(\<exists>x \<in> S. 0 < x) \<longleftrightarrow> S \<noteq> {} \<and> 0 < Max S" using assms by (cases "S = {}") (auto simp: Max_gr_iff)
  have m: "S \<noteq> {} \<Longrightarrow> Max (insert 0 S) = max 0 (Max S)" using assms by simp
  show "Max (insert 0 S) \<noteq> 0 \<longleftrightarrow> (\<exists>x \<in> S. 0 < x)" unfolding g using m by (cases "S = {}") auto
  show "\<exists>x \<in> S. 0 < x \<Longrightarrow> Max (insert 0 S) = Max S \<and> 0 < Max S" unfolding g using m by auto
qed

section \<open>Properties\<close>

text \<open>
  The endtime read from the credential cache is the latest endtime of its
  ticket-granting tickets when one has a positive endtime, else the latest of all
  its entries; it is an error exactly when the cache cannot be loaded or no entry
  has a positive endtime.
\<close>

theorem tgt_endtime_exact:
  assumes "kw_LoadCCache K n (if cpath = [] then CCachePath K else cpath) = Inr cs"
  shows "case TGTEndTime K cpath n of
      Inr e \<Rightarrow> e = (if \<exists>c \<in> set cs. is_tgt c \<and> 0 < cred_EndTime c
                   then Max (cred_EndTime ` {c \<in> set cs. is_tgt c}) else Max (cred_EndTime ` set cs)) \<and> 0 < e
    | Inl msg \<Rightarrow> \<forall>c \<in> set cs. cred_EndTime c \<le> 0"
proof -
  let ?T = "cred_EndTime ` {c \<in> set cs. is_tgt c}" and ?A = "cred_EndTime ` set cs"
  have e: "endtimes 0 0 cs = (Max (insert 0 ?T), Max (insert 0 ?A))"
    by (simp add: endtimes_eq fold_max_eq)
  have fin: "finite ?T" "finite ?A" by auto
  show ?thesis
    using assms Max_zero [OF fin(1)] Max_zero [OF fin(2)]
    by (auto simp: TGTEndTime_def e Let_def not_less)
qed

definition plain_world :: kworld where
  "plain_world = \<lparr>kw_Pid = 1, kw_Now = (\<lambda>_. 1000), kw_Exec = (\<lambda>_ _. None),
     kw_LoadCCache = (\<lambda>_ _. Inr [\<lparr>cred_NameString = [''krbtgt'', ''EXAMPLE.COM''], cred_EndTime = 5000\<rparr>,
                                \<lparr>cred_NameString = [''DNS'', ''dc1''], cred_EndTime = 9000\<rparr>])\<rparr>"

lemma plain_endtime: "TGTEndTime plain_world [] n = Inr 5000"
  by (simp add: TGTEndTime_def plain_world_def is_tgt_def EqualFold_def lower_char_def Let_def)

theorem tgt_endtime_exact_witness:
  "(5000 :: int) = (if \<exists>c \<in> set [\<lparr>cred_NameString = [''krbtgt'', ''EXAMPLE.COM''], cred_EndTime = 5000\<rparr>,
                                \<lparr>cred_NameString = [''DNS'', ''dc1''], cred_EndTime = 9000\<rparr>].
                        is_tgt c \<and> 0 < cred_EndTime c
     then Max (cred_EndTime ` {c \<in> set [\<lparr>cred_NameString = [''krbtgt'', ''EXAMPLE.COM''], cred_EndTime = 5000\<rparr>,
                                \<lparr>cred_NameString = [''DNS'', ''dc1''], cred_EndTime = 9000\<rparr>]. is_tgt c})
     else Max (cred_EndTime ` set [\<lparr>cred_NameString = [''krbtgt'', ''EXAMPLE.COM''], cred_EndTime = 5000\<rparr>,
                                \<lparr>cred_NameString = [''DNS'', ''dc1''], cred_EndTime = 9000\<rparr>]))"
proof -
  have "kw_LoadCCache plain_world 0 (if [] = [] then CCachePath plain_world else []) =
      Inr [\<lparr>cred_NameString = [''krbtgt'', ''EXAMPLE.COM''], cred_EndTime = 5000\<rparr>,
           \<lparr>cred_NameString = [''DNS'', ''dc1''], cred_EndTime = 9000\<rparr>]"
    by (simp add: plain_world_def)
  from tgt_endtime_exact [OF this] show ?thesis unfolding plain_endtime by simp
qed


definition plain_refresher :: Refresher where
  "plain_refresher = \<lparr>rf_Krb5Conf = ''/etc/krb5.conf'', rf_Keytab = ''/k'', rf_Password = [], rf_Principal = ''svc@X'',
     rf_Interval = 0, rf_Lifetime = Some (TGTEndTime plain_world [])\<rparr>"

definition plain_proc :: kproc where
  "plain_proc = \<lparr>kp_env = Map.empty, kp_cmds = [], kp_health = Some NewKerberos, kp_tick = 0\<rparr>"


text \<open>
  Along every run of the refresh loop, under every schedule of timer and
  cancellation, the armed delay is positive and never exceeds the larger of the
  ceiling and one minute; and once a refresh has failed, as the health state then
  says, the retry is due in one minute rather than after a full interval.
\<close>

theorem refresh_loop_bounded:
  assumes "run_reach K r p l"
  shows "0 < lp_timer l \<and> lp_timer l \<le> max (ceiling_of r) (60 * 1000000000) \<and>
    (\<forall>k. kp_health (lp_proc l) = Some k \<longrightarrow> k_status k = StatusExpired \<longrightarrow> kp_health p \<noteq> Some k \<longrightarrow>
       lp_timer l = 60 * 1000000000)"
  using run_reach_inv [OF assms] by (auto simp: loop_inv_def refresh_consts)

theorem refresh_loop_bounded_witness:
  "0 < lp_timer (loop_start plain_refresher plain_proc) \<and>
   lp_timer (loop_start plain_refresher plain_proc) \<le> max (ceiling_of plain_refresher) (60 * 1000000000)"
  using refresh_loop_bounded [OF reach_start [of plain_world plain_refresher plain_proc]] by blast

text \<open>
  Every kinit writes its ticket where the endtime is read from: the command a
  refresh runs has \<open>KRB5CCNAME\<close> naming the file \<open>CCachePath\<close> and the configured
  \<open>KRB5_CONFIG\<close>, and a password is passed on its standard input only.
\<close>

theorem kinit_writes_read_cache:
  assumes "run_kinit K r p = (res, p')" "c \<in> set (kp_cmds p') - set (kp_cmds p)"
  shows "cmd_name c = ''kinit'' \<and> cmd_env c ''KRB5CCNAME'' = Some (''FILE:'' @ CCachePath K) \<and>
    cmd_env c ''KRB5_CONFIG'' = Some (rf_Krb5Conf r) \<and>
    (if rf_Password r \<noteq> [] then cmd_args c = [rf_Principal r] \<and> cmd_stdin c = Some (password_line (rf_Password r))
     else cmd_args c = [''-kt'', rf_Keytab r, rf_Principal r] \<and> cmd_stdin c = None)"
proof -
  have "c = kinit_command K r p"
    using assms by (auto simp: run_kinit_eq kinit_after_def split: if_splits)
  then show ?thesis by (simp add: kinit_command_def)
qed

theorem kinit_writes_read_cache_witness:
  "cmd_env (kinit_command plain_world plain_refresher plain_proc) ''KRB5CCNAME'' =
     Some (''FILE:'' @ CCachePath plain_world)"
  using kinit_writes_read_cache [OF surjective_pairing, of "kinit_command plain_world plain_refresher plain_proc"
      plain_world plain_refresher plain_proc]
  by (simp add: run_kinit_eq kinit_after_def) (simp add: plain_refresher_def plain_proc_def)

end
