(* ===== verification/DnsUpdate.thy ===== *)
theory DnsUpdate
  imports ChangeSet GoNet
begin

text \<open>
  Building an RFC 2136 UPDATE and reading its rcode (\<open>internal/dnsop/update.go\<close>).

  \<open>github.com/miekg/dns\<close> is not part of the repository.  Its record types are
  named here with the fields the program reads or writes; its functions and
  tables are the fields of \<open>dnslib\<close>, a parameter of every definition that calls
  them.  \<open>NewRR\<close> returns an error, or a record, or nil without an error when
  its text holds no record.
\<close>

section \<open>The library's types\<close>

record RR_Header =
  hdr_Name :: string
  hdr_Rrtype :: "16 word"
  hdr_Class :: "16 word"
  hdr_Ttl :: "32 word"

datatype rdata =
    RD_A "byte list"
  | RD_AAAA "byte list"
  | RD_CNAME string
  | RD_MX "16 word" string
  | RD_NS string
  | RD_TXT "string list"
  | RD_SOA
  | RD_ANY
  | RD_Other

record RR =
  RR_hdr :: RR_Header
  RR_data :: rdata

text \<open>A message: the zone named by \<open>SetUpdate\<close> or \<open>SetAxfr\<close>, two sections, the TSIG.\<close>

datatype opcode = OpUpdate | OpAxfr

record Msg =
  msg_Op :: opcode
  msg_Zone :: string
  msg_Answer :: "RR option list"
  msg_Ns :: "RR option list"
  msg_Tsig :: "(string \<times> string \<times> int \<times> int) option"

record dnslib =
  lib_Fqdn :: "string \<Rightarrow> string"
  lib_NewRR :: "string \<Rightarrow> string + RR option"
  lib_StringToType :: "string \<rightharpoonup> 16 word"
  lib_RcodeToString :: "int \<rightharpoonup> string"

text \<open>The class values of the IANA registry.\<close>

definition ClassINET :: "16 word" where "ClassINET = 1"
definition ClassNONE :: "16 word" where "ClassNONE = 254"

section \<open>Definitions\<close>

definition rr_text :: "string \<Rightarrow> int \<Rightarrow> string \<Rightarrow> string \<Rightarrow> string" where
  "rr_text name ttl typ val = name @ '' '' @ Itoa ttl @ '' IN '' @ typ @ '' '' @ val"

definition recordToRR :: "dnslib \<Rightarrow> Record \<Rightarrow> RR option go" where
  "recordToRR lib r =
     (let s = rr_text (lib_Fqdn lib (rec_Name r)) (rec_TTL r) (rec_Type r) (rec_Value r)
      in case lib_NewRR lib s of
           Inl e \<Rightarrow> Err (''parse RR '' @ Quote s @ '': '' @ e)
         | Inr rr \<Rightarrow> Ok rr)"

definition buildPrereqRR :: "dnslib \<Rightarrow> Prereq \<Rightarrow> RR option go" where
  "buildPrereqRR lib p =
     (case lib_StringToType lib (ToUpper (pre_Type p)) of
        None \<Rightarrow> Err (''unknown record type in prereq: '' @ pre_Type p)
      | Some rtype \<Rightarrow>
          (let hdr = \<lparr>hdr_Name = lib_Fqdn lib (pre_Name p), hdr_Rrtype = rtype,
                      hdr_Class = 0, hdr_Ttl = 0\<rparr>
           in if pre_Kind p = ''NXRRSET'' then
                Ok (Some \<lparr>RR_hdr = hdr\<lparr>hdr_Class := ClassNONE\<rparr>, RR_data = RD_ANY\<rparr>)
              else if pre_Kind p = ''YXRRSET'' then
                (if pre_Value p = [] then Err ''YXRRSET prereq requires value''
                 else case lib_NewRR lib (rr_text (hdr_Name hdr) 0 (pre_Type p) (pre_Value p)) of
                        Inl e \<Rightarrow> Err (''parse YXRRSET value: '' @ e)
                      | Inr rr \<Rightarrow> Ok rr)
              else Err (''unknown prereq kind: '' @ pre_Kind p)))"

text \<open>Writing through the header of a nil record panics.\<close>

definition as_deletion :: "RR option \<Rightarrow> RR option go" where
  "as_deletion rr =
     (case rr of
        None \<Rightarrow> Panic
      | Some r \<Rightarrow> Ok (Some (r\<lparr>RR_hdr := (RR_hdr r)\<lparr>hdr_Class := ClassNONE, hdr_Ttl := 0\<rparr>\<rparr>)))"

definition changeRR :: "dnslib \<Rightarrow> Change \<Rightarrow> RR option go" where
  "changeRR lib c =
     bind_go (recordToRR lib (chg_Record c))
       (\<lambda>rr. if chg_Op c = ''add'' then Ok rr
             else if chg_Op c = ''delete'' then as_deletion rr
             else Err (''unknown change op: '' @ chg_Op c))"

fun map_go :: "('a \<Rightarrow> 'b go) \<Rightarrow> 'a list \<Rightarrow> 'b list go" where
  "map_go f [] = Ok []"
| "map_go f (x # xs) = bind_go (f x) (\<lambda>y. bind_go (map_go f xs) (\<lambda>ys. Ok (y # ys)))"

definition BuildUpdateMsg :: "dnslib \<Rightarrow> string \<Rightarrow> Prereq list \<Rightarrow> Change list \<Rightarrow> Msg go" where
  "BuildUpdateMsg lib zone prereqs changes =
     bind_go (map_go (buildPrereqRR lib) prereqs)
       (\<lambda>answer. bind_go (map_go (changeRR lib) changes)
          (\<lambda>ns. Ok \<lparr>msg_Op = OpUpdate, msg_Zone = lib_Fqdn lib zone, msg_Answer = answer,
                    msg_Ns = ns, msg_Tsig = None\<rparr>))"

section \<open>Rcodes\<close>

text \<open>The rcode values of the IANA registry, as \<open>miekg/dns\<close> names them.\<close>

definition RcodeSuccess :: int where "RcodeSuccess = 0"
definition RcodeFormatError :: int where "RcodeFormatError = 1"
definition RcodeServerFailure :: int where "RcodeServerFailure = 2"
definition RcodeRefused :: int where "RcodeRefused = 5"
definition RcodeYXRrset :: int where "RcodeYXRrset = 7"
definition RcodeNXRrset :: int where "RcodeNXRrset = 8"
definition RcodeNotAuth :: int where "RcodeNotAuth = 9"
definition RcodeNotZone :: int where "RcodeNotZone = 10"

lemmas rcode_defs = RcodeSuccess_def RcodeFormatError_def RcodeServerFailure_def RcodeRefused_def
  RcodeYXRrset_def RcodeNXRrset_def RcodeNotAuth_def RcodeNotZone_def

definition apply_ok :: ApplyResult where
  "apply_ok =
     \<lparr>ar_OK = True, ar_Rcode = ''NOERROR'', ar_Phase = [], ar_Message = [], ar_Retryable = False\<rparr>"

definition apply_fail :: "string \<Rightarrow> string \<Rightarrow> string \<Rightarrow> bool \<Rightarrow> ApplyResult" where
  "apply_fail rcode phase msg retry =
     \<lparr>ar_OK = False, ar_Rcode = rcode, ar_Phase = phase, ar_Message = msg, ar_Retryable = retry\<rparr>"

definition ClassifyRcode :: "dnslib \<Rightarrow> int \<Rightarrow> ApplyResult" where
  "ClassifyRcode lib rcode =
     (if rcode = RcodeSuccess then apply_ok
      else if rcode = RcodeServerFailure then apply_fail ''SERVFAIL'' ''dns-receive'' ''server failure'' True
      else if rcode = RcodeYXRrset then apply_fail ''YXRRSET'' ''dns-receive'' ''prerequisite YXRRSET failed'' False
      else if rcode = RcodeNXRrset then apply_fail ''NXRRSET'' ''dns-receive'' ''prerequisite NXRRSET failed'' False
      else if rcode = RcodeNotAuth then apply_fail ''NOTAUTH'' ''dns-receive'' ''not authoritative'' False
      else if rcode = RcodeNotZone then apply_fail ''NOTZONE'' ''dns-receive'' ''not zone'' False
      else if rcode = RcodeRefused then apply_fail ''REFUSED'' ''dns-receive'' ''refused'' False
      else if rcode = RcodeFormatError then apply_fail ''FORMERR'' ''dns-receive'' ''format error'' False
      else apply_fail (case lib_RcodeToString lib rcode of None \<Rightarrow> [] | Some n \<Rightarrow> n) ''dns-receive''
             (''unexpected rcode '' @ Itoa rcode) False)"

section \<open>Shape of the message\<close>

lemma map_go_Ok: "map_go f xs = Ok ys \<longleftrightarrow> list_all2 (\<lambda>x y. f x = Ok y) xs ys"
proof (induction xs arbitrary: ys)
  case (Cons x xs)
  show ?case
    by (cases ys) (auto simp: Cons.IH)
qed auto

lemma map_go_Err: "map_go f xs = Err e \<Longrightarrow> \<exists>x \<in> set xs. f x = Err e"
proof (induction xs)
  case (Cons x xs)
  then show ?case
    by (cases "f x"; cases "map_go f xs") auto
qed simp

lemma bind_go_Err: "bind_go r f = Err e \<longleftrightarrow> r = Err e \<or> (\<exists>a. r = Ok a \<and> f a = Err e)"
  by (cases r) auto

text \<open>What a section entry says: RFC 2136 sections 2.4 and 2.5.\<close>

definition encodes_prereq :: "dnslib \<Rightarrow> Prereq \<Rightarrow> RR option \<Rightarrow> bool" where
  "encodes_prereq lib p o_rr \<longleftrightarrow>
     (if pre_Kind p = ''NXRRSET''
      then \<exists>rr. o_rr = Some rr \<and> hdr_Class (RR_hdr rr) = ClassNONE \<and> hdr_Ttl (RR_hdr rr) = 0 \<and>
             RR_data rr = RD_ANY \<and> hdr_Name (RR_hdr rr) = lib_Fqdn lib (pre_Name p) \<and>
             lib_StringToType lib (ToUpper (pre_Type p)) = Some (hdr_Rrtype (RR_hdr rr))
      else pre_Kind p = ''YXRRSET'' \<and> pre_Value p \<noteq> [] \<and>
           lib_NewRR lib (rr_text (lib_Fqdn lib (pre_Name p)) 0 (pre_Type p) (pre_Value p)) = Inr o_rr)"

definition encodes_change :: "dnslib \<Rightarrow> Change \<Rightarrow> RR option \<Rightarrow> bool" where
  "encodes_change lib c o_rr \<longleftrightarrow>
     (\<exists>parsed. lib_NewRR lib (rr_text (lib_Fqdn lib (rec_Name (chg_Record c))) (rec_TTL (chg_Record c))
                  (rec_Type (chg_Record c)) (rec_Value (chg_Record c))) = Inr parsed \<and>
        (if chg_Op c = ''add'' then o_rr = parsed
         else chg_Op c = ''delete'' \<and>
              (\<exists>rr. parsed = Some rr \<and>
                 o_rr = Some (rr\<lparr>RR_hdr := (RR_hdr rr)\<lparr>hdr_Class := ClassNONE, hdr_Ttl := 0\<rparr>\<rparr>))))"

lemma buildPrereqRR_Ok: "buildPrereqRR lib p = Ok rr \<Longrightarrow> encodes_prereq lib p rr"
  by (auto simp: buildPrereqRR_def encodes_prereq_def Let_def split: option.splits if_splits sum.splits)

lemma changeRR_Ok: "changeRR lib c = Ok rr \<Longrightarrow> encodes_change lib c rr"
  by (auto simp: changeRR_def encodes_change_def recordToRR_def as_deletion_def Let_def
      split: option.splits if_splits sum.splits)

lemma BuildUpdateMsg_Ok:
  "BuildUpdateMsg lib zone ps cs = Ok m \<Longrightarrow>
     msg_Op m = OpUpdate \<and> msg_Zone m = lib_Fqdn lib zone \<and> msg_Tsig m = None \<and>
     list_all2 (encodes_prereq lib) ps (msg_Answer m) \<and> list_all2 (encodes_change lib) cs (msg_Ns m)"
  by (auto simp: BuildUpdateMsg_def map_go_Ok intro: list.rel_mono_strong
      dest: buildPrereqRR_Ok changeRR_Ok elim!: list_all2_mono)

text \<open>A well-formed change set is refused only when the library cannot parse a record.\<close>

definition knows_types :: "dnslib \<Rightarrow> bool" where
  "knows_types lib \<longleftrightarrow> (\<forall>t \<in> set (''TXT'' # supported_types). lib_StringToType lib t \<noteq> None)"

lemma supported_ToUpper: "t \<in> set (''TXT'' # supported_types) \<Longrightarrow> ToUpper t = t"
  by (auto simp: supported_types_def ToUpper_def upper_char_def)

definition unparsable :: "dnslib \<Rightarrow> string \<Rightarrow> bool" where
  "unparsable lib s \<longleftrightarrow> (\<exists>e. lib_NewRR lib s = Inl e)"

lemma buildPrereqRR_Err:
  assumes "knows_types lib" "wf_prereq p" "buildPrereqRR lib p = Err e"
  shows "unparsable lib (rr_text (lib_Fqdn lib (pre_Name p)) 0 (pre_Type p) (pre_Value p))"
proof -
  have "lib_StringToType lib (ToUpper (pre_Type p)) \<noteq> None"
    using assms(1,2) supported_ToUpper [of "pre_Type p"]
    by (auto simp: knows_types_def wf_prereq_def supported_types_def)
  with assms(2,3) show ?thesis
    by (auto simp: buildPrereqRR_def wf_prereq_def unparsable_def Let_def
        split: option.splits if_splits sum.splits)
qed

lemma changeRR_Err:
  assumes "wf_change c" "changeRR lib c = Err e"
  shows "unparsable lib (rr_text (lib_Fqdn lib (rec_Name (chg_Record c))) (rec_TTL (chg_Record c))
    (rec_Type (chg_Record c)) (rec_Value (chg_Record c)))"
  using assms
  by (auto simp: changeRR_def wf_change_def recordToRR_def unparsable_def as_deletion_def Let_def bind_go_Err
      split: sum.splits if_splits option.splits)

section \<open>Properties\<close>

text \<open>
  The message built says what was asked, section by section and in order: an
  UPDATE of the zone, unsigned, whose answer section holds one entry per
  prerequisite (class NONE and type only for NXRRSET, the parsed record for
  YXRRSET) and whose authority section holds one entry per change (the parsed record
  for an add; the same with class NONE and TTL 0 for a delete).
\<close>

theorem update_message_shape:
  assumes "BuildUpdateMsg lib zone ps cs = Ok m"
  shows "msg_Op m = OpUpdate \<and> msg_Zone m = lib_Fqdn lib zone \<and> msg_Tsig m = None \<and>
    list_all2 (encodes_prereq lib) ps (msg_Answer m) \<and> list_all2 (encodes_change lib) cs (msg_Ns m)"
  using assms by (rule BuildUpdateMsg_Ok)

text \<open>A library whose parser accepts every text as a record.\<close>

definition parsed_rr :: "string \<Rightarrow> RR" where
  "parsed_rr s = \<lparr>RR_hdr = \<lparr>hdr_Name = s, hdr_Rrtype = 1, hdr_Class = ClassINET, hdr_Ttl = 300\<rparr>, RR_data = RD_Other\<rparr>"

definition lenient_lib :: dnslib where
  "lenient_lib = \<lparr>lib_Fqdn = dotted, lib_NewRR = (\<lambda>s. Inr (Some (parsed_rr s))),
                 lib_StringToType = (\<lambda>t. Some 1), lib_RcodeToString = Map.empty\<rparr>"

lemma lenient_builds:
  "\<exists>m. BuildUpdateMsg lenient_lib ''example.com'' (cs_prereqs x_delete) (cs_changes x_delete) = Ok m"
  by (simp add: BuildUpdateMsg_def x_delete_def delete_emit_def buildPrereqRR_def yx_txt_def changeRR_def
      recordToRR_def as_deletion_def lenient_lib_def del_rec_def Let_def)

theorem update_message_shape_witness:
  "\<exists>m :: Msg. msg_Op m = OpUpdate \<and> list_all2 (encodes_prereq lenient_lib) (cs_prereqs x_delete) (msg_Answer m) \<and>
     list_all2 (encodes_change lenient_lib) (cs_changes x_delete) (msg_Ns m)"
proof -
  obtain m where "BuildUpdateMsg lenient_lib ''example.com'' (cs_prereqs x_delete) (cs_changes x_delete) = Ok m"
    using lenient_builds by blast
  from update_message_shape [OF this] show ?thesis by blast
qed

text \<open>
  A well-formed change set, and every one the orchestrator builds is, fails to
  become a message only when the library cannot parse the text of one of its
  records: no unknown type, operation, kind or missing value.
\<close>

theorem well_formed_update_refused_only_by_parser:
  assumes "wf_cs cs" "knows_types lib"
    and "BuildUpdateMsg lib zone (cs_prereqs cs) (cs_changes cs) = Err e"
  shows "(\<exists>p \<in> set (cs_prereqs cs).
      unparsable lib (rr_text (lib_Fqdn lib (pre_Name p)) 0 (pre_Type p) (pre_Value p))) \<or>
    (\<exists>c \<in> set (cs_changes cs).
      unparsable lib (rr_text (lib_Fqdn lib (rec_Name (chg_Record c))) (rec_TTL (chg_Record c))
        (rec_Type (chg_Record c)) (rec_Value (chg_Record c))))"
proof -
  from assms(3) consider "map_go (buildPrereqRR lib) (cs_prereqs cs) = Err e"
    | "map_go (changeRR lib) (cs_changes cs) = Err e"
    by (auto simp: BuildUpdateMsg_def bind_go_Err)
  then show ?thesis
  proof cases
    case 1
    then obtain p where "p \<in> set (cs_prereqs cs)" "buildPrereqRR lib p = Err e" using map_go_Err by blast
    moreover from this have "wf_prereq p" using assms(1) by (simp add: wf_cs_def list_all_iff)
    ultimately show ?thesis using buildPrereqRR_Err [OF assms(2)] by blast
  next
    case 2
    then obtain c where "c \<in> set (cs_changes cs)" "changeRR lib c = Err e" using map_go_Err by blast
    moreover from this have "wf_change c" using assms(1) by (simp add: wf_cs_def list_all_iff)
    ultimately show ?thesis using changeRR_Err by blast
  qed
qed

definition strict_lib :: dnslib where
  "strict_lib = lenient_lib\<lparr>lib_NewRR := (\<lambda>s. Inl ''dns: bad record'')\<rparr>"

theorem well_formed_update_refused_only_by_parser_witness:
  "(\<exists>p \<in> set (cs_prereqs x_delete).
      unparsable strict_lib (rr_text (lib_Fqdn strict_lib (pre_Name p)) 0 (pre_Type p) (pre_Value p))) \<or>
   (\<exists>c \<in> set (cs_changes x_delete).
      unparsable strict_lib (rr_text (lib_Fqdn strict_lib (rec_Name (chg_Record c))) (rec_TTL (chg_Record c))
        (rec_Type (chg_Record c)) (rec_Value (chg_Record c))))"
proof (rule well_formed_update_refused_only_by_parser)
  show "wf_cs x_delete" by (rule buildZoneChangeSet_wf [OF x_delete_built]) simp
  show "knows_types strict_lib" by (simp add: knows_types_def strict_lib_def lenient_lib_def)
  show "BuildUpdateMsg strict_lib ''example.com'' (cs_prereqs x_delete) (cs_changes x_delete) =
      Err (''parse YXRRSET value: '' @ ''dns: bad record'')"
    by (simp add: BuildUpdateMsg_def x_delete_def delete_emit_def buildPrereqRR_def yx_txt_def
        strict_lib_def lenient_lib_def Let_def)
qed

end
