(* ===== verification/DnsAxfr.thy ===== *)
theory DnsAxfr
  imports DnsUpdate
begin

text \<open>
  Reading a zone transfer (\<open>internal/dnsop/axfr.go\<close>).  The channel of envelopes
  is the list of the envelopes received before it was closed.  \<open>miekg/dns\<close>
  unpacks every record of an answer, so an envelope holds records, never nil.
\<close>

record Envelope =
  env_RR :: "RR list"
  env_Error :: "string option"

section \<open>Definitions\<close>

definition axfr_failed :: "string \<Rightarrow> RecordsResult" where
  "axfr_failed msg =
     \<lparr>rr_OK = False, rr_Records = [], rr_Rcode = [], rr_Phase = ''dns-receive'', rr_Message = msg,
      rr_Retryable = True\<rparr>"

text \<open>The three bytes of the dash in the source's message.\<close>

definition em_dash :: string where
  "em_dash = [char_of (0xE2 :: nat), char_of (0x80 :: nat), char_of (0x94 :: nat)]"

definition too_short_msg :: string where
  "too_short_msg = ''AXFR stream too short '' @ em_dash @ '' missing leading or trailing SOA''"

definition no_soa_msg :: string where
  "no_soa_msg = ''AXFR stream did not terminate with SOA''"

definition is_SOA :: "RR \<Rightarrow> bool" where
  "is_SOA rr \<longleftrightarrow> RR_data rr = RD_SOA"

definition host_value :: "string \<Rightarrow> string" where
  "host_value h = TrimSuffix (ToLower h) ''.''"

definition rrToRecord :: "RR \<Rightarrow> Record option" where
  "rrToRecord rr =
     (let hdr = RR_hdr rr;
          rec = (\<lambda>typ val. Some \<lparr>rec_Name = TrimSuffix (ToLower (hdr_Name hdr)) ''.'', rec_Type = typ,
                                rec_TTL = uint (hdr_Ttl hdr), rec_Value = val\<rparr>)
      in case RR_data rr of
           RD_A ip \<Rightarrow> rec ''A'' (IP_String ip)
         | RD_AAAA ip \<Rightarrow> rec ''AAAA'' (IP_String ip)
         | RD_CNAME target \<Rightarrow> rec ''CNAME'' (host_value target)
         | RD_MX pref mx \<Rightarrow> rec ''MX'' (Itoa (uint pref) @ '' '' @ host_value mx)
         | RD_NS ns \<Rightarrow> rec ''NS'' (host_value ns)
         | RD_TXT chunks \<Rightarrow> rec ''TXT'' ([CHR 0x22] @ Join chunks [] @ [CHR 0x22])
         | _ \<Rightarrow> None)"

text \<open>The drain of the channel: the records so far and the last error seen.\<close>

fun drain :: "RR list \<Rightarrow> string option \<Rightarrow> Envelope list \<Rightarrow> RR list \<times> string option" where
  "drain rrs sawError [] = (rrs, sawError)"
| "drain rrs sawError (env # ch) =
     (case env_Error env of
        Some e \<Rightarrow> drain rrs (Some e) ch
      | None \<Rightarrow> drain (rrs @ env_RR env) sawError ch)"

text \<open>The record loop; \<open>i\<close> is the index, \<open>n\<close> the number of records received.\<close>

fun records_loop :: "nat \<Rightarrow> nat \<Rightarrow> Record list \<Rightarrow> RR list \<Rightarrow> Record list" where
  "records_loop i n out [] = out"
| "records_loop i n out (rr # rrs) =
     (if is_SOA rr \<and> (i = 0 \<or> i = n - 1) then records_loop (Suc i) n out rrs
      else case rrToRecord rr of
             None \<Rightarrow> records_loop (Suc i) n out rrs
           | Some rec \<Rightarrow> records_loop (Suc i) n (out @ [rec]) rrs)"

definition ParseAXFRStream :: "Envelope list \<Rightarrow> RecordsResult" where
  "ParseAXFRStream ch =
     (case drain [] None ch of
        (rrs, sawError) \<Rightarrow>
          (case sawError of
             Some e \<Rightarrow> axfr_failed e
           | None \<Rightarrow>
               (if length rrs < 2 then axfr_failed too_short_msg
                else if \<not> (is_SOA (rrs ! 0) \<and> is_SOA (rrs ! (length rrs - 1))) then axfr_failed no_soa_msg
                else \<lparr>rr_OK = True, rr_Records = records_loop 0 (length rrs) [] rrs, rr_Rcode = [],
                      rr_Phase = [], rr_Message = [], rr_Retryable = False\<rparr>)))"

section \<open>All or nothing\<close>

definition stream_rrs :: "Envelope list \<Rightarrow> RR list" where
  "stream_rrs ch = concat (map env_RR ch)"

definition complete_transfer :: "Envelope list \<Rightarrow> bool" where
  "complete_transfer ch \<longleftrightarrow>
     list_all (\<lambda>env. env_Error env = None) ch \<and> length (stream_rrs ch) \<ge> 2 \<and>
     is_SOA (hd (stream_rrs ch)) \<and> is_SOA (last (stream_rrs ch))"

lemma drain_clean:
  "list_all (\<lambda>env. env_Error env = None) ch \<Longrightarrow> drain rrs err ch = (rrs @ stream_rrs ch, err)"
  by (induction ch arbitrary: rrs) (auto simp: stream_rrs_def)

lemma drain_error:
  "snd (drain rrs err ch) = None \<longleftrightarrow> err = None \<and> list_all (\<lambda>env. env_Error env = None) ch"
  by (induction ch arbitrary: rrs err) (auto split: option.splits)

lemma SOA_no_record: "is_SOA rr \<Longrightarrow> rrToRecord rr = None"
  by (simp add: is_SOA_def rrToRecord_def Let_def)

lemma records_loop_eq: "records_loop i n out rrs = out @ List.map_filter rrToRecord rrs"
  by (induction i n out rrs rule: records_loop.induct)
    (auto simp: SOA_no_record List.map_filter_simps split: option.splits)

lemma axfr_failed_fields [simp]:
  "\<not> rr_OK (axfr_failed m)" "rr_Records (axfr_failed m) = []" "rr_Retryable (axfr_failed m)"
  "rr_Phase (axfr_failed m) = ''dns-receive''"
  by (simp_all add: axfr_failed_def)

lemma ParseAXFRStream_complete:
  assumes "complete_transfer ch"
  shows "ParseAXFRStream ch =
    \<lparr>rr_OK = True, rr_Records = List.map_filter rrToRecord (stream_rrs ch), rr_Rcode = [],
     rr_Phase = [], rr_Message = [], rr_Retryable = False\<rparr>"
proof -
  have "stream_rrs ch \<noteq> []" using assms by (auto simp: complete_transfer_def)
  then show ?thesis
    using assms drain_clean [of ch "[]" None]
    by (simp add: complete_transfer_def ParseAXFRStream_def records_loop_eq hd_conv_nth last_conv_nth)
qed

lemma ParseAXFRStream_incomplete:
  assumes "\<not> complete_transfer ch"
  shows "\<exists>m. ParseAXFRStream ch = axfr_failed m"
proof (cases "list_all (\<lambda>env. env_Error env = None) ch")
  case True
  then have d: "drain [] None ch = (stream_rrs ch, None)" using drain_clean [of ch "[]" None] by simp
  show ?thesis
  proof (cases "length (stream_rrs ch) < 2")
    case False
    then have "stream_rrs ch \<noteq> []" by auto
    with assms True False have "\<not> (is_SOA (stream_rrs ch ! 0) \<and> is_SOA (stream_rrs ch ! (length (stream_rrs ch) - 1)))"
      by (auto simp: complete_transfer_def hd_conv_nth last_conv_nth)
    then show ?thesis using d False by (auto simp: ParseAXFRStream_def)
  qed (simp add: ParseAXFRStream_def d, blast)
next
  case False
  then obtain rrs e where "drain [] None ch = (rrs, Some e)"
    using drain_error [of "[]" None ch] by (cases "drain [] None ch") auto
  then show ?thesis by (auto simp: ParseAXFRStream_def)
qed

lemma rrToRecord_type:
  "rrToRecord rr = Some r \<Longrightarrow> rec_Type r \<in> set (''TXT'' # supported_types) \<and> rec_TTL r \<ge> 0 \<and>
     rec_Name r = TrimSuffix (ToLower (hdr_Name (RR_hdr rr))) ''.''"
  by (auto simp: rrToRecord_def supported_types_def Let_def split: rdata.splits)

section \<open>Properties\<close>


lemma digits_not_space: "isDigit c \<Longrightarrow> \<not> isSpace c"
  by (auto simp: isDigit_def isSpace_def Let_def)

lemma host_value_dot: "host_value (x @ ''.'') = ToLower x"
  using TrimSuffix_append [of "ToLower x" "''.''"] by (simp add: host_value_def)

lemma solid_ToLower: "solid x \<Longrightarrow> solid (ToLower x)"
  using nospace_ToLower by (auto simp: solid_def)

lemma solid_TrimSpace: "solid x \<Longrightarrow> TrimSpace x = x"
  by (rule TrimSpace_nonspace) (auto simp: solid_def)

lemma canonical_host:
  assumes "solid x" "\<not> HasSuffix x ''.''" "t = ''CNAME'' \<or> t = ''NS''"
  shows "canonicalRdata t (ToLower x) = ToLower x @ ''.''"
  using assms solid_TrimSpace [OF solid_ToLower [OF assms(1)]]
  by (auto simp: canonicalRdata_def dotted_def solid_def Let_def)

lemma canonical_mx:
  assumes "solid x" "\<not> HasSuffix x ''.''"
  shows "canonicalRdata ''MX'' (nat_digits n @ '' '' @ ToLower x) = nat_digits n @ '' '' @ ToLower x @ ''.''"
proof -
  have p: "\<forall>c \<in> set (nat_digits n). \<not> isSpace c" using nat_digits_isDigit [of n] digits_not_space by (auto simp: list_all_iff)
  have h: "ToLower x \<noteq> []" "\<forall>c \<in> set (ToLower x). \<not> isSpace c"
    using solid_ToLower [OF assms(1)] by (auto simp: solid_def)
  have "TrimSpace (nat_digits n @ '' '' @ ToLower x) = nat_digits n @ '' '' @ ToLower x"
    using p h by (intro TrimSpace_nonspace) auto
  then show ?thesis
    using Fields_two [OF p h(2) nat_digits_nonempty h(1)] assms(2)
    by (simp add: canonicalRdata_def dotted_def Let_def)
qed

text \<open>
  What a transfer reports of a record that names a host canonicalises back to
  the stored data, in lower case: the trailing dot taken off on reading is the one
  put back on writing, and an MX keeps its preference, so a delete built from a
  listing names the stored record.
\<close>

theorem host_target_readback:
  assumes "solid x" "\<not> HasSuffix x ''.''"
    and "RR_data rr \<in> {RD_CNAME (x @ ''.''), RD_NS (x @ ''.''), RD_MX pref (x @ ''.'')}"
  shows "\<exists>r. rrToRecord rr = Some r \<and> canonicalRdata (rec_Type r) (rec_Value r) =
    (case RR_data rr of
       RD_MX p h \<Rightarrow> Itoa (uint p) @ '' '' @ ToLower h
     | RD_CNAME h \<Rightarrow> ToLower h
     | RD_NS h \<Rightarrow> ToLower h
     | _ \<Rightarrow> [])"
  using assms(3)
  by (auto simp: rrToRecord_def host_value_dot canonical_host [OF assms(1,2)]
      canonical_mx [OF assms(1,2), simplified] Itoa_def Let_def)

theorem host_target_readback_witness:
  "\<exists>r. rrToRecord (\<lparr>RR_hdr = \<lparr>hdr_Name = ''example.com.'', hdr_Rrtype = 15, hdr_Class = 1, hdr_Ttl = 300\<rparr>,
                    RR_data = RD_MX 10 (''Mail.example.com'' @ ''.'')\<rparr>) = Some r \<and>
     canonicalRdata (rec_Type r) (rec_Value r) = Itoa (uint (10 :: 16 word)) @ '' '' @ ToLower ''Mail.example.com.''"
proof -
  have "solid ''Mail.example.com''" "\<not> HasSuffix ''Mail.example.com'' ''.''" by code_simp+
  from host_target_readback [OF this, of
      "\<lparr>RR_hdr = \<lparr>hdr_Name = ''example.com.'', hdr_Rrtype = 15, hdr_Class = 1, hdr_Ttl = 300\<rparr>,
        RR_data = RD_MX 10 (''Mail.example.com'' @ ''.'')\<rparr>" 10]
  show ?thesis by simp
qed

end
