(* ===== verification/DnsClient.thy ===== *)
theory DnsClient
  imports DnsAxfr Failover
begin

text \<open>
  The two DNS clients (\<open>internal/dnsop/client.go\<close>, \<open>client_real.go\<close>,
  \<open>client_tsig.go\<close>): GSS-TSIG and pre-shared TSIG.

  What is outside the repository -- the GSS client of \<open>bodgit/tsig\<close>, the transport
  of \<open>miekg/dns\<close> and the clock -- is the record \<open>net\<close> of functions, a parameter.
  Every operation also returns the list of its outside effects, in order, so
  that the deferred clean-up is part of the model.
\<close>

section \<open>The outside\<close>

datatype provider = NoProvider | GSSProvider | HMACProvider string string

record dns_Client =
  cli_Net :: string
  cli_TsigProvider :: provider
  cli_DialTimeout :: int
  cli_ReadTimeout :: int
  cli_WriteTimeout :: int

record dns_Transfer =
  tr_TsigProvider :: provider
  tr_DialTimeout :: int
  tr_ReadTimeout :: int

text \<open>
  \<open>net_Exchange\<close> returns the rcode of the reply, if there was one, and the error,
  if there was one: \<open>dns.Client.Exchange\<close> can return both.
\<close>

record net =
  net_NewClient :: "string option"
  net_Negotiate :: "string \<Rightarrow> string + string"
  net_In :: "dns_Transfer \<Rightarrow> Msg \<Rightarrow> string \<Rightarrow> string + Envelope list"
  net_Exchange :: "dns_Client \<Rightarrow> Msg \<Rightarrow> string \<Rightarrow> int option \<times> string option"
  net_Now :: int

datatype effect =
    Negotiated string
  | Transferred dns_Transfer Msg string
  | Exchanged dns_Client Msg string
  | Warned string
  | DeletedContext string

section \<open>Reading an exchange\<close>

definition tsig_failed :: "string \<Rightarrow> bool \<Rightarrow> ApplyResult" where
  "tsig_failed msg retry = apply_fail [] ''tsig-verify'' msg retry"

definition classifyTSIGError :: "string \<Rightarrow> ApplyResult option" where
  "classifyTSIGError msg =
     (let lower = ToLower msg
      in if Contains lower ''badtime'' \<or> Contains lower ''bad time'' then
           Some (tsig_failed (''clock skew between client and DC: '' @ msg) True)
         else if Contains lower ''badsig'' \<or> Contains lower ''bad signature'' then
           Some (tsig_failed (''TSIG signature mismatch (check principal/keytab/realm): '' @ msg) False)
         else if Contains lower ''badkey'' \<or> Contains lower ''key not found'' then
           Some (tsig_failed (''TSIG key not recognised by server (check principal/keytab): '' @ msg) False)
         else None)"

text \<open>The second component is the warning logged, if any.\<close>

definition classifyExchangeResult ::
  "dnslib \<Rightarrow> int option \<Rightarrow> string option \<Rightarrow> ApplyResult \<times> effect list" where
  "classifyExchangeResult lib resp err =
     (case err of
        Some e \<Rightarrow>
          (case resp of
             Some rcode \<Rightarrow>
               if rcode = RcodeSuccess then (apply_ok, [Warned e]) else (ClassifyRcode lib rcode, [])
           | None \<Rightarrow>
               (case classifyTSIGError e of
                  Some r \<Rightarrow> (r, [])
                | None \<Rightarrow> (apply_fail [] ''dns-send'' e True, [])))
      | None \<Rightarrow>
          (case resp of
             None \<Rightarrow> (apply_fail [] ''dns-receive'' ''nil response'' True, [])
           | Some rcode \<Rightarrow> (ClassifyRcode lib rcode, [])))"

definition send_failed :: "string \<Rightarrow> RecordsResult" where
  "send_failed e =
     \<lparr>rr_OK = False, rr_Records = [], rr_Rcode = [], rr_Phase = ''dns-send'', rr_Message = e,
      rr_Retryable = True\<rparr>"

definition axfr_msg :: "dnslib \<Rightarrow> string \<Rightarrow> Msg" where
  "axfr_msg lib zone =
     \<lparr>msg_Op = OpAxfr, msg_Zone = lib_Fqdn lib zone, msg_Answer = [], msg_Ns = [], msg_Tsig = None\<rparr>"

definition run_transfer ::
  "net \<Rightarrow> dns_Transfer \<Rightarrow> Msg \<Rightarrow> string \<Rightarrow> RecordsResult \<times> effect list" where
  "run_transfer N t m addr =
     (case net_In N t m addr of
        Inl e \<Rightarrow> (send_failed e, [Transferred t m addr])
      | Inr ch \<Rightarrow> (ParseAXFRStream ch, [Transferred t m addr]))"

definition run_exchange ::
  "dnslib \<Rightarrow> net \<Rightarrow> dns_Client \<Rightarrow> Msg \<Rightarrow> string \<Rightarrow> ApplyResult \<times> effect list" where
  "run_exchange lib N cli m addr =
     (case net_Exchange N cli m addr of
        (resp, err) \<Rightarrow>
          (case classifyExchangeResult lib resp err of (r, w) \<Rightarrow> (r, Exchanged cli m addr # w)))"

section \<open>client_real.go\<close>

record RealClient =
  rc_Realm :: string
  rc_Principal :: string
  rc_AxfrTimeout :: int
  rc_UpdateTimeout :: int

definition NewRealClient :: "net \<Rightarrow> string \<Rightarrow> string \<Rightarrow> int \<Rightarrow> int \<Rightarrow> RealClient go" where
  "NewRealClient N realm princ axfr upd =
     (case net_NewClient N of
        Some e \<Rightarrow> Err (''gss new client: '' @ e)
      | None \<Rightarrow> Ok \<lparr>rc_Realm = realm, rc_Principal = princ, rc_AxfrTimeout = axfr, rc_UpdateTimeout = upd\<rparr>)"

definition real_AXFR ::
  "dnslib \<Rightarrow> net \<Rightarrow> RealClient \<Rightarrow> string \<Rightarrow> int \<Rightarrow> string \<Rightarrow> RecordsResult \<times> effect list" where
  "real_AXFR lib N c host port zone =
     run_transfer N
       \<lparr>tr_TsigProvider = NoProvider, tr_DialTimeout = rc_AxfrTimeout c, tr_ReadTimeout = rc_AxfrTimeout c\<rparr>
       (axfr_msg lib zone) (JoinHostPort host (Itoa port))"

text \<open>Between the negotiation and the deferred deletion; a panic passes through both.\<close>

definition real_Update_body ::
  "dnslib \<Rightarrow> net \<Rightarrow> RealClient \<Rightarrow> string \<Rightarrow> string \<Rightarrow> string \<Rightarrow> Prereq list \<Rightarrow> Change list \<Rightarrow>
     ApplyResult go \<times> effect list" where
  "real_Update_body lib N c addr keyName zone prereqs changes =
     (case BuildUpdateMsg lib zone prereqs changes of
        Panic \<Rightarrow> (Panic, [])
      | Err e \<Rightarrow> (Ok (apply_fail [] ''dns-send'' e False), [])
      | Ok m0 \<Rightarrow>
          (let m = m0\<lparr>msg_Tsig := Some (keyName, ''gss-tsig.'', 300, net_Now N)\<rparr>;
               cli = \<lparr>cli_Net = ''tcp'', cli_TsigProvider = GSSProvider, cli_DialTimeout = rc_UpdateTimeout c,
                      cli_ReadTimeout = rc_UpdateTimeout c, cli_WriteTimeout = rc_UpdateTimeout c\<rparr>
           in case run_exchange lib N cli m addr of (r, es) \<Rightarrow> (Ok r, es)))"

definition real_Update ::
  "dnslib \<Rightarrow> net \<Rightarrow> RealClient \<Rightarrow> string \<Rightarrow> int \<Rightarrow> string \<Rightarrow> Prereq list \<Rightarrow> Change list \<Rightarrow>
     ApplyResult go \<times> effect list" where
  "real_Update lib N c host port zone prereqs changes =
     (let addr = JoinHostPort host (Itoa port)
      in case net_Negotiate N addr of
           Inl e \<Rightarrow> (Ok (apply_fail [] ''gss-negotiate'' e True), [])
         | Inr keyName \<Rightarrow>
             (case real_Update_body lib N c addr keyName zone prereqs changes of
                (r, es) \<Rightarrow> (r, Negotiated keyName # es @ [DeletedContext keyName])))"

section \<open>client_tsig.go\<close>

definition tsigFudge :: int where "tsigFudge = 300"

record TSIGClient =
  tc_KeyName :: string
  tc_Secret :: string
  tc_Algorithm :: string
  tc_Insecure :: bool
  tc_AxfrTimeout :: int
  tc_UpdateTimeout :: int

definition NewTSIGClient :: "string \<Rightarrow> string \<Rightarrow> string \<Rightarrow> bool \<Rightarrow> int \<Rightarrow> int \<Rightarrow> TSIGClient" where
  "NewTSIGClient keyName secret algorithm insecure axfr upd =
     \<lparr>tc_KeyName = keyName, tc_Secret = secret, tc_Algorithm = algorithm, tc_Insecure = insecure,
      tc_AxfrTimeout = axfr, tc_UpdateTimeout = upd\<rparr>"

definition sign :: "net \<Rightarrow> TSIGClient \<Rightarrow> Msg \<Rightarrow> provider \<times> Msg" where
  "sign N c m =
     (if tc_Insecure c then (NoProvider, m)
      else (HMACProvider (tc_KeyName c) (tc_Secret c),
            m\<lparr>msg_Tsig := Some (tc_KeyName c, tc_Algorithm c, tsigFudge, net_Now N)\<rparr>))"

definition tsig_AXFR ::
  "dnslib \<Rightarrow> net \<Rightarrow> TSIGClient \<Rightarrow> string \<Rightarrow> int \<Rightarrow> string \<Rightarrow> RecordsResult \<times> effect list" where
  "tsig_AXFR lib N c host port zone =
     (case sign N c (axfr_msg lib zone) of
        (prov, m) \<Rightarrow>
          run_transfer N
            \<lparr>tr_TsigProvider = prov, tr_DialTimeout = tc_AxfrTimeout c, tr_ReadTimeout = tc_AxfrTimeout c\<rparr>
            m (JoinHostPort host (Itoa port)))"

definition tsig_Update ::
  "dnslib \<Rightarrow> net \<Rightarrow> TSIGClient \<Rightarrow> string \<Rightarrow> int \<Rightarrow> string \<Rightarrow> Prereq list \<Rightarrow> Change list \<Rightarrow>
     ApplyResult go \<times> effect list" where
  "tsig_Update lib N c host port zone prereqs changes =
     (case BuildUpdateMsg lib zone prereqs changes of
        Panic \<Rightarrow> (Panic, [])
      | Err e \<Rightarrow> (Ok (apply_fail [] ''dns-send'' e False), [])
      | Ok m0 \<Rightarrow>
          (case sign N c m0 of
             (prov, m) \<Rightarrow>
               (let cli = \<lparr>cli_Net = ''tcp'', cli_TsigProvider = prov, cli_DialTimeout = tc_UpdateTimeout c,
                           cli_ReadTimeout = tc_UpdateTimeout c, cli_WriteTimeout = tc_UpdateTimeout c\<rparr>
                in case run_exchange lib N cli m (JoinHostPort host (Itoa port)) of
                     (r, es) \<Rightarrow> (Ok r, es))))"

section \<open>What an answer can be\<close>

text \<open>
  The answers the orchestrator can be given: success is \<open>NOERROR\<close> and final; a
  retryable failure has no rcode or is \<open>SERVFAIL\<close>.
\<close>

definition sane_answer :: "ApplyResult \<Rightarrow> bool" where
  "sane_answer r \<longleftrightarrow>
     (ar_OK r \<longrightarrow> ar_Rcode r = ''NOERROR'' \<and> \<not> ar_Retryable r) \<and>
     (ar_Retryable r \<longrightarrow> ar_Rcode r \<in> {[], ''SERVFAIL''})"

definition sane_listing :: "RecordsResult \<Rightarrow> bool" where
  "sane_listing r \<longleftrightarrow> (if rr_OK r then \<not> rr_Retryable r else rr_Records r = [] \<and> rr_Retryable r)"

lemma apply_fields [simp]:
  "ar_OK apply_ok" "ar_Rcode apply_ok = ''NOERROR''" "\<not> ar_Retryable apply_ok"
  "\<not> ar_OK (apply_fail rc ph m b)" "ar_Rcode (apply_fail rc ph m b) = rc"
  "ar_Phase (apply_fail rc ph m b) = ph" "ar_Retryable (apply_fail rc ph m b) = b"
  by (simp_all add: apply_ok_def apply_fail_def)

lemma sane_simps [simp]:
  "sane_answer apply_ok" "sane_answer (apply_fail rc ph m False)"
  "sane_answer (apply_fail [] ph m b)" "sane_answer (apply_fail ''SERVFAIL'' ph m b)"
  by (simp_all add: sane_answer_def)

lemma ClassifyRcode_sane [simp]: "sane_answer (ClassifyRcode lib rcode)"
  by (simp add: ClassifyRcode_def)

lemma classifyTSIGError_sane [simp]: "classifyTSIGError e = Some r \<Longrightarrow> sane_answer r"
  by (auto simp: classifyTSIGError_def tsig_failed_def Let_def split: if_splits)

lemma classifyExchangeResult_sane: "classifyExchangeResult lib resp err = (r, w) \<Longrightarrow> sane_answer r"
  by (auto simp: classifyExchangeResult_def split: option.splits if_splits)

lemma run_exchange_sane: "run_exchange lib N cli m addr = (r, es) \<Longrightarrow> sane_answer r"
  by (auto simp: run_exchange_def dest: classifyExchangeResult_sane split: prod.splits)

lemma real_Update_body_sane:
  "fst (real_Update_body lib N c addr k zone ps cs) = Ok r \<Longrightarrow> sane_answer r"
  by (auto simp: real_Update_body_def Let_def dest: run_exchange_sane split: go.splits prod.splits)

lemma real_Update_sane: "fst (real_Update lib N c host port zone ps cs) = Ok r \<Longrightarrow> sane_answer r"
  by (auto simp: real_Update_def Let_def split: sum.splits prod.splits)
    (metis fst_conv real_Update_body_sane)

lemma tsig_Update_sane: "fst (tsig_Update lib N c host port zone ps cs) = Ok r \<Longrightarrow> sane_answer r"
  by (auto simp: tsig_Update_def Let_def dest: run_exchange_sane split: go.splits prod.splits)

lemma ParseAXFRStream_sane: "sane_listing (ParseAXFRStream ch)"
proof (cases "complete_transfer ch")
  case True
  then show ?thesis by (simp add: ParseAXFRStream_complete sane_listing_def)
next
  case False
  then show ?thesis using ParseAXFRStream_incomplete [OF False] by (auto simp: sane_listing_def)
qed

lemma run_transfer_sane: "sane_listing (fst (run_transfer N t m addr))"
  by (auto simp: run_transfer_def ParseAXFRStream_sane split: sum.splits)
    (simp add: sane_listing_def send_failed_def)

section \<open>The client interface\<close>

text \<open>
  \<open>dnsop.Client\<close>: what the orchestrator relies on.  An answer is sane, and the
  Go signature of \<open>Update\<close> has no error result.
\<close>

locale dns_client =
  fixes AXFR :: "string \<Rightarrow> int \<Rightarrow> string \<Rightarrow> RecordsResult"
    and Update :: "string \<Rightarrow> int \<Rightarrow> string \<Rightarrow> Prereq list \<Rightarrow> Change list \<Rightarrow> ApplyResult go"
  assumes axfr_sane: "sane_listing (AXFR host port zone)"
    and update_sane: "Update host port zone ps cs = Ok r \<Longrightarrow> sane_answer r"
    and update_no_error: "Update host port zone ps cs \<noteq> Err e"
begin

lemma success_stops:
  "Update host port zone ps cs = Ok r \<Longrightarrow> ar_OK r \<Longrightarrow> \<not> isFailoverEligible r"
  using update_sane [of host port zone ps cs r]
  by (simp add: sane_answer_def isFailoverEligible_def failoverRcodes_def)

lemma eligible_rcode:
  "Update host port zone ps cs = Ok r \<Longrightarrow> isFailoverEligible r \<Longrightarrow>
     ar_Rcode r \<in> {[], ''SERVFAIL'', ''REFUSED'', ''NOTAUTH''}"
  using update_sane [of host port zone ps cs r]
  by (auto simp: sane_answer_def isFailoverEligible_def failoverRcodes_def)

lemma verdict_stops:
  assumes "Update dc (opt_Port opts) zone (cs_prereqs cs) (cs_changes cs) = Ok r"
    and "w_Update W (Suc (o_tick s)) dc (opt_Port opts) zone (cs_prereqs cs) (cs_changes cs) = Some r"
    and "ar_Rcode r \<notin> {[], ''SERVFAIL'', ''REFUSED'', ''NOTAUTH''}"
    and "w_ctxErr W (o_tick s) = None"
  shows "\<exists>s'. o_wire s' = o_wire s @ [UpdateCall dc zone (cs_prereqs cs) (cs_changes cs)] \<and>
    fst (update_loop_dcs opts W zone cs n s lf (dc # dcs)) =
      (if ar_OK r then Ok () else Err (''UPDATE failed (non-retryable): '' @ update_failure dc r)) \<and>
    snd (update_loop_dcs opts W zone cs n s lf (dc # dcs)) = s'"
  using assms eligible_rcode [OF assms(1)] by (auto simp: Let_def)

end

lemma real_Update_no_error: "fst (real_Update lib N c host port zone ps cs) \<noteq> Err e"
  by (auto simp: real_Update_def real_Update_body_def Let_def split: sum.splits go.splits prod.splits)

lemma tsig_Update_no_error: "fst (tsig_Update lib N c host port zone ps cs) \<noteq> Err e"
  by (auto simp: tsig_Update_def Let_def split: go.splits prod.splits)

lemma real_AXFR_sane: "sane_listing (fst (real_AXFR lib N c host port zone))"
  by (simp add: real_AXFR_def run_transfer_sane)

lemma tsig_AXFR_sane: "sane_listing (fst (tsig_AXFR lib N c host port zone))"
  by (simp add: tsig_AXFR_def run_transfer_sane split: prod.splits)

interpretation real: dns_client
  "\<lambda>host port zone. fst (real_AXFR lib N c host port zone)"
  "\<lambda>host port zone ps cs. fst (real_Update lib N c host port zone ps cs)"
  for lib :: dnslib and N :: net and c :: RealClient
  by unfold_locales (rule real_AXFR_sane, erule real_Update_sane, rule real_Update_no_error)

interpretation tsig: dns_client
  "\<lambda>host port zone. fst (tsig_AXFR lib N c host port zone)"
  "\<lambda>host port zone ps cs. fst (tsig_Update lib N c host port zone ps cs)"
  for lib :: dnslib and N :: net and c :: TSIGClient
  by unfold_locales (rule tsig_AXFR_sane, erule tsig_Update_sane, rule tsig_Update_no_error)

section \<open>Security contexts\<close>

text \<open>A context that was negotiated is deleted, once, as the last effect.\<close>

lemma run_exchange_effects:
  "run_exchange lib N cli m addr = (r, es) \<Longrightarrow> \<exists>ws. es = Exchanged cli m addr # map Warned ws"
  by (auto simp: run_exchange_def classifyExchangeResult_def
      intro: exI [of _ "[]"] exI [of _ "[x]" for x] split: prod.splits option.splits if_splits)

lemma real_Update_body_effects:
  "\<forall>e \<in> set (snd (real_Update_body lib N c addr k zone ps cs)).
     case e of Exchanged cli m a \<Rightarrow>
         cli_TsigProvider cli = GSSProvider \<and> a = addr \<and> msg_Tsig m = Some (k, ''gss-tsig.'', 300, net_Now N)
     | Warned w \<Rightarrow> True | _ \<Rightarrow> False"
  by (auto simp: real_Update_body_def Let_def dest!: run_exchange_effects split: go.splits prod.splits)

section \<open>Properties\<close>

text \<open>
  C26. The verdict on an exchange: it is a success exactly when a reply with rcode
  NOERROR arrived, verified or not, and the warning that the write went through
  unauthenticated is logged exactly when that reply could not be verified.
\<close>

theorem exchange_verdict:
  "classifyExchangeResult lib resp err =
     (fst (classifyExchangeResult lib resp err),
      case err of Some e \<Rightarrow> if resp = Some RcodeSuccess then [Warned e] else [] | None \<Rightarrow> []) \<and>
   (ar_OK (fst (classifyExchangeResult lib resp err)) \<longleftrightarrow> resp = Some RcodeSuccess)"
proof -
  have "ar_OK (ClassifyRcode lib rcode) \<longleftrightarrow> rcode = RcodeSuccess" for rcode
    by (simp add: ClassifyRcode_def)
  moreover have "classifyTSIGError e = Some r \<Longrightarrow> \<not> ar_OK r" for e r
    by (auto simp: classifyTSIGError_def tsig_failed_def Let_def split: if_splits)
  ultimately show ?thesis
    by (auto simp: classifyExchangeResult_def split: option.splits)
qed

text \<open>
  C27. No security context leaks: an update through the GSS client has no effect at
  all when the negotiation fails, and otherwise it negotiates first, deletes that
  very context last and once, even when building the message panics, and between
  the two it sends at most one message, to the negotiated address, signed with the
  negotiated key.
\<close>

theorem gss_context_released:
  "case net_Negotiate N (JoinHostPort host (Itoa port)) of
     Inl e \<Rightarrow> real_Update lib N c host port zone ps cs = (Ok (apply_fail [] ''gss-negotiate'' e True), [])
   | Inr k \<Rightarrow>
       (\<exists>es. snd (real_Update lib N c host port zone ps cs) = Negotiated k # es @ [DeletedContext k] \<and>
          length (filter (\<lambda>e. case e of Exchanged _ _ _ \<Rightarrow> True | _ \<Rightarrow> False) es) \<le> 1 \<and>
          (\<forall>e \<in> set es. case e of
             Exchanged cli m a \<Rightarrow> cli_TsigProvider cli = GSSProvider \<and> a = JoinHostPort host (Itoa port) \<and>
               msg_Tsig m = Some (k, ''gss-tsig.'', 300, net_Now N)
           | Warned w \<Rightarrow> True | _ \<Rightarrow> False))"
proof (cases "net_Negotiate N (JoinHostPort host (Itoa port))")
  case (Inr k)
  let ?b = "real_Update_body lib N c (JoinHostPort host (Itoa port)) k zone ps cs"
  have "length (filter (\<lambda>e. case e of Exchanged _ _ _ \<Rightarrow> True | _ \<Rightarrow> False) (snd ?b)) \<le> 1"
    by (auto simp: real_Update_body_def Let_def dest!: run_exchange_effects split: go.splits prod.splits)
  then show ?thesis
    using Inr real_Update_body_effects [of lib N c "JoinHostPort host (Itoa port)" k zone ps cs]
    by (auto simp: real_Update_def Let_def split: prod.splits)
qed (simp add: real_Update_def Let_def)

definition lossy_net :: net where
  "lossy_net = \<lparr>net_NewClient = None, net_Negotiate = (\<lambda>a. Inr ''ctx''), net_In = (\<lambda>_ _ _. Inl ''refused''),
               net_Exchange = (\<lambda>_ _ _. (None, Some ''i/o timeout'')), net_Now = 1000\<rparr>"

definition gss_client :: RealClient where
  "gss_client = \<lparr>rc_Realm = ''EXAMPLE.COM'', rc_Principal = ''svc@EXAMPLE.COM'', rc_AxfrTimeout = 30, rc_UpdateTimeout = 15\<rparr>"

theorem gss_context_released_witness:
  "\<exists>es. snd (real_Update lenient_lib lossy_net gss_client ''dc1'' 53 ''example.com'' [] []) =
     Negotiated ''ctx'' # es @ [DeletedContext ''ctx'']"
  using gss_context_released [of lenient_lib lossy_net gss_client "''dc1''" 53 "''example.com''" "[]" "[]"]
  by (auto simp: lossy_net_def)

end
