(* ===== verification/GoUtf8.thy ===== *)
theory GoUtf8
  imports GoStrings
begin

text \<open>
  UTF-8 as Go's \<open>unicode/utf8\<close> reads and writes it.  A rune is the \<open>nat\<close> of its code
  point; an ill-formed byte decodes to the replacement rune with size one.
\<close>

section \<open>Decoding one rune\<close>

definition RuneError :: nat where "RuneError = 0xFFFD"

definition between :: "nat \<Rightarrow> nat \<Rightarrow> char \<Rightarrow> bool" where
  "between lo hi c \<longleftrightarrow> lo \<le> of_char c \<and> of_char c \<le> hi"

text \<open>The bytes \<open>utf8.acceptRanges\<close> allows second, after a given first byte.\<close>

definition second_ok :: "nat \<Rightarrow> char \<Rightarrow> bool" where
  "second_ok x b =
     between (if x = 0xE0 then 0xA0 else if x = 0xF0 then 0x90 else 0x80)
             (if x = 0xED then 0x9F else if x = 0xF4 then 0x8F else 0xBF) b"

definition low6 :: "char \<Rightarrow> nat" where
  "low6 c = of_char c - 0x80"

definition decode_rune :: "string \<Rightarrow> nat \<times> nat" where
  "decode_rune s =
     (case s of
        [] \<Rightarrow> (RuneError, 0)
      | a # t \<Rightarrow>
          (let x = of_char a; bad = (RuneError, 1)
           in if x < 0x80 then (x, 1)
              else if 0xC2 \<le> x \<and> x \<le> 0xDF then
                (case t of
                   b # _ \<Rightarrow> if second_ok x b then ((x - 0xC0) * 64 + low6 b, 2) else bad
                 | _ \<Rightarrow> bad)
              else if 0xE0 \<le> x \<and> x \<le> 0xEF then
                (case t of
                   b # c # _ \<Rightarrow>
                     if second_ok x b \<and> between 0x80 0xBF c
                     then ((x - 0xE0) * 4096 + low6 b * 64 + low6 c, 3) else bad
                 | _ \<Rightarrow> bad)
              else if 0xF0 \<le> x \<and> x \<le> 0xF4 then
                (case t of
                   b # c # d # _ \<Rightarrow>
                     if second_ok x b \<and> between 0x80 0xBF c \<and> between 0x80 0xBF d
                     then ((x - 0xF0) * 262144 + low6 b * 4096 + low6 c * 64 + low6 d, 4) else bad
                 | _ \<Rightarrow> bad)
              else bad))"

section \<open>Encoding one rune\<close>

definition valid_rune :: "nat \<Rightarrow> bool" where
  "valid_rune r \<longleftrightarrow> r < 0xD800 \<or> 0xE000 \<le> r \<and> r \<le> 0x10FFFF"

definition encode_valid :: "nat \<Rightarrow> string" where
  "encode_valid r =
     (if r < 0x80 then [char_of r]
      else if r < 0x800 then [char_of (0xC0 + r div 64), char_of (0x80 + r mod 64)]
      else if r < 0x10000 then
        [char_of (0xE0 + r div 4096), char_of (0x80 + r div 64 mod 64), char_of (0x80 + r mod 64)]
      else [char_of (0xF0 + r div 262144), char_of (0x80 + r div 4096 mod 64),
            char_of (0x80 + r div 64 mod 64), char_of (0x80 + r mod 64)])"

definition encode_rune :: "nat \<Rightarrow> string" where
  "encode_rune r = encode_valid (if valid_rune r then r else RuneError)"

section \<open>Rune by rune\<close>

lemma decode_rune_size: "decode_rune (a # s) = (r, n) \<Longrightarrow> 1 \<le> n \<and> n \<le> 4 \<and> n \<le> length (a # s)"
  by (auto simp: decode_rune_def Let_def split: if_splits list.splits)

text \<open>The runes of a string, each with the bytes it was read from.\<close>

function utf8_chunks :: "string \<Rightarrow> (nat \<times> string) list" where
  "utf8_chunks [] = []"
| "utf8_chunks (a # s) =
     (case decode_rune (a # s) of
        (r, n) \<Rightarrow> (r, take n (a # s)) # utf8_chunks (drop n (a # s)))"
  by pat_completeness auto
termination
  by (relation "measure length") (auto dest!: decode_rune_size [OF sym])

declare utf8_chunks.simps(2) [simp del]

text \<open>A string with every ill-formed byte replaced; the identity on well-formed ones.\<close>

definition to_valid :: "string \<Rightarrow> string" where
  "to_valid s = concat (map (\<lambda>(r, b). encode_rune r) (utf8_chunks s))"

definition utf8_valid :: "string \<Rightarrow> bool" where
  "utf8_valid s \<longleftrightarrow> (\<forall>(r, b) \<in> set (utf8_chunks s). \<not> (r = RuneError \<and> length b = 1))"

section \<open>Facts\<close>

lemma of_char_char_of: "n < 256 \<Longrightarrow> (of_char (char_of n :: char) :: nat) = n"
  by simp

lemma encode_valid_nonempty [simp]: "encode_valid r \<noteq> []"
  by (simp add: encode_valid_def)

lemma encode_rune_nonempty [simp]: "encode_rune r \<noteq> []"
  by (simp add: encode_rune_def)

text \<open>The base-64 digits of a rune of three or four bytes.\<close>

lemma div_64s:
  fixes r :: nat
  shows "r div 4096 = r div 64 div 64" "r div 262144 = r div 64 div 64 div 64"
  by (simp_all add: div_mult2_eq [symmetric])

lemma digit64: "k < 64 \<Longrightarrow> (m * 64 + k :: nat) div 64 = m" "k < 64 \<Longrightarrow> (m * 64 + k :: nat) mod 64 = k"
  by simp_all

lemma digits3: "k < 64 \<Longrightarrow> j < 64 \<Longrightarrow> ((i * 64 + j) * 64 + k :: nat) div 4096 = i \<and>
    ((i * 64 + j) * 64 + k) div 64 mod 64 = j \<and> ((i * 64 + j) * 64 + k) mod 64 = k"
  by (simp only: div_64s digit64 simp_thms)

lemma digits4: "l < 64 \<Longrightarrow> k < 64 \<Longrightarrow> j < 64 \<Longrightarrow>
    (((i * 64 + j) * 64 + k) * 64 + l :: nat) div 262144 = i \<and>
    (((i * 64 + j) * 64 + k) * 64 + l) div 4096 mod 64 = j \<and>
    (((i * 64 + j) * 64 + k) * 64 + l) div 64 mod 64 = k \<and>
    (((i * 64 + j) * 64 + k) * 64 + l) mod 64 = l"
  by (simp only: div_64s digit64 simp_thms)

lemma digits2E:
  fixes r :: nat
  obtains i j where "r = i * 64 + j" "j < 64"
  by (rule that [of "r div 64" "r mod 64"]) simp_all

lemma digits3E:
  fixes r :: nat
  obtains i j k where "r = (i * 64 + j) * 64 + k" "j < 64" "k < 64"
  by (metis digits2E)

lemma digits4E:
  fixes r :: nat
  obtains i j k l where "r = ((i * 64 + j) * 64 + k) * 64 + l" "j < 64" "k < 64" "l < 64"
  by (metis digits2E)

text \<open>Writing a rune and reading it back, whatever follows.\<close>

lemma decode_encode:
  assumes "valid_rune r"
  shows "decode_rune (encode_valid r @ t) = (r, length (encode_valid r))"
proof -
  consider "r < 0x80" | "0x80 \<le> r" "r < 0x800" | "0x800 \<le> r" "r < 0x10000" | "0x10000 \<le> r" "r \<le> 0x10FFFF"
    using assms unfolding valid_rune_def by linarith
  then show ?thesis
  proof cases
    case 1
    then show ?thesis by (simp add: encode_valid_def decode_rune_def)
  next
    case 2
    obtain i j where r: "r = i * 64 + j" "j < 64" by (rule digits2E)
    then show ?thesis
      using 2 by (simp add: encode_valid_def decode_rune_def second_ok_def between_def low6_def Let_def)
  next
    case 3
    obtain i j k where r: "r = (i * 64 + j) * 64 + k" "j < 64" "k < 64" by (rule digits3E)
    have e: "encode_valid r = [char_of (0xE0 + i), char_of (0x80 + j), char_of (0x80 + k)]"
      using 3 digits3 [of k j i] r by (simp add: encode_valid_def)
    have "i < 16" using 3 r by simp
    moreover have "i = 0 \<Longrightarrow> 32 \<le> j" using 3 r by simp
    moreover have "i = 13 \<Longrightarrow> j < 32" using assms r by (auto simp: valid_rune_def)
    ultimately show ?thesis
      using r unfolding e by (auto simp: decode_rune_def second_ok_def between_def low6_def Let_def)
  next
    case 4
    obtain i j k l where r: "r = ((i * 64 + j) * 64 + k) * 64 + l" "j < 64" "k < 64" "l < 64"
      by (rule digits4E)
    have e: "encode_valid r = [char_of (0xF0 + i), char_of (0x80 + j), char_of (0x80 + k), char_of (0x80 + l)]"
      using 4 digits4 [of l k j i] r by (simp add: encode_valid_def)
    have "i \<le> 4" using 4 r by simp
    moreover have "i = 0 \<Longrightarrow> 16 \<le> j" using 4 r by simp
    moreover have "i = 4 \<Longrightarrow> j < 16" using 4 r by simp
    ultimately show ?thesis
      using r unfolding e by (auto simp: decode_rune_def second_ok_def between_def low6_def Let_def)
  qed
qed

text \<open>Reading a well-formed rune and writing it back.\<close>

lemma between_obtain:
  assumes "between lo hi c" "0x80 \<le> lo" "hi \<le> 0xBF"
  obtains k where "c = char_of (0x80 + k :: nat)" "k < 64" "low6 c = k" "lo \<le> 0x80 + k" "0x80 + k \<le> hi"
proof
  have b: "0x80 \<le> (of_char c :: nat)" "(of_char c :: nat) \<le> 0xBF" "lo \<le> of_char c" "of_char c \<le> hi"
    using assms by (auto simp: between_def)
  show "c = char_of (0x80 + (of_char c - 0x80) :: nat)" using b by simp
  show "of_char c - 0x80 < (64 :: nat)" using b by simp
qed (use assms in \<open>auto simp: low6_def between_def\<close>)

lemma encode_decode:
  assumes "decode_rune s = (r, n)" "s \<noteq> []" "\<not> (r = RuneError \<and> n = 1)"
  shows "valid_rune r \<and> encode_valid r = take n s"
proof -
  obtain a t where s: "s = a # t" using assms(2) by (cases s) auto
  obtain x :: nat where x: "a = char_of x" "x < 256"
    using of_char_less [of a] by (metis char_of_char)
  note d = assms(1) [unfolded s decode_rune_def, simplified Let_def list.case]
  have ofa: "of_char a = x" using x by simp
  consider "x < 0x80" | "0xC2 \<le> x" "x \<le> 0xDF" | "0xE0 \<le> x" "x \<le> 0xEF" | "0xF0 \<le> x" "x \<le> 0xF4"
    using d assms(3) unfolding ofa by (auto split: if_splits)
  then show ?thesis
  proof cases
    case 1
    then show ?thesis using d x by (auto simp: encode_valid_def valid_rune_def s split: if_splits)
  next
    case 2
    then obtain b u where t: "t = b # u" and b: "second_ok x b" and r: "r = (x - 0xC0) * 64 + low6 b" "n = 2"
      using d assms(3) unfolding ofa by (auto split: list.splits if_splits)
    have "between 0x80 0xBF b" using b 2 by (simp add: second_ok_def)
    then obtain j where "b = char_of (0x80 + j)" "j < 64" "low6 b = j" by (auto elim!: between_obtain)
    then show ?thesis
      using 2 r t s x by (auto simp: encode_valid_def valid_rune_def)
  next
    case 3
    then obtain b c u where t: "t = b # c # u" and b: "second_ok x b" "between 0x80 0xBF c"
      and r: "r = (x - 0xE0) * 4096 + low6 b * 64 + low6 c" "n = 3"
      using d assms(3) unfolding ofa by (auto split: list.splits if_splits)
    obtain j where j: "b = char_of (0x80 + j)" "j < 64" "low6 b = j" "x = 0xE0 \<Longrightarrow> 32 \<le> j" "x = 0xED \<Longrightarrow> j < 32"
      by (rule between_obtain [OF b(1) [unfolded second_ok_def]]) (use 3 in \<open>auto split: if_splits\<close>)
    obtain k where k: "c = char_of (0x80 + k)" "k < 64" "low6 c = k" using b(2) by (auto elim!: between_obtain)
    obtain i where i: "x = 0xE0 + i" "i < 16" using 3 by (intro that [of "x - 0xE0"]) simp_all
    have r': "r = (i * 64 + j) * 64 + k" using r i j k by simp
    have "0x800 \<le> r" "r < 0x10000" using r' i j k by (cases "i = 0"; simp)+
    moreover have "valid_rune r"
      unfolding valid_rune_def using r' i j k by (cases "i < 13"; cases "i = 13") simp_all
    ultimately show ?thesis
      using digits3 [of k j i] r i j k t s x unfolding r' by (simp add: encode_valid_def distrib_right)
  next
    case 4
    then obtain b c e u where t: "t = b # c # e # u" and b: "second_ok x b" "between 0x80 0xBF c" "between 0x80 0xBF e"
      and r: "r = (x - 0xF0) * 262144 + low6 b * 4096 + low6 c * 64 + low6 e" "n = 4"
      using d assms(3) unfolding ofa by (auto split: list.splits if_splits)
    obtain j where j: "b = char_of (0x80 + j)" "j < 64" "low6 b = j" "x = 0xF0 \<Longrightarrow> 16 \<le> j" "x = 0xF4 \<Longrightarrow> j < 16"
      by (rule between_obtain [OF b(1) [unfolded second_ok_def]]) (use 4 in \<open>auto split: if_splits\<close>)
    obtain k where k: "c = char_of (0x80 + k)" "k < 64" "low6 c = k" using b(2) by (auto elim!: between_obtain)
    obtain l where l: "e = char_of (0x80 + l)" "l < 64" "low6 e = l" using b(3) by (auto elim!: between_obtain)
    obtain i where i: "x = 0xF0 + i" "i \<le> 4" using 4 by (intro that [of "x - 0xF0"]) simp_all
    have r': "r = ((i * 64 + j) * 64 + k) * 64 + l" using r i j k l by simp
    have "0x10000 \<le> r" using r' i j by (cases "i = 0") simp_all
    moreover have "r \<le> 0x10FFFF" using r' i j k l by (cases "i = 4") simp_all
    ultimately show ?thesis
      using digits4 [of l k j i] r r' i j k l t s x by (simp add: encode_valid_def valid_rune_def)
  qed
qed

text \<open>What one chunk is: a well-formed rune with its bytes, or one replaced byte.\<close>

definition good_chunk :: "nat \<times> string \<Rightarrow> bool" where
  "good_chunk rb \<longleftrightarrow> valid_rune (fst rb) \<and> snd rb = encode_valid (fst rb)"

lemma utf8_chunks_encode:
  assumes "valid_rune r"
  shows "utf8_chunks (encode_valid r @ t) = (r, encode_valid r) # utf8_chunks t"
proof -
  obtain a s where e: "encode_valid r = a # s" by (cases "encode_valid r") auto
  show ?thesis
    using decode_encode [OF assms, of t] unfolding e by (simp add: utf8_chunks.simps(2))
qed

lemma utf8_chunks_good: "\<forall>c \<in> set (utf8_chunks s). good_chunk c \<or> c = (RuneError, snd c) \<and> length (snd c) = 1"
proof (induction s rule: utf8_chunks.induct)
  case (2 a s)
  obtain r n where d: "decode_rune (a # s) = (r, n)" by fastforce
  have "good_chunk (r, take n (a # s)) \<or> r = RuneError \<and> n = 1"
    using encode_decode [OF d] by (auto simp: good_chunk_def)
  then show ?case
    using 2 [OF d [symmetric]] by (auto simp: utf8_chunks.simps(2) d)
qed simp

lemma utf8_chunks_concat: "concat (map snd (utf8_chunks s)) = s"
  by (induction s rule: utf8_chunks.induct) (auto simp: utf8_chunks.simps(2) split: prod.splits)

lemma encode_rune_good: "good_chunk c \<Longrightarrow> encode_rune (fst c) = snd c"
  by (simp add: good_chunk_def encode_rune_def)

lemma utf8_valid_chunks: "utf8_valid s \<longleftrightarrow> (\<forall>c \<in> set (utf8_chunks s). good_chunk c)"
proof -
  have "length (encode_valid RuneError) = 3" by (simp add: encode_valid_def RuneError_def)
  then have "good_chunk c \<Longrightarrow> \<not> (fst c = RuneError \<and> length (snd c) = 1)" for c
    by (auto simp: good_chunk_def)
  then show ?thesis
    using utf8_chunks_good [of s] by (fastforce simp: utf8_valid_def)
qed

lemma to_valid_id: "utf8_valid s \<Longrightarrow> to_valid s = s"
proof -
  assume v: "utf8_valid s"
  have "map (\<lambda>(r, b). encode_rune r) (utf8_chunks s) = map snd (utf8_chunks s)"
    by (rule map_cong) (use v in \<open>auto simp: utf8_valid_chunks good_chunk_def encode_rune_def\<close>)
  then show ?thesis unfolding to_valid_def by (simp only: utf8_chunks_concat)
qed

text \<open>Runes written one after the other are a well-formed string.\<close>

lemma utf8_chunks_runes:
  "\<forall>r \<in> set rs. valid_rune r \<Longrightarrow> utf8_chunks (concat (map encode_valid rs)) = map (\<lambda>r. (r, encode_valid r)) rs"
  by (induction rs) (simp_all add: utf8_chunks_encode)

lemma utf8_valid_runes:
  "utf8_valid s \<longleftrightarrow> (\<exists>rs. (\<forall>r \<in> set rs. valid_rune r) \<and> s = concat (map encode_valid rs))"
proof
  assume v: "utf8_valid s"
  have "concat (map encode_valid (map fst (utf8_chunks s))) = concat (map snd (utf8_chunks s))"
    using v by (auto simp: utf8_valid_chunks good_chunk_def intro!: arg_cong [where f = concat])
  then show "\<exists>rs. (\<forall>r \<in> set rs. valid_rune r) \<and> s = concat (map encode_valid rs)"
    using v by (intro exI [of _ "map fst (utf8_chunks s)"])
      (auto simp: utf8_chunks_concat utf8_valid_chunks good_chunk_def)
next
  assume "\<exists>rs. (\<forall>r \<in> set rs. valid_rune r) \<and> s = concat (map encode_valid rs)"
  then show "utf8_valid s"
    by (auto simp: utf8_valid_chunks utf8_chunks_runes good_chunk_def)
qed

lemma utf8_valid_Nil [simp]: "utf8_valid []"
  by (simp add: utf8_valid_def)

lemma utf8_valid_append: "utf8_valid s \<Longrightarrow> utf8_valid t \<Longrightarrow> utf8_valid (s @ t)"
  unfolding utf8_valid_runes
  by (elim exE conjE) (metis (no_types, lifting) UnE concat_append map_append set_append)

lemma valid_rune_fix [simp]: "valid_rune (if valid_rune r then r else RuneError)"
  by (simp add: RuneError_def valid_rune_def)

lemma utf8_valid_encode_rune: "utf8_valid (encode_rune r)"
  unfolding utf8_valid_runes encode_rune_def
  by (rule exI [of _ "[if valid_rune r then r else RuneError]"]) simp

lemma utf8_valid_ascii_char: "of_char c < (0x80 :: nat) \<Longrightarrow> utf8_valid [c]"
  using utf8_valid_encode_rune [of "of_char c"]
  by (simp add: encode_rune_def valid_rune_def encode_valid_def)

lemma utf8_valid_ascii: "list_all (\<lambda>c. of_char c < (0x80 :: nat)) s \<Longrightarrow> utf8_valid s"
proof (induction s)
  case (Cons c s)
  then show ?case using utf8_valid_append [OF utf8_valid_ascii_char [of c], of s] by simp
qed simp

text \<open>Seven-bit strings, checked by evaluation.\<close>

definition ascii :: "string \<Rightarrow> bool" where
  "ascii s = list_all (\<lambda>c. \<not> digit7 c) s"

lemma ascii_char: "\<not> digit7 c \<Longrightarrow> of_char c < (0x80 :: nat)"
  by (cases c) (simp add: of_char_def split: if_splits)

lemma ascii_utf8_valid: "ascii s \<Longrightarrow> utf8_valid s"
  using ascii_char by (auto simp: ascii_def list_all_iff intro!: utf8_valid_ascii)

lemma utf8_valid_to_valid: "utf8_valid (to_valid s)"
proof -
  have "utf8_valid (concat (map (\<lambda>(r, b). encode_rune r) cs))" for cs :: "(nat \<times> string) list"
    by (induction cs) (auto intro: utf8_valid_append utf8_valid_encode_rune)
  then show ?thesis by (simp add: to_valid_def)
qed

end
