(* ===== verification/GoJson.thy ===== *)
theory GoJson
  imports GoUtf8
begin

text \<open>
  JSON text as Go's \<open>encoding/json\<close> reads and writes it: the compact form
  \<open>Encoder.Encode\<close> emits, with its HTML escaping, and the scanner of
  \<open>Decoder.Decode\<close>, which reads one value and leaves what follows unread.  A number
  keeps its literal text; an object keeps its members in order, duplicates
  included.
\<close>

datatype json =
    JNull
  | JBool bool
  | JNum string
  | JStr string
  | JArr "json list"
  | JObj "(string \<times> json) list"

section \<open>Writing\<close>

abbreviation dquote :: char where "dquote \<equiv> CHR 0x22"
abbreviation bslash :: char where "bslash \<equiv> CHR 0x5C"

text \<open>One rune of a string (\<open>appendString\<close> with \<open>escapeHTML\<close>).\<close>

definition json_u00 :: "nat \<Rightarrow> string" where
  "json_u00 n = [bslash, CHR ''u'', CHR ''0'', CHR ''0'', hex_digit (n div 16), hex_digit (n mod 16)]"

definition json_rune :: "nat \<times> string \<Rightarrow> string" where
  "json_rune rb =
     (case rb of
        (r, b) \<Rightarrow>
          (if r < 0x80 then
             (if r = 0x22 \<or> r = 0x5C then [bslash, char_of r]
              else if r = 8 then [bslash, CHR ''b''] else if r = 12 then [bslash, CHR ''f'']
              else if r = 10 then [bslash, CHR ''n''] else if r = 13 then [bslash, CHR ''r'']
              else if r = 9 then [bslash, CHR ''t'']
              else if r < 0x20 \<or> r = 0x3C \<or> r = 0x3E \<or> r = 0x26 then json_u00 r
              else b)
           else if r = RuneError \<and> length b = 1 then bslash # ''ufffd''
           else if r = 0x2028 then bslash # ''u2028''
           else if r = 0x2029 then bslash # ''u2029''
           else b))"

definition json_string :: "string \<Rightarrow> string" where
  "json_string s = dquote # concat (map json_rune (utf8_chunks s)) @ [dquote]"

fun json_print :: "json \<Rightarrow> string" where
  "json_print JNull = ''null''"
| "json_print (JBool b) = (if b then ''true'' else ''false'')"
| "json_print (JNum n) = n"
| "json_print (JStr s) = json_string s"
| "json_print (JArr vs) = ''['' @ Join (map json_print vs) '','' @ '']''"
| "json_print (JObj ms) =
     ''{'' @ Join (map (\<lambda>(k, v). json_string k @ '':'' @ json_print v) ms) '','' @ ''}''"

text \<open>\<open>json.NewEncoder(w).Encode\<close> ends the value with a newline.\<close>

definition json_Encode :: "json \<Rightarrow> string" where
  "json_Encode v = json_print v @ [CHR 0x0A]"

section \<open>Errors of the scanner\<close>

datatype json_error = EOF | UnexpectedEOF | Syntax char string

definition json_quoteChar :: "char \<Rightarrow> string" where
  "json_quoteChar c =
     (let n = (of_char c :: nat); q = CHR 0x27
      in if c = q then [q, bslash, q, q]
         else if c = dquote then [q, dquote, q]
         else if n < 0x80 then q # quote_char c @ [q]
         else if n \<le> 0xA0 \<or> n = 0xAD then q # json_u00 n @ [q]
         else q # encode_rune n @ [q])"

fun json_error_text :: "json_error \<Rightarrow> string" where
  "json_error_text EOF = ''EOF''"
| "json_error_text UnexpectedEOF = ''unexpected EOF''"
| "json_error_text (Syntax c context) = ''invalid character '' @ json_quoteChar c @ '' '' @ context"

type_synonym 'a scan = "json_error + 'a"

section \<open>Scanning strings\<close>

definition hex_val :: "char \<Rightarrow> nat option" where
  "hex_val c =
     (let n = (of_char c :: nat)
      in if 48 \<le> n \<and> n \<le> 57 then Some (n - 48)
         else if 97 \<le> n \<and> n \<le> 102 then Some (n - 87)
         else if 65 \<le> n \<and> n \<le> 70 then Some (n - 55)
         else None)"

text \<open>The digits after \<open>\u\<close>.\<close>

fun hex_digits_at :: "nat \<Rightarrow> nat \<Rightarrow> string \<Rightarrow> (nat \<times> string) scan" where
  "hex_digits_at 0 acc s = Inr (acc, s)"
| "hex_digits_at (Suc k) acc [] = Inl UnexpectedEOF"
| "hex_digits_at (Suc k) acc (c # s) =
     (case hex_val c of
        None \<Rightarrow> Inl (Syntax c (''in '' @ [bslash] @ ''u hexadecimal character escape''))
      | Some d \<Rightarrow> hex_digits_at k (acc * 16 + d) s)"

definition is_surrogate :: "nat \<Rightarrow> bool" where
  "is_surrogate r \<longleftrightarrow> 0xD800 \<le> r \<and> r < 0xE000"

text \<open>The rune after \<open>\u\<close>: a surrogate pair is one rune, a lone surrogate is replaced.\<close>

definition low_surrogate :: "string \<Rightarrow> (nat \<times> string) option" where
  "low_surrogate s =
     (case s of
        a # b # s1 \<Rightarrow>
          (if a = bslash \<and> b = CHR ''u'' then
             (case hex_digits_at 4 0 s1 of
                Inr (r, s2) \<Rightarrow> if 0xDC00 \<le> r \<and> r < 0xE000 then Some (r, s2) else None
              | Inl _ \<Rightarrow> None)
           else None)
      | _ \<Rightarrow> None)"

definition unicode_escape :: "string \<Rightarrow> (string \<times> string) scan" where
  "unicode_escape s =
     (case hex_digits_at 4 0 s of
        Inl e \<Rightarrow> Inl e
      | Inr (r, s1) \<Rightarrow>
          (if is_surrogate r then
             (case low_surrogate s1 of
                Some (r1, s2) \<Rightarrow>
                  if r < 0xDC00 then Inr (encode_rune (0x10000 + (r - 0xD800) * 1024 + (r1 - 0xDC00)), s2)
                  else Inr (encode_rune RuneError, s1)
              | None \<Rightarrow> Inr (encode_rune RuneError, s1))
           else Inr (encode_rune r, s1)))"

definition simple_escape :: "char \<Rightarrow> char option" where
  "simple_escape c =
     (if c = dquote \<or> c = bslash \<or> c = CHR ''/'' then Some c
      else if c = CHR ''b'' then Some (CHR 0x08) else if c = CHR ''f'' then Some (CHR 0x0C)
      else if c = CHR ''n'' then Some (CHR 0x0A) else if c = CHR ''r'' then Some (CHR 0x0D)
      else if c = CHR ''t'' then Some (CHR 0x09)
      else None)"

definition escape :: "string \<Rightarrow> (string \<times> string) scan" where
  "escape s =
     (case s of
        [] \<Rightarrow> Inl UnexpectedEOF
      | c # s1 \<Rightarrow>
          (if c = CHR ''u'' then unicode_escape s1
           else case simple_escape c of
                  Some d \<Rightarrow> Inr ([d], s1)
                | None \<Rightarrow> Inl (Syntax c ''in string escape code'')))"

text \<open>The next piece of a string literal: decoded bytes and the rest, or its end.\<close>

definition string_piece :: "char \<Rightarrow> string \<Rightarrow> (string option \<times> string) scan" where
  "string_piece c s =
     (if c = dquote then Inr (None, s)
      else if c = bslash then map_sum id (map_prod Some id) (escape s)
      else if of_char c < (0x20 :: nat) then Inl (Syntax c ''in string literal'')
      else case decode_rune (c # s) of (r, n) \<Rightarrow> Inr (Some (encode_rune r), drop n (c # s)))"

lemma hex_digits_at_length: "hex_digits_at k acc s = Inr (r, s') \<Longrightarrow> length s' \<le> length s"
  by (induction k acc s rule: hex_digits_at.induct) (auto split: option.splits)

lemma low_surrogate_length: "low_surrogate s = Some (r, s') \<Longrightarrow> length s' \<le> length s"
  by (auto simp: low_surrogate_def split: list.splits sum.splits if_splits dest!: hex_digits_at_length)

lemma escape_length: "escape s = Inr (p, s') \<Longrightarrow> length s' \<le> length s"
  by (fastforce simp: escape_def unicode_escape_def split: list.splits sum.splits if_splits option.splits
      dest!: hex_digits_at_length low_surrogate_length)

lemma string_piece_length: "string_piece c s = Inr (p, s') \<Longrightarrow> length s' \<le> length s"
  by (auto simp: string_piece_def map_sum_def split: if_splits sum.splits prod.splits
      dest!: escape_length decode_rune_size)

function string_lit :: "string \<Rightarrow> string \<Rightarrow> (string \<times> string) scan" where
  "string_lit acc [] = Inl UnexpectedEOF"
| "string_lit acc (c # s) =
     (case string_piece c s of
        Inl e \<Rightarrow> Inl e
      | Inr (None, s') \<Rightarrow> Inr (acc, s')
      | Inr (Some p, s') \<Rightarrow> string_lit (acc @ p) s')"
  by pat_completeness auto
termination
  by (relation "measure (\<lambda>(acc, s). length s)") (auto dest: string_piece_length simp: less_Suc_eq_le)

declare string_lit.simps(2) [simp del]

section \<open>Scanning numbers and literals\<close>

definition digits_run :: "string \<Rightarrow> string \<Rightarrow> (string \<times> string) scan" where
  "digits_run context s =
     (case s of
        [] \<Rightarrow> Inl UnexpectedEOF
      | c # _ \<Rightarrow>
          if isDigit c then Inr (takeWhile isDigit s, dropWhile isDigit s) else Inl (Syntax c context))"

definition int_part :: "string \<Rightarrow> (string \<times> string) scan" where
  "int_part s =
     (case s of
        c # s1 \<Rightarrow> if c = CHR ''0'' then Inr ([c], s1) else digits_run ''in numeric literal'' s
      | [] \<Rightarrow> Inl UnexpectedEOF)"

definition frac_part :: "string \<Rightarrow> (string \<times> string) scan" where
  "frac_part s =
     (case s of
        c # s1 \<Rightarrow>
          if c = CHR ''.'' then
            map_sum id (map_prod (\<lambda>ds. c # ds) id) (digits_run ''after decimal point in numeric literal'' s1)
          else Inr ([], s)
      | [] \<Rightarrow> Inr ([], s))"

definition exp_sign :: "string \<Rightarrow> string \<times> string" where
  "exp_sign s = (case s of c # s1 \<Rightarrow> if c = CHR ''+'' \<or> c = CHR ''-'' then ([c], s1) else ([], s) | [] \<Rightarrow> ([], s))"

definition exp_part :: "string \<Rightarrow> (string \<times> string) scan" where
  "exp_part s =
     (case s of
        c # s1 \<Rightarrow>
          if c = CHR ''e'' \<or> c = CHR ''E'' then
            (case exp_sign s1 of
               (sg, s2) \<Rightarrow>
                 map_sum id (map_prod (\<lambda>ds. c # sg @ ds) id) (digits_run ''in exponent of numeric literal'' s2))
          else Inr ([], s)
      | [] \<Rightarrow> Inr ([], s))"

definition bind_scan :: "(string \<times> string) scan \<Rightarrow> (string \<Rightarrow> (string \<times> string) scan) \<Rightarrow> (string \<times> string) scan" where
  "bind_scan m f =
     (case m of
        Inl e \<Rightarrow> Inl e
      | Inr (t, s) \<Rightarrow> map_sum id (map_prod (\<lambda>u. t @ u) id) (f s))"

definition minus_part :: "string \<Rightarrow> (string \<times> string) scan" where
  "minus_part s = (case s of c # s1 \<Rightarrow> if c = CHR ''-'' then Inr ([c], s1) else Inr ([], s) | [] \<Rightarrow> Inr ([], s))"

definition number_lit :: "string \<Rightarrow> (string \<times> string) scan" where
  "number_lit s =
     bind_scan (minus_part s) (\<lambda>s1. bind_scan (int_part s1) (\<lambda>s2. bind_scan (frac_part s2) exp_part))"

text \<open>The rest of \<open>true\<close>, \<open>false\<close> or \<open>null\<close> after its first letter.\<close>

fun literal_rest :: "string \<Rightarrow> string \<Rightarrow> string \<Rightarrow> string scan" where
  "literal_rest word [] s = Inr s"
| "literal_rest word (w # ws) [] = Inl UnexpectedEOF"
| "literal_rest word (w # ws) (c # s) =
     (if c = w then literal_rest word ws s
      else Inl (Syntax c (''in literal '' @ word @ '' (expecting '' @ json_quoteChar w @ '')'')))"

section \<open>The scanner\<close>

text \<open>
  The states of \<open>scanner.step\<close> between tokens, with the part of the value that is
  already known; the stack holds the enclosing arrays and objects.
\<close>

datatype mode =
    BeginValue
  | BeginValueOrEmpty
  | BeginStringOrEmpty
  | BeginString "(string \<times> json) list"
  | EndKey "(string \<times> json) list" string
  | EndValue json

datatype frame = InArray "json list" | InObject "(string \<times> json) list" string

definition json_space :: "char \<Rightarrow> bool" where
  "json_space c \<longleftrightarrow> c = CHR '' '' \<or> c = CHR 0x09 \<or> c = CHR 0x0D \<or> c = CHR 0x0A"

definition maxNestingDepth :: nat where "maxNestingDepth = 10000"

type_synonym config = "mode \<times> frame list \<times> string"

definition open_container :: "char \<Rightarrow> frame list \<Rightarrow> config \<Rightarrow> config scan" where
  "open_container c stk cf =
     (if length stk + 1 \<le> maxNestingDepth then Inr cf else Inl (Syntax c ''exceeded max depth''))"

definition end_scalar :: "frame list \<Rightarrow> ('a \<Rightarrow> json) \<Rightarrow> ('a \<times> string) scan \<Rightarrow> config scan" where
  "end_scalar stk f r = map_sum id (\<lambda>(a, s). (EndValue (f a), stk, s)) r"

definition begin_value :: "frame list \<Rightarrow> char \<Rightarrow> string \<Rightarrow> config scan" where
  "begin_value stk c s =
     (if c = CHR ''{'' then open_container c stk (BeginStringOrEmpty, stk, s)
      else if c = CHR ''['' then open_container c stk (BeginValueOrEmpty, InArray [] # stk, s)
      else if c = dquote then end_scalar stk JStr (string_lit [] s)
      else if c = CHR ''-'' \<or> isDigit c then end_scalar stk JNum (number_lit (c # s))
      else if c = CHR ''t'' then
        end_scalar stk (\<lambda>_. JBool True) (map_sum id (Pair ()) (literal_rest ''true'' ''rue'' s))
      else if c = CHR ''f'' then
        end_scalar stk (\<lambda>_. JBool False) (map_sum id (Pair ()) (literal_rest ''false'' ''alse'' s))
      else if c = CHR ''n'' then
        end_scalar stk (\<lambda>_. JNull) (map_sum id (Pair ()) (literal_rest ''null'' ''ull'' s))
      else Inl (Syntax c ''looking for beginning of value''))"

definition begin_key :: "frame list \<Rightarrow> (string \<times> json) list \<Rightarrow> char \<Rightarrow> string \<Rightarrow> config scan" where
  "begin_key stk ms c s =
     (if c = dquote then map_sum id (\<lambda>(k, s'). (EndKey ms k, stk, s')) (string_lit [] s)
      else Inl (Syntax c ''looking for beginning of object key string''))"

fun end_value :: "frame list \<Rightarrow> json \<Rightarrow> char \<Rightarrow> string \<Rightarrow> config scan" where
  "end_value [] v c s = Inl (Syntax c ''after top-level value'')"
| "end_value (InArray vs # stk) v c s =
     (if c = CHR '','' then Inr (BeginValue, InArray (vs @ [v]) # stk, s)
      else if c = CHR '']'' then Inr (EndValue (JArr (vs @ [v])), stk, s)
      else Inl (Syntax c ''after array element''))"
| "end_value (InObject ms k # stk) v c s =
     (if c = CHR '','' then Inr (BeginString (ms @ [(k, v)]), stk, s)
      else if c = CHR ''}'' then Inr (EndValue (JObj (ms @ [(k, v)])), stk, s)
      else Inl (Syntax c ''after object key:value pair''))"

fun scan_step :: "mode \<Rightarrow> frame list \<Rightarrow> char \<Rightarrow> string \<Rightarrow> config scan" where
  "scan_step BeginValue stk c s = begin_value stk c s"
| "scan_step BeginValueOrEmpty stk c s =
     (if c = CHR '']'' then Inr (EndValue (JArr []), tl stk, s) else begin_value stk c s)"
| "scan_step BeginStringOrEmpty stk c s =
     (if c = CHR ''}'' then Inr (EndValue (JObj []), stk, s) else begin_key stk [] c s)"
| "scan_step (BeginString ms) stk c s = begin_key stk ms c s"
| "scan_step (EndKey ms k) stk c s =
     (if c = CHR '':'' then Inr (BeginValue, InObject ms k # stk, s)
      else Inl (Syntax c ''after object key''))"
| "scan_step (EndValue v) stk c s = end_value stk v c s"

text \<open>Every step consumes the byte it looks at, so the scan ends.\<close>

lemma string_lit_length: "string_lit acc s = Inr (p, s') \<Longrightarrow> length s' \<le> length s"
  by (induction acc s rule: string_lit.induct)
    (fastforce simp: string_lit.simps(2) split: sum.splits option.splits prod.splits dest!: string_piece_length)+

lemma digits_run_length: "digits_run cx s = Inr (p, s') \<Longrightarrow> length s' < length s"
  by (auto simp: digits_run_def less_Suc_eq_le split: list.splits if_splits intro: length_dropWhile_le)

lemma literal_rest_length: "literal_rest word ws s = Inr s' \<Longrightarrow> length s' \<le> length s"
  by (induction word ws s rule: literal_rest.induct) (auto split: if_splits)

lemma map_sum_Inr: "map_sum id f m = Inr b \<longleftrightarrow> (\<exists>a. m = Inr a \<and> f a = b)"
  by (cases m) auto

lemma bind_scan_Inr:
  "bind_scan m f = Inr (w, s') \<longleftrightarrow> (\<exists>t s u. m = Inr (t, s) \<and> f s = Inr (u, s') \<and> w = t @ u)"
  by (auto simp: bind_scan_def map_sum_Inr split: sum.splits prod.splits)

lemma int_part_length: "int_part s = Inr (p, s') \<Longrightarrow> length s' < length s"
  by (auto simp: int_part_def split: list.splits if_splits dest: digits_run_length)

lemma frac_part_length: "frac_part s = Inr (p, s') \<Longrightarrow> length s' \<le> length s"
  by (auto simp: frac_part_def map_sum_Inr split: list.splits if_splits dest!: digits_run_length)

lemma exp_part_length: "exp_part s = Inr (p, s') \<Longrightarrow> length s' \<le> length s"
  by (auto simp: exp_part_def exp_sign_def map_sum_Inr split: list.splits if_splits dest!: digits_run_length)

lemma number_lit_length: "number_lit s = Inr (p, s') \<Longrightarrow> length s' < length s"
  by (fastforce simp: number_lit_def bind_scan_Inr minus_part_def split: list.splits if_splits
      dest!: int_part_length frac_part_length exp_part_length)

lemma end_scalar_Inr:
  "end_scalar stk f r = Inr (m', stk', s') \<longleftrightarrow> (\<exists>a. r = Inr (a, s') \<and> m' = EndValue (f a) \<and> stk' = stk)"
  by (auto simp: end_scalar_def map_sum_Inr)

lemma begin_value_length: "begin_value stk c s = Inr (m', stk', s') \<Longrightarrow> length s' \<le> length s"
  by (auto simp: begin_value_def open_container_def end_scalar_Inr map_sum_Inr split: if_splits
      dest: string_lit_length literal_rest_length number_lit_length)

lemma begin_key_length: "begin_key stk ms c s = Inr (m', stk', s') \<Longrightarrow> length s' \<le> length s"
  by (auto simp: begin_key_def map_sum_Inr split: if_splits dest: string_lit_length)

lemma end_value_length: "end_value stk v c s = Inr (m', stk', s') \<Longrightarrow> length s' \<le> length s"
  by (induction stk v c s rule: end_value.induct) (auto split: if_splits)

lemma scan_step_length: "scan_step m stk c s = Inr (m', stk', s') \<Longrightarrow> length s' \<le> length s"
  by (cases m) (auto split: if_splits dest: begin_value_length begin_key_length end_value_length)

function scan :: "mode \<Rightarrow> frame list \<Rightarrow> string \<Rightarrow> json scan" where
  "scan m stk s =
     (case (m, stk) of
        (EndValue v, []) \<Rightarrow> Inr v
      | _ \<Rightarrow>
          (case s of
             [] \<Rightarrow> Inl UnexpectedEOF
           | c # s1 \<Rightarrow>
               (if json_space c then scan m stk s1
                else case scan_step m stk c s1 of
                       Inl e \<Rightarrow> Inl e
                     | Inr (m', stk', s') \<Rightarrow> scan m' stk' s')))"
  by pat_completeness auto
termination
  by (relation "measure (\<lambda>(m, stk, s). length s)") (auto dest: scan_step_length simp: less_Suc_eq_le simp del: scan_step.simps)

declare scan.simps [simp del]

text \<open>\<open>Decoder.Decode\<close> up to the value: only white space is \<open>io.EOF\<close>.\<close>

definition json_parse :: "string \<Rightarrow> json scan" where
  "json_parse s = (if list_all json_space s then Inl EOF else scan BeginValue [] s)"

section \<open>Reading back what was written\<close>

text \<open>
  What a written value reads back as: the same, with ill-formed bytes of strings
  replaced.
\<close>

fun clean :: "json \<Rightarrow> json" where
  "clean (JStr s) = JStr (to_valid s)"
| "clean (JArr vs) = JArr (map clean vs)"
| "clean (JObj ms) = JObj (map (\<lambda>(k, v). (to_valid k, clean v)) ms)"
| "clean v = v"

text \<open>Values whose numbers are 64-bit integers in decimal, and their nesting.\<close>

fun integral :: "json \<Rightarrow> bool" where
  "integral (JNum n) \<longleftrightarrow> (\<exists>k. n = Itoa k)"
| "integral (JArr vs) \<longleftrightarrow> list_all integral vs"
| "integral (JObj ms) \<longleftrightarrow> list_all (\<lambda>(k, v). integral v) ms"
| "integral v \<longleftrightarrow> True"

fun depth :: "json \<Rightarrow> nat" where
  "depth (JArr vs) = Suc (foldr (\<lambda>v n. max (depth v) n) vs 0)"
| "depth (JObj ms) = Suc (foldr (\<lambda>(k, v) n. max (depth v) n) ms 0)"
| "depth v = 0"

lemma foldr_max_le: "x \<in> set xs \<Longrightarrow> f x \<le> foldr (\<lambda>v n. max (f v) n) xs (0 :: nat)"
  by (induction xs) auto

lemma hex_val_hex_digit: "n < 16 \<Longrightarrow> hex_val (hex_digit n) = Some n"
  by (auto simp: hex_val_def hex_digit_def Let_def)

lemma string_lit_piece:
  "string_piece c s = Inr (Some p, s') \<Longrightarrow> string_lit acc (c # s) = string_lit (acc @ p) s'"
  by (simp add: string_lit.simps(2))

lemma string_lit_end: "string_lit acc (dquote # s) = Inr (acc, s)"
  by (simp add: string_lit.simps(2) string_piece_def)

lemma string_lit_escape:
  "escape s = Inr (p, s') \<Longrightarrow> string_lit acc (bslash # s) = string_lit (acc @ p) s'"
  by (rule string_lit_piece) (simp add: string_piece_def)

lemma string_lit_simple:
  "simple_escape c = Some d \<Longrightarrow> string_lit acc (bslash # c # t) = string_lit (acc @ [d]) t"
  by (rule string_lit_escape) (auto simp: escape_def simple_escape_def split: if_splits)

lemma escaped_chars:
  "char_of (0x22 :: nat) = dquote" "char_of (0x5C :: nat) = bslash" "char_of (8 :: nat) = CHR 0x08"
  "char_of (12 :: nat) = CHR 0x0C" "char_of (10 :: nat) = CHR 0x0A" "char_of (13 :: nat) = CHR 0x0D"
  "char_of (9 :: nat) = CHR 0x09" "char_of (48 :: nat) = CHR ''0''"
  by (simp_all add: char_eq_of_char)

lemma hex_digits_at_4:
  "hex_val a = Some i \<Longrightarrow> hex_val b = Some j \<Longrightarrow> hex_val c = Some k \<Longrightarrow> hex_val d = Some l \<Longrightarrow>
   hex_digits_at 4 0 (a # b # c # d # t) = Inr (((i * 16 + j) * 16 + k) * 16 + l, t)"
  by (simp add: numeral_eq_Suc)

lemma string_lit_u:
  assumes "hex_val a = Some i" "hex_val b = Some j" "hex_val c = Some k" "hex_val d = Some l"
    and "r = ((i * 16 + j) * 16 + k) * 16 + l" "\<not> is_surrogate r"
  shows "string_lit acc (bslash # CHR ''u'' # a # b # c # d # t) = string_lit (acc @ encode_rune r) t"
  by (rule string_lit_escape)
    (use assms hex_digits_at_4 [OF assms(1-4), of t] in \<open>simp add: escape_def unicode_escape_def\<close>)

lemma string_lit_u00:
  assumes "r < 256"
  shows "string_lit acc (json_u00 r @ t) = string_lit (acc @ encode_rune r) t"
proof -
  have "hex_val (hex_digit (r div 16)) = Some (r div 16)" "hex_val (hex_digit (r mod 16)) = Some (r mod 16)"
    using assms by (auto intro: hex_val_hex_digit)
  moreover have "hex_val CHR ''0'' = Some 0" by (simp add: hex_val_def)
  ultimately show ?thesis
    unfolding json_u00_def using assms
    by (simp del: One_nat_def) (rule string_lit_u, auto simp: is_surrogate_def)
qed

lemma encode_rune_ascii: "r < 0x80 \<Longrightarrow> encode_rune r = [char_of r]"
  by (simp add: encode_rune_def valid_rune_def encode_valid_def)

lemma string_lit_raw:
  assumes "valid_rune r" "0x20 \<le> r" "r \<noteq> 0x22" "r \<noteq> 0x5C"
  shows "string_lit acc (encode_valid r @ t) = string_lit (acc @ encode_rune r) t"
proof -
  obtain a s where e: "encode_valid r = a # s" by (cases "encode_valid r") auto
  have d: "decode_rune (a # s @ t) = (r, length (a # s))"
    using decode_encode [OF assms(1), of t] unfolding e by simp
  have a: "(of_char a :: nat) = r \<and> r < 0x80 \<or> 0x80 \<le> (of_char a :: nat)"
    using e assms(1) unfolding encode_valid_def
    by (auto simp: valid_rune_def split: if_splits)
  have "a \<noteq> dquote" "a \<noteq> bslash" "\<not> (of_char a :: nat) < 0x20"
    using a assms by auto
  then have "string_piece a (s @ t) = Inr (Some (encode_rune r), t)"
    using d by (simp add: string_piece_def)
  then show ?thesis unfolding e by (simp add: string_lit_piece)
qed

lemma string_lit_rune:
  assumes "good_chunk (r, b) \<or> r = RuneError \<and> length b = 1"
  shows "string_lit acc (json_rune (r, b) @ t) = string_lit (acc @ encode_rune r) t"
proof (cases "good_chunk (r, b)")
  case False
  then have "r = RuneError" "length b = 1" using assms by auto
  then show ?thesis
    by (simp add: json_rune_def RuneError_def) (rule string_lit_u, auto simp: is_surrogate_def hex_val_def)
next
  case True
  then have v: "valid_rune r" and b: "b = encode_valid r" by (auto simp: good_chunk_def)
  have n1: "\<not> (r = RuneError \<and> length b = 1)"
    unfolding b by (auto simp: encode_valid_def RuneError_def)
  let ?P = "r = 0x22 \<or> r = 0x5C \<or> r = 8 \<or> r = 12 \<or> r = 10 \<or> r = 13 \<or> r = 9"
  let ?Q = "r < 0x20 \<or> r = 0x3C \<or> r = 0x3E \<or> r = 0x26"
  let ?R = "r = 0x2028 \<or> r = 0x2029"
  consider ?P | "\<not> ?P" ?Q | ?R | "\<not> ?P" "\<not> ?Q" "\<not> ?R" by blast
  then show ?thesis
  proof cases
    case 1
    then show ?thesis
      by (elim disjE)
        (simp_all add: json_rune_def encode_rune_ascii string_lit_simple simple_escape_def escaped_chars)
  next
    case 2
    then have "json_rune (r, b) = json_u00 r" by (auto simp: json_rune_def)
    then show ?thesis using 2 by (auto intro: string_lit_u00)
  next
    case 3
    then show ?thesis
    proof
      assume r: "r = 0x2028"
      have "string_lit acc (bslash # CHR ''u'' # CHR ''2'' # CHR ''0'' # CHR ''2'' # CHR ''8'' # t) =
          string_lit (acc @ encode_rune r) t"
        by (rule string_lit_u [where i = 2 and j = 0 and k = 2 and l = 8]) (simp_all add: hex_val_def is_surrogate_def r)
      then show ?thesis using r by (simp add: json_rune_def RuneError_def)
    next
      assume r: "r = 0x2029"
      have "string_lit acc (bslash # CHR ''u'' # CHR ''2'' # CHR ''0'' # CHR ''2'' # CHR ''9'' # t) =
          string_lit (acc @ encode_rune r) t"
        by (rule string_lit_u [where i = 2 and j = 0 and k = 2 and l = 9]) (simp_all add: hex_val_def is_surrogate_def r)
      then show ?thesis using r by (simp add: json_rune_def RuneError_def)
    qed
  next
    case 4
    then have "json_rune (r, b) = encode_valid r" using n1 by (auto simp: json_rune_def b)
    then show ?thesis using 4 v string_lit_raw [of r acc t] by simp
  qed
qed

lemma string_lit_runes:
  "\<forall>(r, b) \<in> set cs. good_chunk (r, b) \<or> r = RuneError \<and> length b = 1 \<Longrightarrow>
   string_lit acc (concat (map json_rune cs) @ dquote # t) =
     Inr (acc @ concat (map (\<lambda>(r, b). encode_rune r) cs), t)"
proof (induction cs arbitrary: acc)
  case (Cons rb cs)
  obtain r b where rb: "rb = (r, b)" by (cases rb)
  then have "string_lit acc (json_rune (r, b) @ concat (map json_rune cs) @ dquote # t) =
      string_lit (acc @ encode_rune r) (concat (map json_rune cs) @ dquote # t)"
    using Cons.prems by (intro string_lit_rune) auto
  then show ?case using Cons.IH [of "acc @ encode_rune r"] Cons.prems rb by simp
qed (simp add: string_lit_end)

lemma json_string_back: "\<exists>r. json_string s = dquote # r \<and> (\<forall>t. string_lit [] (r @ t) = Inr (to_valid s, t))"
proof -
  have "\<forall>(r, b) \<in> set (utf8_chunks s). good_chunk (r, b) \<or> r = RuneError \<and> length b = 1"
    using utf8_chunks_good [of s] by fastforce
  then show ?thesis by (simp add: json_string_def to_valid_def string_lit_runes)
qed

section \<open>Numbers\<close>

text \<open>What may follow a number inside a value, or end it.\<close>

definition delimited :: "string \<Rightarrow> bool" where
  "delimited t \<longleftrightarrow> (t = [] \<or> hd t \<in> {CHR '','', CHR '']'', CHR ''}'', CHR 0x0A})"

lemma digit_char_0: "n < 10 \<Longrightarrow> digit_char n = CHR ''0'' \<longleftrightarrow> n = 0"
  by (auto simp: digit_char_def char_eq_of_char)

lemma nat_digits_hd: "hd (nat_digits n) = CHR ''0'' \<longleftrightarrow> n = 0"
proof (induction n rule: nat_digits.induct)
  case (1 n)
  show ?case
  proof (cases "n < 10")
    case True
    then show ?thesis by (subst nat_digits.simps) (simp add: digit_char_0)
  next
    case False
    have "nat_digits n = nat_digits (n div 10) @ [digit_char (n mod 10)]"
      using False by (subst nat_digits.simps) simp
    then show ?thesis using 1 [OF False] False nat_digits_nonempty [of "n div 10"] by simp
  qed
qed

lemma nat_digits_0: "nat_digits 0 = ''0''"
  by (subst nat_digits.simps) (simp add: digit_char_def escaped_chars)

lemma delimited_not_digit: "delimited t \<Longrightarrow> t = [] \<or> \<not> isDigit (hd t) \<and> hd t \<notin> {CHR ''.'', CHR ''e'', CHR ''E''}"
  by (auto simp: delimited_def isDigit_def)

lemma takeWhile_digits:
  assumes "list_all isDigit ds" "delimited t"
  shows "takeWhile isDigit (ds @ t) = ds" "dropWhile isDigit (ds @ t) = t"
  using assms delimited_not_digit [OF assms(2)]
  by (cases t; auto simp: list_all_iff takeWhile_append2 dropWhile_append2)+

lemma int_part_nat_digits:
  assumes "delimited t"
  shows "int_part (nat_digits n @ t) = Inr (nat_digits n, t)"
proof (cases "n = 0")
  case True
  then show ?thesis by (simp add: int_part_def nat_digits_0)
next
  case False
  obtain c ds where d: "nat_digits n = c # ds" using nat_digits_nonempty by (cases "nat_digits n") auto
  then have "c \<noteq> CHR ''0''" "isDigit c"
    using nat_digits_hd [of n] nat_digits_isDigit [of n] False by auto
  then show ?thesis
    using takeWhile_digits [OF nat_digits_isDigit [of n] assms] d by (simp add: int_part_def digits_run_def)
qed

lemma bind_scan_simp [simp]: "bind_scan (Inr (t, s)) f = map_sum id (map_prod (\<lambda>u. t @ u) id) (f s)"
  by (simp add: bind_scan_def)

lemma number_tail: "delimited t \<Longrightarrow> bind_scan (frac_part t) exp_part = Inr ([], t)"
  using delimited_not_digit [of t]
  by (cases t) (auto simp: bind_scan_def frac_part_def exp_part_def)

lemma minus_part_nat_digits: "minus_part (nat_digits n @ t) = Inr ([], nat_digits n @ t)"
  using nat_digits_Cons [of n] by (auto simp: minus_part_def isDigit_def)

lemma number_lit_Itoa:
  assumes "delimited t"
  shows "number_lit (Itoa k @ t) = Inr (Itoa k, t)"
proof -
  have i: "bind_scan (int_part (nat_digits n @ t)) (\<lambda>s2. bind_scan (frac_part s2) exp_part) = Inr (nat_digits n, t)" for n
    using number_tail [OF assms] int_part_nat_digits [OF assms, of n] by simp
  show ?thesis
  proof (cases "k < 0")
    case True
    then show ?thesis using i by (simp add: Itoa_def number_lit_def minus_part_def)
  next
    case False
    then show ?thesis using i by (simp add: Itoa_def number_lit_def minus_part_nat_digits)
  qed
qed

section \<open>Round trip\<close>

lemma scan_step_eq:
  assumes "\<not> json_space c" "scan_step m stk c s = Inr (m', stk', s')" "\<nexists>v. m = EndValue v \<and> stk = []"
  shows "scan m stk (c # s) = scan m' stk' s'"
  using assms by (subst scan.simps) (auto split: mode.splits list.splits)

text \<open>What every step keeps holds of the value read.\<close>

lemma scan_invariant:
  assumes "\<And>m stk c s m' stk' s'. I m stk \<Longrightarrow> scan_step m stk c s = Inr (m', stk', s') \<Longrightarrow> I m' stk'"
    and "scan m stk s = Inr v" "I m stk"
  shows "I (EndValue v) []"
  using assms(2,3)
proof (induction s arbitrary: m stk rule: length_induct)
  case (1 s)
  show ?case
  proof (cases "\<exists>w. m = EndValue w \<and> stk = []")
    case True
    then show ?thesis using "1.prems" by (auto simp: scan.simps)
  next
    case False
    then obtain c t where s: "s = c # t"
      using "1.prems"(1) by (cases s) (auto simp: scan.simps split: mode.splits list.splits)
    show ?thesis
    proof (cases "json_space c")
      case True
      then have "scan m stk t = Inr v"
        using "1.prems"(1) False unfolding s
        by (subst (asm) scan.simps) (auto split: mode.splits list.splits)
      then show ?thesis using "1.IH" "1.prems"(2) s by auto
    next
      case sp: False
      then obtain m' stk' s' where st: "scan_step m stk c t = Inr (m', stk', s')"
        using "1.prems"(1) False unfolding s
        by (subst (asm) scan.simps) (auto split: mode.splits list.splits sum.splits simp del: scan_step.simps)
      have "scan m' stk' s' = Inr v"
        using "1.prems"(1) scan_step_eq [OF sp st] False s by simp
      moreover have "length s' < length s" using scan_step_length [OF st] s by simp
      moreover have "I m' stk'" using assms(1) [OF "1.prems"(2) st] .
      ultimately show ?thesis using "1.IH" by blast
    qed
  qed
qed

text \<open>A printed value starts with a byte that is neither space nor a closing bracket.\<close>

lemma json_print_hd:
  assumes "integral v"
  shows "\<exists>c r. json_print v = c # r \<and> \<not> json_space c \<and> c \<noteq> CHR '']''"
proof (cases v)
  case (JNum n)
  then obtain k where "n = Itoa k" using assms by auto
  then show ?thesis
    using nat_digits_Cons [of "nat k"] JNum by (auto simp: Itoa_def isDigit_def json_space_def)
next
  case (JStr s)
  then show ?thesis by (simp add: json_string_def json_space_def)
qed (simp_all add: json_space_def)

lemma scan_BeginValueOrEmpty:
  assumes "integral v"
  shows "scan BeginValueOrEmpty stk (json_print v @ t) = scan BeginValue stk (json_print v @ t)"
  using json_print_hd [OF assms] by (auto simp: scan.simps [of BeginValueOrEmpty] scan.simps [of BeginValue])

lemma scan_key:
  "scan (BeginString ms) stk (json_string k @ t) = scan (EndKey ms (to_valid k)) stk t"
  "scan BeginStringOrEmpty stk (json_string k @ t) = scan (EndKey [] (to_valid k)) stk t"
  using json_string_back [of k] by (auto simp: scan_step_eq json_space_def begin_key_def)

text \<open>Elements and members that print with the expected effect.\<close>

definition reads_back :: "json \<Rightarrow> bool" where
  "reads_back v \<longleftrightarrow>
     (\<forall>stk t. depth v + length stk \<le> maxNestingDepth \<longrightarrow> delimited t \<longrightarrow>
        scan BeginValue stk (json_print v @ t) = scan (EndValue (clean v)) stk t)"

lemma reads_back_elements:
  assumes "\<forall>w \<in> set (v # vs). reads_back w \<and> depth w + Suc (length stk) \<le> maxNestingDepth"
  shows "scan BeginValue (InArray us # stk) (Join (map json_print (v # vs)) '','' @ CHR '']'' # t) =
    scan (EndValue (JArr (us @ map clean (v # vs)))) stk t"
  using assms
proof (induction vs arbitrary: v us)
  case Nil
  then show ?case
    by (simp add: reads_back_def delimited_def scan_step_eq json_space_def)
next
  case (Cons w vs)
  have "scan BeginValue (InArray us # stk) (json_print v @ CHR '','' # Join (map json_print (w # vs)) '','' @ CHR '']'' # t) =
      scan BeginValue (InArray (us @ [clean v]) # stk) (Join (map json_print (w # vs)) '','' @ CHR '']'' # t)"
    using Cons.prems by (simp add: reads_back_def delimited_def scan_step_eq json_space_def)
  then show ?case using Cons.IH [of w "us @ [clean v]"] Cons.prems by simp
qed

definition print_member :: "string \<times> json \<Rightarrow> string" where
  "print_member kv = json_string (fst kv) @ '':'' @ json_print (snd kv)"

definition clean_member :: "string \<times> json \<Rightarrow> string \<times> json" where
  "clean_member kv = (to_valid (fst kv), clean (snd kv))"

lemma scan_member:
  assumes "reads_back (snd kv)" "depth (snd kv) + Suc (length stk) \<le> maxNestingDepth" "delimited t"
  shows "scan (BeginString ms) stk (print_member kv @ t) =
    scan (EndValue (clean (snd kv))) (InObject ms (to_valid (fst kv)) # stk) t"
  using assms by (simp add: print_member_def scan_key scan_step_eq json_space_def reads_back_def)

lemma reads_back_members:
  assumes "\<forall>kw \<in> set (kv # kvs). reads_back (snd kw) \<and> depth (snd kw) + Suc (length stk) \<le> maxNestingDepth"
  shows "scan (BeginString ms) stk (Join (map print_member (kv # kvs)) '','' @ CHR ''}'' # t) =
    scan (EndValue (JObj (ms @ map clean_member (kv # kvs)))) stk t"
  using assms
proof (induction kvs arbitrary: kv ms)
  case Nil
  then show ?case by (simp add: scan_member clean_member_def delimited_def scan_step_eq json_space_def)
next
  case (Cons kw kvs)
  let ?t = "Join (map print_member (kw # kvs)) '','' @ CHR ''}'' # t"
  have "scan (BeginString ms) stk (print_member kv @ CHR '','' # ?t) =
      scan (BeginString (ms @ [clean_member kv])) stk ?t"
    using Cons.prems by (subst scan_member)
      (simp_all add: clean_member_def delimited_def scan_step_eq json_space_def del: Join.simps)
  then show ?case using Cons.IH [of kw "ms @ [clean_member kv]"] Cons.prems by simp
qed

lemma scan_BeginStringOrEmpty:
  "scan BeginStringOrEmpty stk (Join (map print_member (kv # kvs)) '','' @ t) =
   scan (BeginString []) stk (Join (map print_member (kv # kvs)) '','' @ t)"
  by (cases kvs) (simp_all add: print_member_def scan_key)

lemma json_print_JObj: "json_print (JObj ms) = CHR ''{'' # Join (map print_member ms) '','' @ ''}''"
  by (simp add: print_member_def case_prod_beta' cong: map_cong)

lemma clean_JObj: "clean (JObj ms) = JObj (map clean_member ms)"
  by (auto simp: clean_member_def)

lemma depth_JArr: "w \<in> set vs \<Longrightarrow> depth w < depth (JArr vs)"
  using foldr_max_le [of w vs depth] by simp

lemma depth_JObj: "kw \<in> set ms \<Longrightarrow> depth (snd kw) < depth (JObj ms)"
  using foldr_max_le [of kw ms "\<lambda>kw. depth (snd kw)"] by (simp add: case_prod_beta')

lemma scan_open:
  assumes "Suc (length stk) \<le> maxNestingDepth"
  shows "scan BeginValue stk (CHR ''['' # s) = scan BeginValueOrEmpty (InArray [] # stk) s"
    and "scan BeginValue stk (CHR ''{'' # s) = scan BeginStringOrEmpty stk s"
  using assms by (simp_all add: scan_step_eq json_space_def begin_value_def open_container_def)

lemma json_reads_back: "integral v \<Longrightarrow> reads_back v"
proof (induction v)
  case (JNum n)
  then obtain k where n: "n = Itoa k" by auto
  obtain c r where c: "Itoa k = c # r" "c = CHR ''-'' \<or> isDigit c"
    using nat_digits_Cons [of "nat k"] by (cases "k < 0") (auto simp: Itoa_def)
  then have "\<not> json_space c" "c \<notin> {CHR ''{'', CHR ''['', dquote}" by (auto simp: isDigit_def json_space_def)
  then have "scan BeginValue stk (Itoa k @ t) = scan (EndValue (JNum (Itoa k))) stk t" if "delimited t" for stk t
    using number_lit_Itoa [OF that, of k] c by (simp add: scan_step_eq begin_value_def end_scalar_def)
  then show ?case by (simp add: reads_back_def n)
next
  case (JStr s)
  obtain r where r: "json_string s = dquote # r" "\<And>t. string_lit [] (r @ t) = Inr (to_valid s, t)"
    using json_string_back by blast
  then show ?case
    by (simp add: reads_back_def scan_step_eq json_space_def begin_value_def end_scalar_def)
next
  case (JArr vs)
  show ?case unfolding reads_back_def
  proof (intro allI impI)
    fix stk :: "frame list" and t assume d: "depth (JArr vs) + length stk \<le> maxNestingDepth" and "delimited t"
    show "scan BeginValue stk (json_print (JArr vs) @ t) = scan (EndValue (clean (JArr vs))) stk t"
    proof (cases vs)
      case Nil
      then show ?thesis using d by (simp add: scan_open scan_step_eq json_space_def)
    next
      case (Cons v ws)
      have "integral v" using JArr.prems Cons by simp
      then have "scan BeginValueOrEmpty (InArray [] # stk) (Join (map json_print (v # ws)) '','' @ CHR '']'' # t) =
          scan BeginValue (InArray [] # stk) (Join (map json_print (v # ws)) '','' @ CHR '']'' # t)"
        using scan_BeginValueOrEmpty by (cases ws) simp_all
      moreover have "reads_back w \<and> depth w + Suc (length stk) \<le> maxNestingDepth" if "w \<in> set (v # ws)" for w
        using JArr.IH [of w] JArr.prems depth_JArr [of w vs] that Cons d by (auto simp: list_all_iff)
      ultimately show ?thesis
        using reads_back_elements [of v ws stk "[]" t] d by (simp add: scan_open Cons)
    qed
  qed
next
  case (JObj ms)
  show ?case unfolding reads_back_def
  proof (intro allI impI)
    fix stk :: "frame list" and t assume d: "depth (JObj ms) + length stk \<le> maxNestingDepth" and "delimited t"
    have open_ok: "Suc (length stk) \<le> maxNestingDepth" using d by simp
    show "scan BeginValue stk (json_print (JObj ms) @ t) = scan (EndValue (clean (JObj ms))) stk t"
    proof (cases ms)
      case Nil
      then show ?thesis using open_ok by (simp add: scan_open scan_step_eq json_space_def)
    next
      case (Cons kv kvs)
      have "reads_back (snd kw) \<and> depth (snd kw) + Suc (length stk) \<le> maxNestingDepth" if "kw \<in> set (kv # kvs)" for kw
        using JObj.IH [of kw "snd kw"] JObj.prems depth_JObj [of kw ms] that Cons d
        by (cases kw) (auto simp: list_all_iff)
      then show ?thesis
        using reads_back_members [of kv kvs stk "[]" t] scan_BeginStringOrEmpty [of stk kv kvs] open_ok
        unfolding json_print_JObj clean_JObj Cons by (simp add: scan_open)
    qed
  qed
qed (simp_all add: reads_back_def scan_step_eq json_space_def begin_value_def end_scalar_def isDigit_def)

theorem json_roundtrip:
  assumes "integral v" "depth v \<le> maxNestingDepth"
  shows "json_parse (json_Encode v) = Inr (clean v)"
proof -
  have "scan BeginValue [] (json_print v @ [CHR 0x0A]) = scan (EndValue (clean v)) [] [CHR 0x0A]"
    using json_reads_back [OF assms(1)] assms(2) by (simp add: reads_back_def delimited_def)
  also have "\<dots> = Inr (clean v)" by (subst scan.simps) simp
  finally show ?thesis
    using json_print_hd [OF assms(1)] by (auto simp: json_parse_def json_Encode_def)
qed

end
