(* ===== verification/WireTypes.thy ===== *)
theory WireTypes
  imports DnsTypes GoJson "HOL-Library.List_Lexorder" "HOL-Library.Char_ord"
begin

text \<open>
  The structs of \<open>internal/api/types.go\<close> and, from their tags, what
  \<open>encoding/json\<close> makes of them in both directions.

  Decoding follows \<open>decodeState\<close>: it works on the variable it decodes into, so a
  key that occurs twice merges into the value already there; field names match
  exactly or else up to case folding; unknown keys are skipped; \<open>null\<close> empties
  slices, maps and pointers and leaves the rest alone.  The first type error is the
  result, because the handlers use no value that comes with an error.
\<close>

section \<open>Structs\<close>

definition MediaTypeFormatAndVersion :: string where
  "MediaTypeFormatAndVersion = ''application/external.dns.webhook+json;version=1''"

record ProviderSpecificProperty =
  psp_Name :: string
  psp_Value :: string

record WireEndpoint =
  we_DNSName :: string
  we_Targets :: "string list"
  we_RecordType :: string
  we_RecordTTL :: int
  we_SetIdentifier :: string
  we_Labels :: "labels option"
  we_ProviderSpecific :: "ProviderSpecificProperty list"

record WireChanges =
  wc_Create :: "WireEndpoint option list"
  wc_UpdateOld :: "WireEndpoint option list"
  wc_UpdateNew :: "WireEndpoint option list"
  wc_Delete :: "WireEndpoint option list"

record DomainFilter =
  df_Include :: "string list"

record HealthResponse =
  hr_OK :: bool
  hr_Kerberos :: string
  hr_Detail :: string

section \<open>Encoding\<close>

text \<open>A member tagged \<open>omitempty\<close>.\<close>

definition omitempty :: "string \<Rightarrow> bool \<Rightarrow> json \<Rightarrow> (string \<times> json) list" where
  "omitempty name absent v = (if absent then [] else [(name, v)])"

definition ProviderSpecificProperty_json :: "ProviderSpecificProperty \<Rightarrow> json" where
  "ProviderSpecificProperty_json p =
     JObj (omitempty ''name'' (psp_Name p = []) (JStr (psp_Name p)) @
           omitempty ''value'' (psp_Value p = []) (JStr (psp_Value p)))"

text \<open>A map is written with its keys sorted.\<close>

definition map_json :: "labels \<Rightarrow> json" where
  "map_json m = JObj (map (\<lambda>k. (k, JStr (the (m k)))) (sorted_list_of_set (dom m)))"

definition no_labels :: "labels option \<Rightarrow> bool" where
  "no_labels l = (case l of None \<Rightarrow> True | Some m \<Rightarrow> dom m = {})"

definition Endpoint_json :: "WireEndpoint \<Rightarrow> json" where
  "Endpoint_json e =
     JObj (omitempty ''dnsName'' (we_DNSName e = []) (JStr (we_DNSName e)) @
           omitempty ''targets'' (we_Targets e = []) (JArr (map JStr (we_Targets e))) @
           omitempty ''recordType'' (we_RecordType e = []) (JStr (we_RecordType e)) @
           omitempty ''recordTTL'' (we_RecordTTL e = 0) (JNum (Itoa (we_RecordTTL e))) @
           omitempty ''setIdentifier'' (we_SetIdentifier e = []) (JStr (we_SetIdentifier e)) @
           omitempty ''labels'' (no_labels (we_Labels e)) (map_json (the (we_Labels e))) @
           omitempty ''providerSpecific'' (we_ProviderSpecific e = [])
             (JArr (map ProviderSpecificProperty_json (we_ProviderSpecific e))))"

definition Endpoint_ptr_json :: "WireEndpoint option \<Rightarrow> json" where
  "Endpoint_ptr_json p = (case p of None \<Rightarrow> JNull | Some e \<Rightarrow> Endpoint_json e)"

definition Endpoints_json :: "WireEndpoint option list option \<Rightarrow> json" where
  "Endpoints_json eps = (case eps of None \<Rightarrow> JNull | Some es \<Rightarrow> JArr (map Endpoint_ptr_json es))"

definition Changes_json :: "WireChanges \<Rightarrow> json" where
  "Changes_json c =
     JObj (omitempty ''create'' (wc_Create c = []) (JArr (map Endpoint_ptr_json (wc_Create c))) @
           omitempty ''updateOld'' (wc_UpdateOld c = []) (JArr (map Endpoint_ptr_json (wc_UpdateOld c))) @
           omitempty ''updateNew'' (wc_UpdateNew c = []) (JArr (map Endpoint_ptr_json (wc_UpdateNew c))) @
           omitempty ''delete'' (wc_Delete c = []) (JArr (map Endpoint_ptr_json (wc_Delete c))))"

definition DomainFilter_json :: "DomainFilter \<Rightarrow> json" where
  "DomainFilter_json f = JObj (omitempty ''include'' (df_Include f = []) (JArr (map JStr (df_Include f))))"

definition HealthResponse_json :: "HealthResponse \<Rightarrow> json" where
  "HealthResponse_json h =
     JObj ([(''ok'', JBool (hr_OK h)), (''kerberos'', JStr (hr_Kerberos h))] @
           omitempty ''detail'' (hr_Detail h = []) (JStr (hr_Detail h)))"

section \<open>Type errors\<close>

text \<open>The innermost struct being decoded and the path of fields to it.\<close>

type_synonym ctx = "(string \<times> string list) option"

definition type_error :: "ctx \<Rightarrow> string \<Rightarrow> string \<Rightarrow> string" where
  "type_error cx val typ =
     ''json: cannot unmarshal '' @ val @
     (case cx of
        None \<Rightarrow> '' into Go value of type ''
      | Some (st, fs) \<Rightarrow> '' into Go struct field '' @ st @ ''.'' @ Join fs ''.'' @ '' of type '') @ typ"

definition in_field :: "ctx \<Rightarrow> string \<Rightarrow> string \<Rightarrow> ctx" where
  "in_field cx st f = Some (st, (case cx of None \<Rightarrow> [] | Some (_, fs) \<Rightarrow> fs) @ [f])"

fun json_kind :: "json \<Rightarrow> string" where
  "json_kind JNull = ''null''"
| "json_kind (JBool _) = ''bool''"
| "json_kind (JNum _) = ''number''"
| "json_kind (JStr _) = ''string''"
| "json_kind (JArr _) = ''array''"
| "json_kind (JObj _) = ''object''"

type_synonym 'a decoded = "string + 'a"

section \<open>Decoding scalars, slices and maps\<close>

definition dec_string :: "ctx \<Rightarrow> json \<Rightarrow> string \<Rightarrow> string decoded" where
  "dec_string cx v old =
     (case v of JNull \<Rightarrow> Inr old | JStr s \<Rightarrow> Inr s | _ \<Rightarrow> Inl (type_error cx (json_kind v) ''string''))"

definition dec_int64 :: "ctx \<Rightarrow> json \<Rightarrow> int \<Rightarrow> int decoded" where
  "dec_int64 cx v old =
     (case v of
        JNull \<Rightarrow> Inr old
      | JNum n \<Rightarrow> (case ParseInt n of Some k \<Rightarrow> Inr k | None \<Rightarrow> Inl (type_error cx (''number '' @ n) ''int64''))
      | _ \<Rightarrow> Inl (type_error cx (json_kind v) ''int64''))"

text \<open>
  A slice with what lies beyond its length in the same array: decoding reuses those
  elements when the slice grows again, and a \<open>null\<close> element then keeps them.
\<close>

type_synonym 'a slice = "'a list \<times> 'a list"

fun dec_elems :: "(json \<Rightarrow> 'a \<Rightarrow> 'a decoded) \<Rightarrow> 'a \<Rightarrow> 'a list \<Rightarrow> json list \<Rightarrow> 'a list decoded" where
  "dec_elems dec zero pool [] = Inr []"
| "dec_elems dec zero pool (v # vs) =
     (case dec v (case pool of [] \<Rightarrow> zero | a # _ \<Rightarrow> a) of
        Inl e \<Rightarrow> Inl e
      | Inr a \<Rightarrow> map_sum id (\<lambda>as. a # as) (dec_elems dec zero (tl pool) vs))"

definition dec_slice ::
  "string \<Rightarrow> ctx \<Rightarrow> (json \<Rightarrow> 'a \<Rightarrow> 'a decoded) \<Rightarrow> 'a \<Rightarrow> json \<Rightarrow> 'a slice \<Rightarrow> 'a slice decoded" where
  "dec_slice typ cx dec zero v sl =
     (case v of
        JNull \<Rightarrow> Inr ([], [])
      | JArr vs \<Rightarrow>
          (if vs = [] then Inr ([], [])
           else let pool = fst sl @ snd sl
                in map_sum id (\<lambda>as. (as, drop (length vs) pool)) (dec_elems dec zero pool vs))
      | _ \<Rightarrow> Inl (type_error cx (json_kind v) typ))"

fun dec_map_members :: "ctx \<Rightarrow> (string \<times> json) list \<Rightarrow> labels \<Rightarrow> labels decoded" where
  "dec_map_members cx [] m = Inr m"
| "dec_map_members cx ((k, v) # ms) m =
     (case dec_string cx v [] of Inl e \<Rightarrow> Inl e | Inr s \<Rightarrow> dec_map_members cx ms (m(k \<mapsto> s)))"

definition dec_map :: "ctx \<Rightarrow> json \<Rightarrow> labels option \<Rightarrow> labels option decoded" where
  "dec_map cx v old =
     (case v of
        JNull \<Rightarrow> Inr None
      | JObj ms \<Rightarrow> map_sum id Some (dec_map_members cx ms (case old of None \<Rightarrow> Map.empty | Some m \<Rightarrow> m))
      | _ \<Rightarrow> Inl (type_error cx (json_kind v) ''map[string]string''))"

section \<open>Decoding structs\<close>

text \<open>
  \<open>foldName\<close>: every rune to the least of its case orbit.  On a name of ASCII letters
  the only foreign members of an orbit are the Kelvin sign and the long s.
\<close>

function fold_name :: "string \<Rightarrow> string" where
  "fold_name [] = []"
| "fold_name (c # s) =
     (if c = CHR 0xE2 \<and> take 2 s = [CHR 0x84, CHR 0xAA] then CHR ''K'' # fold_name (drop 2 s)
      else if c = CHR 0xC5 \<and> take 1 s = [CHR 0xBF] then CHR ''S'' # fold_name (drop 1 s)
      else upper_char c # fold_name s)"
  by pat_completeness auto
termination by (relation "measure length") auto

definition find_field :: "string list \<Rightarrow> string \<Rightarrow> string option" where
  "find_field names key =
     (if key \<in> set names then Some key else List.find (\<lambda>n. fold_name n = fold_name key) names)"

fun dec_members ::
  "(string \<Rightarrow> json \<Rightarrow> 'r \<Rightarrow> 'r decoded) \<Rightarrow> string list \<Rightarrow> (string \<times> json) list \<Rightarrow> 'r \<Rightarrow> 'r decoded" where
  "dec_members setter names [] r = Inr r"
| "dec_members setter names ((k, v) # ms) r =
     (case find_field names k of
        None \<Rightarrow> dec_members setter names ms r
      | Some f \<Rightarrow> (case setter f v r of Inl e \<Rightarrow> Inl e | Inr r' \<Rightarrow> dec_members setter names ms r'))"

definition dec_struct ::
  "string \<Rightarrow> ctx \<Rightarrow> (string \<Rightarrow> json \<Rightarrow> 'r \<Rightarrow> 'r decoded) \<Rightarrow> string list \<Rightarrow> json \<Rightarrow> 'r \<Rightarrow> 'r decoded" where
  "dec_struct typ cx setter names v r =
     (case v of
        JNull \<Rightarrow> Inr r
      | JObj ms \<Rightarrow> dec_members setter names ms r
      | _ \<Rightarrow> Inl (type_error cx (json_kind v) typ))"

definition dec_ProviderSpecificProperty ::
  "ctx \<Rightarrow> json \<Rightarrow> ProviderSpecificProperty \<Rightarrow> ProviderSpecificProperty decoded" where
  "dec_ProviderSpecificProperty cx =
     dec_struct ''api.ProviderSpecificProperty'' cx
       (\<lambda>f v p. let fx = in_field cx ''ProviderSpecificProperty'' f
                in if f = ''name'' then map_sum id (\<lambda>x. p\<lparr>psp_Name := x\<rparr>) (dec_string fx v (psp_Name p))
                   else map_sum id (\<lambda>x. p\<lparr>psp_Value := x\<rparr>) (dec_string fx v (psp_Value p)))
       [''name'', ''value'']"

text \<open>An \<open>Endpoint\<close> in memory while it is decoded into.\<close>

record mem_Endpoint =
  me_DNSName :: string
  me_Targets :: "string slice"
  me_RecordType :: string
  me_RecordTTL :: int
  me_SetIdentifier :: string
  me_Labels :: "labels option"
  me_ProviderSpecific :: "ProviderSpecificProperty slice"

definition psp_zero :: ProviderSpecificProperty where
  "psp_zero = \<lparr>psp_Name = [], psp_Value = []\<rparr>"

definition me_zero :: mem_Endpoint where
  "me_zero =
     \<lparr>me_DNSName = [], me_Targets = ([], []), me_RecordType = [], me_RecordTTL = 0, me_SetIdentifier = [],
      me_Labels = None, me_ProviderSpecific = ([], [])\<rparr>"

definition wire_of :: "mem_Endpoint \<Rightarrow> WireEndpoint" where
  "wire_of e =
     \<lparr>we_DNSName = me_DNSName e, we_Targets = fst (me_Targets e), we_RecordType = me_RecordType e,
      we_RecordTTL = me_RecordTTL e, we_SetIdentifier = me_SetIdentifier e, we_Labels = me_Labels e,
      we_ProviderSpecific = fst (me_ProviderSpecific e)\<rparr>"

definition Endpoint_fields :: "string list" where
  "Endpoint_fields =
     [''dnsName'', ''targets'', ''recordType'', ''recordTTL'', ''setIdentifier'', ''labels'', ''providerSpecific'']"

definition Endpoint_setter :: "ctx \<Rightarrow> string \<Rightarrow> json \<Rightarrow> mem_Endpoint \<Rightarrow> mem_Endpoint decoded" where
  "Endpoint_setter cx f v e =
     (let fx = in_field cx ''Endpoint'' f
      in if f = ''dnsName'' then map_sum id (\<lambda>x. e\<lparr>me_DNSName := x\<rparr>) (dec_string fx v (me_DNSName e))
         else if f = ''targets'' then
           map_sum id (\<lambda>x. e\<lparr>me_Targets := x\<rparr>) (dec_slice ''[]string'' fx (dec_string fx) [] v (me_Targets e))
         else if f = ''recordType'' then
           map_sum id (\<lambda>x. e\<lparr>me_RecordType := x\<rparr>) (dec_string fx v (me_RecordType e))
         else if f = ''recordTTL'' then
           map_sum id (\<lambda>x. e\<lparr>me_RecordTTL := x\<rparr>) (dec_int64 fx v (me_RecordTTL e))
         else if f = ''setIdentifier'' then
           map_sum id (\<lambda>x. e\<lparr>me_SetIdentifier := x\<rparr>) (dec_string fx v (me_SetIdentifier e))
         else if f = ''labels'' then
           map_sum id (\<lambda>x. e\<lparr>me_Labels := x\<rparr>) (dec_map fx v (me_Labels e))
         else
           map_sum id (\<lambda>x. e\<lparr>me_ProviderSpecific := x\<rparr>)
             (dec_slice ''[]api.ProviderSpecificProperty'' fx (dec_ProviderSpecificProperty fx) psp_zero v
                (me_ProviderSpecific e)))"

definition dec_Endpoint :: "ctx \<Rightarrow> json \<Rightarrow> mem_Endpoint \<Rightarrow> mem_Endpoint decoded" where
  "dec_Endpoint cx = dec_struct ''api.Endpoint'' cx (Endpoint_setter cx) Endpoint_fields"

definition dec_Endpoint_ptr :: "ctx \<Rightarrow> json \<Rightarrow> mem_Endpoint option \<Rightarrow> mem_Endpoint option decoded" where
  "dec_Endpoint_ptr cx v old =
     (if v = JNull then Inr None
      else map_sum id Some (dec_Endpoint cx v (case old of None \<Rightarrow> me_zero | Some e \<Rightarrow> e)))"

type_synonym mem_Endpoints = "mem_Endpoint option slice"

definition dec_Endpoints :: "ctx \<Rightarrow> json \<Rightarrow> mem_Endpoints \<Rightarrow> mem_Endpoints decoded" where
  "dec_Endpoints cx = dec_slice ''[]*api.Endpoint'' cx (dec_Endpoint_ptr cx) None"

record mem_Changes =
  mc_Create :: mem_Endpoints
  mc_UpdateOld :: mem_Endpoints
  mc_UpdateNew :: mem_Endpoints
  mc_Delete :: mem_Endpoints

definition Changes_fields :: "string list" where
  "Changes_fields = [''create'', ''updateOld'', ''updateNew'', ''delete'']"

definition Changes_setter :: "string \<Rightarrow> json \<Rightarrow> mem_Changes \<Rightarrow> mem_Changes decoded" where
  "Changes_setter f v c =
     (let fx = in_field None ''Changes'' f
      in if f = ''create'' then map_sum id (\<lambda>x. c\<lparr>mc_Create := x\<rparr>) (dec_Endpoints fx v (mc_Create c))
         else if f = ''updateOld'' then map_sum id (\<lambda>x. c\<lparr>mc_UpdateOld := x\<rparr>) (dec_Endpoints fx v (mc_UpdateOld c))
         else if f = ''updateNew'' then map_sum id (\<lambda>x. c\<lparr>mc_UpdateNew := x\<rparr>) (dec_Endpoints fx v (mc_UpdateNew c))
         else map_sum id (\<lambda>x. c\<lparr>mc_Delete := x\<rparr>) (dec_Endpoints fx v (mc_Delete c)))"

definition mc_zero :: mem_Changes where
  "mc_zero = \<lparr>mc_Create = ([], []), mc_UpdateOld = ([], []), mc_UpdateNew = ([], []), mc_Delete = ([], [])\<rparr>"

section \<open>Decoding a body\<close>

definition wire_ptrs :: "mem_Endpoints \<Rightarrow> WireEndpoint option list" where
  "wire_ptrs es = map (map_option wire_of) (fst es)"

definition json_Decode :: "(json \<Rightarrow> 'a decoded) \<Rightarrow> string \<Rightarrow> 'a decoded" where
  "json_Decode dec raw = (case json_parse raw of Inl e \<Rightarrow> Inl (json_error_text e) | Inr v \<Rightarrow> dec v)"

text \<open>\<open>var wire Changes; json.NewDecoder(r.Body).Decode(&wire)\<close>.\<close>

definition Decode_Changes :: "string \<Rightarrow> WireChanges decoded" where
  "Decode_Changes =
     json_Decode (\<lambda>v. map_sum id
       (\<lambda>c. \<lparr>wc_Create = wire_ptrs (mc_Create c), wc_UpdateOld = wire_ptrs (mc_UpdateOld c),
             wc_UpdateNew = wire_ptrs (mc_UpdateNew c), wc_Delete = wire_ptrs (mc_Delete c)\<rparr>)
       (dec_struct ''api.Changes'' None Changes_setter Changes_fields v mc_zero))"

text \<open>\<open>var in []*Endpoint; json.NewDecoder(r.Body).Decode(&in)\<close>; \<open>None\<close> is the nil slice.\<close>

definition Decode_Endpoints :: "string \<Rightarrow> WireEndpoint option list option decoded" where
  "Decode_Endpoints =
     json_Decode (\<lambda>v. if v = JNull then Inr None
       else map_sum id (\<lambda>es. Some (wire_ptrs es)) (dec_Endpoints None v ([], [])))"

section \<open>Well-formed values\<close>

text \<open>
  Go's strings may hold ill-formed UTF-8, which JSON cannot carry; a value without
  any survives the encoding.  Integers are 64 bits wide and maps are finite.
\<close>

definition psp_ok :: "ProviderSpecificProperty \<Rightarrow> bool" where
  "psp_ok p \<longleftrightarrow> utf8_valid (psp_Name p) \<and> utf8_valid (psp_Value p)"

definition labels_ok :: "labels option \<Rightarrow> bool" where
  "labels_ok l =
     (case l of
        None \<Rightarrow> True
      | Some m \<Rightarrow> finite (dom m) \<and> (\<forall>k \<in> dom m. utf8_valid k \<and> utf8_valid (the (m k))))"

definition wire_ok :: "WireEndpoint \<Rightarrow> bool" where
  "wire_ok e \<longleftrightarrow>
     utf8_valid (we_DNSName e) \<and> list_all utf8_valid (we_Targets e) \<and> utf8_valid (we_RecordType e) \<and>
     in_int64 (we_RecordTTL e) \<and> utf8_valid (we_SetIdentifier e) \<and> labels_ok (we_Labels e) \<and>
     list_all psp_ok (we_ProviderSpecific e)"

text \<open>An empty map is omitted, so it comes back as the nil map.\<close>

definition norm_labels :: "WireEndpoint \<Rightarrow> WireEndpoint" where
  "norm_labels e = e\<lparr>we_Labels := if no_labels (we_Labels e) then None else we_Labels e\<rparr>"

fun text_ok :: "json \<Rightarrow> bool" where
  "text_ok (JStr s) \<longleftrightarrow> utf8_valid s"
| "text_ok (JArr vs) \<longleftrightarrow> list_all text_ok vs"
| "text_ok (JObj ms) \<longleftrightarrow> list_all (\<lambda>(k, v). utf8_valid k \<and> text_ok v) ms"
| "text_ok v \<longleftrightarrow> True"

lemma clean_id: "text_ok v \<Longrightarrow> clean v = v"
proof (induction v)
  case (JArr vs)
  then show ?case by (simp add: list_all_iff map_idI)
next
  case (JObj ms)
  have "(\<lambda>(k, v). (to_valid k, clean v)) kv = kv" if "kv \<in> set ms" for kv
    using JObj.IH [OF that, of "snd kv"] JObj.prems that
    by (cases kv) (auto simp: list_all_iff to_valid_id)
  then show ?case by (simp add: map_idI)
qed (simp_all add: to_valid_id)

section \<open>Decoding what was encoded\<close>

lemma dec_members_append:
  "dec_members setter names (ms @ ns) r =
     (case dec_members setter names ms r of Inl e \<Rightarrow> Inl e | Inr r' \<Rightarrow> dec_members setter names ns r')"
  by (induction setter names ms r rule: dec_members.induct) (auto split: option.splits sum.splits)

lemma dec_omitempty:
  assumes "n \<in> set names" "\<not> absent \<Longrightarrow> setter n v r = Inr r'" "absent \<Longrightarrow> r' = r"
  shows "dec_members setter names (omitempty n absent v @ ms) r = dec_members setter names ms r'"
  using assms by (simp add: omitempty_def find_field_def)

lemma dec_elems_map:
  "(\<And>x. x \<in> set xs \<Longrightarrow> dec (enc x) zero = Inr (f x)) \<Longrightarrow> dec_elems dec zero [] (map enc xs) = Inr (map f xs)"
  by (induction xs) auto

lemma dec_slice_map:
  "(\<And>x. x \<in> set xs \<Longrightarrow> dec (enc x) zero = Inr (f x)) \<Longrightarrow>
   dec_slice typ cx dec zero (JArr (map enc xs)) ([], []) = Inr (map f xs, [])"
  by (simp add: dec_slice_def dec_elems_map)

lemma dec_slice_strings [simp]:
  "dec_slice typ cx (dec_string cx') [] (JArr (map JStr ss)) ([], []) = Inr (ss, [])"
  by (subst dec_slice_map [where f = "\<lambda>x. x"]) (simp_all add: dec_string_def)

lemma dec_map_members_map:
  "dec_map_members cx (map (\<lambda>k. (k, JStr (the (m k)))) ks) m0 = Inr (\<lambda>k. if k \<in> set ks then Some (the (m k)) else m0 k)"
  by (induction ks arbitrary: m0) (auto simp: dec_string_def fun_eq_iff)

lemma dec_map_json:
  assumes "finite (dom m)"
  shows "dec_map cx (map_json m) None = Inr (Some m)"
proof -
  have "(\<lambda>k. if k \<in> set (sorted_list_of_set (dom m)) then Some (the (m k)) else Map.empty k) = m"
  proof
    fix k show "(if k \<in> set (sorted_list_of_set (dom m)) then Some (the (m k)) else Map.empty k) = m k"
      using assms by (cases "m k") auto
  qed
  then show ?thesis unfolding dec_map_def map_json_def by (simp add: dec_map_members_map)
qed

lemma dec_psp_json: "dec_ProviderSpecificProperty cx (ProviderSpecificProperty_json p) psp_zero = Inr p"
proof -
  note st = dec_omitempty [where r' = "\<lparr>psp_Name = psp_Name p, psp_Value = []\<rparr>"]
    dec_omitempty [where r' = p and ms = "[]", simplified]
  show ?thesis
    unfolding dec_ProviderSpecificProperty_def ProviderSpecificProperty_json_def dec_struct_def json.case
    by (subst st(1); (subst st(2))?)
      (simp_all add: psp_zero_def dec_string_def Let_def)
qed

definition mem_of :: "WireEndpoint \<Rightarrow> mem_Endpoint" where
  "mem_of e =
     \<lparr>me_DNSName = we_DNSName e, me_Targets = (we_Targets e, []), me_RecordType = we_RecordType e,
      me_RecordTTL = we_RecordTTL e, me_SetIdentifier = we_SetIdentifier e, me_Labels = we_Labels e,
      me_ProviderSpecific = (we_ProviderSpecific e, [])\<rparr>"

lemma wire_of_mem_of [simp]: "wire_of (mem_of e) = e"
  by (simp add: wire_of_def mem_of_def)

text \<open>One rule per member of an encoded endpoint.\<close>

lemma dec_dnsName:
  "me_DNSName r = [] \<Longrightarrow> dec_members (Endpoint_setter cx) Endpoint_fields (omitempty ''dnsName'' (s = []) (JStr s) @ ms) r =
     dec_members (Endpoint_setter cx) Endpoint_fields ms (r\<lparr>me_DNSName := s\<rparr>)"
  by (rule dec_omitempty) (simp_all add: Endpoint_fields_def Endpoint_setter_def Let_def dec_string_def)

lemma dec_targets:
  "me_Targets r = ([], []) \<Longrightarrow>
   dec_members (Endpoint_setter cx) Endpoint_fields (omitempty ''targets'' (ss = []) (JArr (map JStr ss)) @ ms) r =
     dec_members (Endpoint_setter cx) Endpoint_fields ms (r\<lparr>me_Targets := (ss, [])\<rparr>)"
  by (rule dec_omitempty) (simp_all add: Endpoint_fields_def Endpoint_setter_def Let_def)

lemma dec_recordType:
  "me_RecordType r = [] \<Longrightarrow>
   dec_members (Endpoint_setter cx) Endpoint_fields (omitempty ''recordType'' (s = []) (JStr s) @ ms) r =
     dec_members (Endpoint_setter cx) Endpoint_fields ms (r\<lparr>me_RecordType := s\<rparr>)"
  by (rule dec_omitempty) (simp_all add: Endpoint_fields_def Endpoint_setter_def Let_def dec_string_def)

lemma dec_recordTTL:
  "me_RecordTTL r = 0 \<Longrightarrow> in_int64 n \<Longrightarrow>
   dec_members (Endpoint_setter cx) Endpoint_fields (omitempty ''recordTTL'' (n = 0) (JNum (Itoa n)) @ ms) r =
     dec_members (Endpoint_setter cx) Endpoint_fields ms (r\<lparr>me_RecordTTL := n\<rparr>)"
  by (rule dec_omitempty) (simp_all add: Endpoint_fields_def Endpoint_setter_def Let_def dec_int64_def ParseInt_Itoa)

lemma dec_setIdentifier:
  "me_SetIdentifier r = [] \<Longrightarrow>
   dec_members (Endpoint_setter cx) Endpoint_fields (omitempty ''setIdentifier'' (s = []) (JStr s) @ ms) r =
     dec_members (Endpoint_setter cx) Endpoint_fields ms (r\<lparr>me_SetIdentifier := s\<rparr>)"
  by (rule dec_omitempty) (simp_all add: Endpoint_fields_def Endpoint_setter_def Let_def dec_string_def)

lemma dec_labels:
  "me_Labels r = None \<Longrightarrow> labels_ok l \<Longrightarrow>
   dec_members (Endpoint_setter cx) Endpoint_fields (omitempty ''labels'' (no_labels l) (map_json (the l)) @ ms) r =
     dec_members (Endpoint_setter cx) Endpoint_fields ms (r\<lparr>me_Labels := if no_labels l then None else l\<rparr>)"
  by (rule dec_omitempty)
    (auto simp: Endpoint_fields_def Endpoint_setter_def Let_def dec_map_json labels_ok_def no_labels_def
      split: option.splits)

lemma dec_providerSpecific:
  "me_ProviderSpecific r = ([], []) \<Longrightarrow>
   dec_members (Endpoint_setter cx) Endpoint_fields
       (omitempty ''providerSpecific'' (ps = []) (JArr (map ProviderSpecificProperty_json ps)) @ ms) r =
     dec_members (Endpoint_setter cx) Endpoint_fields ms (r\<lparr>me_ProviderSpecific := (ps, [])\<rparr>)"
  by (rule dec_omitempty)
    (simp_all add: Endpoint_fields_def Endpoint_setter_def Let_def dec_psp_json
      dec_slice_map [where f = "\<lambda>p. p" and enc = ProviderSpecificProperty_json])

lemma dec_Endpoint_json:
  assumes "wire_ok e"
  shows "dec_Endpoint cx (Endpoint_json e) me_zero = Inr (mem_of (norm_labels e))"
  using assms dec_providerSpecific [where ms = "[]"]
  by (simp add: dec_Endpoint_def dec_struct_def Endpoint_json_def wire_ok_def me_zero_def dec_dnsName dec_targets
      dec_recordType dec_recordTTL dec_setIdentifier dec_labels mem_of_def norm_labels_def)

lemma dec_Endpoint_ptr_json:
  assumes "\<forall>e. p = Some e \<longrightarrow> wire_ok e"
  shows "dec_Endpoint_ptr cx (Endpoint_ptr_json p) None = Inr (map_option (\<lambda>e. mem_of (norm_labels e)) p)"
proof (cases p)
  case (Some e)
  have "Endpoint_json e \<noteq> JNull" by (simp add: Endpoint_json_def)
  then show ?thesis using assms Some by (simp add: dec_Endpoint_ptr_def Endpoint_ptr_json_def dec_Endpoint_json)
qed (simp add: dec_Endpoint_ptr_def Endpoint_ptr_json_def)

definition wires_ok :: "WireEndpoint option list \<Rightarrow> bool" where
  "wires_ok es \<longleftrightarrow> (\<forall>e. Some e \<in> set es \<longrightarrow> wire_ok e)"

lemma dec_Endpoints_json:
  assumes "wires_ok es"
  shows "dec_Endpoints cx (JArr (map Endpoint_ptr_json es)) ([], []) =
    Inr (map (map_option (\<lambda>e. mem_of (norm_labels e))) es, [])"
  unfolding dec_Endpoints_def
  by (rule dec_slice_map, rule dec_Endpoint_ptr_json) (use assms in \<open>auto simp: wires_ok_def\<close>)

section \<open>Shape of encoded values\<close>

lemma omitempty_integral: "integral v \<Longrightarrow> list_all (\<lambda>(k, v). integral v) (omitempty n b v)"
  by (simp add: omitempty_def)

lemma psp_json_shape: "integral (ProviderSpecificProperty_json p)" "depth (ProviderSpecificProperty_json p) = 1"
  by (simp_all add: ProviderSpecificProperty_json_def omitempty_def)

lemma depth_JArr_le: "\<forall>v \<in> set vs. depth v \<le> n \<Longrightarrow> depth (JArr vs) \<le> Suc n"
  by (induction vs) auto

lemma depth_JObj_le: "\<forall>kv \<in> set ms. depth (snd kv) \<le> n \<Longrightarrow> depth (JObj ms) \<le> Suc n"
  by (induction ms) auto

lemma Endpoint_json_shape:
  "integral (Endpoint_json e)" "depth (Endpoint_json e) \<le> 3"
proof -
  show "integral (Endpoint_json e)"
    by (auto simp: Endpoint_json_def omitempty_def map_json_def list_all_iff psp_json_shape)
  have "depth (JArr (map JStr ss)) \<le> Suc 0" for ss by (rule depth_JArr_le) simp
  moreover have "depth (map_json m) \<le> Suc 0" for m unfolding map_json_def by (rule depth_JObj_le) auto
  moreover have "depth (JArr (map ProviderSpecificProperty_json ps)) \<le> Suc 1" for ps
    by (rule depth_JArr_le) (simp add: psp_json_shape)
  ultimately have "depth (Endpoint_json e) \<le> Suc 2"
    unfolding Endpoint_json_def by (intro depth_JObj_le) (auto simp: omitempty_def numeral_2_eq_2 le_SucI)
  then show "depth (Endpoint_json e) \<le> 3" by simp
qed

lemma Endpoint_ptr_json_shape: "integral (Endpoint_ptr_json p)" "depth (Endpoint_ptr_json p) \<le> 3"
  by (cases p; simp add: Endpoint_ptr_json_def Endpoint_json_shape)+

lemma Endpoint_json_text_ok: "wire_ok e \<Longrightarrow> text_ok (Endpoint_json e)"
  by (cases "we_Labels e")
    (auto simp: Endpoint_json_def wire_ok_def omitempty_def map_json_def labels_ok_def no_labels_def list_all_iff
      psp_ok_def ProviderSpecificProperty_json_def utf8_valid_ascii)

section \<open>Decoded values are well formed\<close>

lemma escape_valid: "escape s = Inr (p, s') \<Longrightarrow> utf8_valid p"
  by (auto simp: escape_def unicode_escape_def simple_escape_def utf8_valid_encode_rune utf8_valid_ascii_char
      split: list.splits sum.splits if_splits option.splits)

lemma string_piece_valid: "string_piece c s = Inr (Some p, s') \<Longrightarrow> utf8_valid p"
  by (auto simp: string_piece_def map_sum_Inr utf8_valid_encode_rune
      split: if_splits prod.splits dest: escape_valid)

lemma string_lit_valid: "string_lit acc s = Inr (p, s') \<Longrightarrow> utf8_valid acc \<Longrightarrow> utf8_valid p"
proof (induction s arbitrary: acc rule: length_induct)
  case (1 s)
  obtain c t where s: "s = c # t" using "1.prems"(1) by (cases s) auto
  obtain q t' where q: "string_piece c t = Inr (q, t')"
    using "1.prems"(1) s by (auto simp: string_lit.simps(2) split: sum.splits prod.splits)
  show ?case
  proof (cases q)
    case None
    then show ?thesis using 1 s q by (simp add: string_lit.simps(2))
  next
    case (Some u)
    then have "string_lit (acc @ u) t' = Inr (p, s')" "utf8_valid (acc @ u)" "length t' < length s"
      using "1.prems" s q string_piece_length [OF q] string_piece_valid
      by (auto simp: string_lit.simps(2) intro: utf8_valid_append)
    then show ?thesis using "1.IH" by blast
  qed
qed

definition members_ok :: "(string \<times> json) list \<Rightarrow> bool" where
  "members_ok ms \<longleftrightarrow> list_all (\<lambda>(k, v). utf8_valid k \<and> text_ok v) ms"

fun mode_ok :: "mode \<Rightarrow> bool" where
  "mode_ok (BeginString ms) \<longleftrightarrow> members_ok ms"
| "mode_ok (EndKey ms k) \<longleftrightarrow> members_ok ms \<and> utf8_valid k"
| "mode_ok (EndValue v) \<longleftrightarrow> text_ok v"
| "mode_ok m \<longleftrightarrow> True"

fun frame_ok :: "frame \<Rightarrow> bool" where
  "frame_ok (InArray vs) \<longleftrightarrow> list_all text_ok vs"
| "frame_ok (InObject ms k) \<longleftrightarrow> members_ok ms \<and> utf8_valid k"

lemma begin_value_ok:
  "begin_value stk c s = Inr (m, stk', s') \<Longrightarrow> list_all frame_ok stk \<Longrightarrow> mode_ok m \<and> list_all frame_ok stk'"
  by (auto simp: begin_value_def open_container_def end_scalar_Inr map_sum_Inr split: if_splits
      dest: string_lit_valid)

lemma begin_key_ok:
  "begin_key stk ms c s = Inr (m, stk', s') \<Longrightarrow> list_all frame_ok stk \<Longrightarrow> members_ok ms \<Longrightarrow>
   mode_ok m \<and> list_all frame_ok stk'"
  by (auto simp: begin_key_def map_sum_Inr split: if_splits dest: string_lit_valid)

lemma end_value_ok:
  "end_value stk v c s = Inr (m, stk', s') \<Longrightarrow> list_all frame_ok stk \<Longrightarrow> text_ok v \<Longrightarrow>
   mode_ok m \<and> list_all frame_ok stk'"
  by (induction stk v c s rule: end_value.induct) (auto simp: members_ok_def split: if_splits)

lemma scan_step_ok:
  assumes "scan_step m stk c s = Inr (m', stk', s')" "list_all frame_ok stk" "mode_ok m"
  shows "mode_ok m' \<and> list_all frame_ok stk'"
proof -
  have "list_all frame_ok (tl stk)" using assms(2) by (cases stk) auto
  then show ?thesis
    using assms
    by (cases m) (auto simp: members_ok_def split: if_splits
        dest: begin_value_ok begin_key_ok end_value_ok)
qed

lemma scan_text_ok: "scan m stk s = Inr v \<Longrightarrow> list_all frame_ok stk \<Longrightarrow> mode_ok m \<Longrightarrow> text_ok v"
  using scan_invariant [where I = "\<lambda>m stk. mode_ok m \<and> list_all frame_ok stk", of m stk s v] scan_step_ok
  by fastforce

lemma json_parse_text_ok: "json_parse s = Inr v \<Longrightarrow> text_ok v"
  by (auto simp: json_parse_def split: if_splits dest: scan_text_ok)

text \<open>Decoding a well-formed JSON value into well-formed memory keeps it well formed.\<close>

definition mem_ok :: "mem_Endpoint \<Rightarrow> bool" where
  "mem_ok e \<longleftrightarrow>
     utf8_valid (me_DNSName e) \<and> list_all utf8_valid (fst (me_Targets e) @ snd (me_Targets e)) \<and>
     utf8_valid (me_RecordType e) \<and> in_int64 (me_RecordTTL e) \<and> utf8_valid (me_SetIdentifier e) \<and>
     labels_ok (me_Labels e) \<and>
     list_all psp_ok (fst (me_ProviderSpecific e) @ snd (me_ProviderSpecific e))"

definition mem_ptr_ok :: "mem_Endpoint option \<Rightarrow> bool" where
  "mem_ptr_ok p = (case p of None \<Rightarrow> True | Some e \<Rightarrow> mem_ok e)"

text \<open>A decoder that keeps a property of what it decodes into.\<close>

definition keeps :: "('a \<Rightarrow> bool) \<Rightarrow> (json \<Rightarrow> 'a \<Rightarrow> 'a decoded) \<Rightarrow> bool" where
  "keeps P dec \<longleftrightarrow> (\<forall>v a b. text_ok v \<longrightarrow> P a \<longrightarrow> dec v a = Inr b \<longrightarrow> P b)"

lemma keepsD: "keeps P dec \<Longrightarrow> dec v a = Inr b \<Longrightarrow> text_ok v \<Longrightarrow> P a \<Longrightarrow> P b"
  by (auto simp: keeps_def)

lemma keeps_dec_string: "keeps utf8_valid (dec_string cx)"
  by (auto simp: keeps_def dec_string_def split: json.splits)

lemma keeps_dec_int64: "keeps in_int64 (dec_int64 cx)"
  by (auto simp: keeps_def dec_int64_def split: json.splits option.splits dest: ParseInt_range)

lemma keeps_dec_elems:
  "keeps P dec \<Longrightarrow> P zero \<Longrightarrow> list_all P pool \<Longrightarrow> list_all text_ok vs \<Longrightarrow>
   dec_elems dec zero pool vs = Inr as \<Longrightarrow> list_all P as"
proof (induction dec zero pool vs arbitrary: as rule: dec_elems.induct)
  case (2 dec zero pool v vs)
  let ?a = "case pool of [] \<Rightarrow> zero | a # _ \<Rightarrow> a"
  obtain b bs where b: "dec v ?a = Inr b" "dec_elems dec zero (tl pool) vs = Inr bs" "as = b # bs"
    using "2.prems"(5) by (auto simp: map_sum_Inr split: sum.splits)
  have "P ?a" using "2.prems" by (auto split: list.splits)
  then have "P b" using keepsD [OF "2.prems"(1) b(1)] "2.prems"(4) by simp
  moreover have "list_all P (tl pool)" using "2.prems"(3) by (cases pool) auto
  then have "list_all P bs" using "2.IH" [OF b(1)] "2.prems" b(2) by simp
  ultimately show ?case using b(3) by simp
qed simp

lemma keeps_dec_slice:
  assumes "keeps P dec" "P zero"
  shows "keeps (\<lambda>sl. list_all P (fst sl @ snd sl)) (dec_slice typ cx dec zero)"
  unfolding keeps_def
proof (intro allI impI)
  fix v sl sl'
  assume v: "text_ok v" and sl: "list_all P (fst sl @ snd sl)" and r: "dec_slice typ cx dec zero v sl = Inr sl'"
  show "list_all P (fst sl' @ snd sl')"
  proof (cases "\<exists>vs. v = JArr vs \<and> vs \<noteq> []")
    case True
    then obtain vs as where vs: "v = JArr vs" "dec_elems dec zero (fst sl @ snd sl) vs = Inr as"
      "sl' = (as, drop (length vs) (fst sl @ snd sl))"
      using r by (auto simp: dec_slice_def map_sum_Inr Let_def)
    moreover have "list_all P as"
      using keeps_dec_elems [OF assms sl _ vs(2)] v vs(1) by simp
    ultimately show ?thesis using sl by (auto simp: list_all_iff dest: in_set_dropD)
  next
    case False
    then show ?thesis using r by (auto simp: dec_slice_def split: json.splits)
  qed
qed

lemma labels_ok_upd:
  "labels_ok (Some m) \<Longrightarrow> utf8_valid k \<Longrightarrow> utf8_valid s \<Longrightarrow> labels_ok (Some (m(k \<mapsto> s)))"
  by (simp add: labels_ok_def)

lemma keeps_dec_map_members:
  "dec_map_members cx ms m = Inr m' \<Longrightarrow> members_ok ms \<Longrightarrow> labels_ok (Some m) \<Longrightarrow> labels_ok (Some m')"
proof (induction cx ms m rule: dec_map_members.induct)
  case (2 cx k v ms m)
  then obtain s where s: "dec_string cx v [] = Inr s" "dec_map_members cx ms (m(k \<mapsto> s)) = Inr m'"
    by (auto split: sum.splits)
  have "utf8_valid s" using keepsD [OF keeps_dec_string s(1)] "2.prems"(2) by (simp add: members_ok_def)
  then show ?case
    using "2.IH" [OF s] "2.prems" labels_ok_upd by (simp add: members_ok_def del: fun_upd_apply)
qed simp

lemma keeps_dec_map: "keeps labels_ok (dec_map cx)"
proof -
  have "labels_ok (Some Map.empty)" by (simp add: labels_ok_def)
  then show ?thesis
    by (auto simp: keeps_def dec_map_def map_sum_Inr members_ok_def [symmetric] split: json.splits option.splits
        dest: keeps_dec_map_members) (simp add: labels_ok_def)
qed

text \<open>Decoding into one field.\<close>

lemma keeps_field:
  assumes "keeps P dec" "\<And>a. Q a \<Longrightarrow> P (sel a)" "\<And>a x. Q a \<Longrightarrow> P x \<Longrightarrow> Q (upd a x)"
  shows "keeps Q (\<lambda>v a. map_sum id (upd a) (dec v (sel a)))"
proof -
  have "Q b" if "text_ok v" "Q a" "map_sum id (upd a) (dec v (sel a)) = Inr b" for v a b
  proof -
    obtain x where x: "dec v (sel a) = Inr x" "b = upd a x" using \<open>_ = Inr b\<close> by (auto simp: map_sum_Inr)
    have "P x" by (rule keepsD [OF assms(1) x(1) \<open>text_ok v\<close> assms(2) [OF \<open>Q a\<close>]])
    then show "Q b" using assms(3) [OF \<open>Q a\<close>] x(2) by simp
  qed
  then show ?thesis by (simp add: keeps_def)
qed

lemma keeps_if: "keeps P d1 \<Longrightarrow> keeps P d2 \<Longrightarrow> keeps P (\<lambda>v a. if c then d1 v a else d2 v a)"
  by (cases c) simp_all

lemma keeps_dec_members:
  assumes "\<And>f. keeps P (setter f)"
  shows "members_ok ms \<Longrightarrow> P r \<Longrightarrow> dec_members setter names ms r = Inr r' \<Longrightarrow> P r'"
  using assms
proof (induction setter names ms r rule: dec_members.induct)
  case (2 setter names k v ms r)
  then show ?case
    by (auto simp: members_ok_def split: option.splits sum.splits dest: keepsD [OF "2.prems"(4)])
qed simp

lemma keeps_dec_struct:
  assumes "\<And>f. keeps P (setter f)"
  shows "keeps P (dec_struct typ cx setter names)"
  using keeps_dec_members [OF assms]
  by (auto simp: keeps_def dec_struct_def members_ok_def split: json.splits)

lemma keeps_psp: "keeps psp_ok (dec_ProviderSpecificProperty cx)"
  unfolding dec_ProviderSpecificProperty_def
  by (rule keeps_dec_struct)
    (auto simp: keeps_def Let_def map_sum_Inr psp_ok_def dest: keepsD [OF keeps_dec_string])

lemma keeps_Endpoint_setter: "keeps mem_ok (Endpoint_setter cx f)"
proof -
  have z: "utf8_valid []" "psp_ok psp_zero" by (simp_all add: psp_ok_def psp_zero_def)
  note slices = keeps_dec_slice [OF keeps_dec_string z(1)] keeps_dec_slice [OF keeps_psp z(2)]
  show ?thesis
    unfolding Endpoint_setter_def [abs_def] Let_def
    by (intro keeps_if)
      (rule keeps_field, rule keeps_dec_string slices keeps_dec_int64 keeps_dec_map; simp add: mem_ok_def)+
qed

lemma mem_ok_zero: "mem_ok me_zero"
  by (simp add: mem_ok_def me_zero_def int64_defs labels_ok_def)

lemma mem_ptr_ok_simps [simp]: "mem_ptr_ok None" "mem_ptr_ok (Some e) = mem_ok e"
  by (simp_all add: mem_ptr_ok_def)

lemma keeps_Endpoint_ptr: "keeps mem_ptr_ok (dec_Endpoint_ptr cx)"
proof -
  have k: "keeps mem_ok (dec_Endpoint cx)"
    unfolding dec_Endpoint_def by (rule keeps_dec_struct, rule keeps_Endpoint_setter)
  have "mem_ptr_ok q" if t: "text_ok v" and p: "mem_ptr_ok p" and r: "dec_Endpoint_ptr cx v p = Inr q" for v p q
  proof (cases "v = JNull")
    case True
    then show ?thesis using r by (auto simp: dec_Endpoint_ptr_def)
  next
    case False
    then obtain e where e: "dec_Endpoint cx v (case p of None \<Rightarrow> me_zero | Some e \<Rightarrow> e) = Inr e" "q = Some e"
      using r by (auto simp: dec_Endpoint_ptr_def map_sum_Inr)
    have "mem_ok (case p of None \<Rightarrow> me_zero | Some e \<Rightarrow> e)"
      using p mem_ok_zero by (cases p) simp_all
    then show ?thesis using keepsD [OF k e(1) t] e(2) by simp
  qed
  then show ?thesis by (simp add: keeps_def)
qed

lemma mem_ok_wire_ok: "mem_ok e \<Longrightarrow> wire_ok (wire_of e)"
  by (simp add: mem_ok_def wire_ok_def wire_of_def)

lemma dec_Endpoints_ok:
  assumes "dec_Endpoints cx v ([], []) = Inr es" "text_ok v"
  shows "wires_ok (wire_ptrs es)"
proof -
  have "list_all mem_ptr_ok (fst es @ snd es)"
    using keepsD [OF keeps_dec_slice [OF keeps_Endpoint_ptr mem_ptr_ok_simps(1)] assms(1) [unfolded dec_Endpoints_def] assms(2)]
    by simp
  then have m: "mem_ok a" if "Some a \<in> set (fst es)" for a
    using that unfolding list_all_iff by (metis UnCI mem_ptr_ok_simps(2) set_append)
  have "wire_ok e" if "map_option wire_of x = Some e" "x \<in> set (fst es)" for e x
    using that m mem_ok_wire_ok by (cases x) auto
  then have "wire_ok e" if "Some e \<in> map_option wire_of ` set (fst es)" for e
    using that by (metis imageE)
  then show ?thesis by (simp add: wires_ok_def wire_ptrs_def)
qed

section \<open>Bodies\<close>

lemma Decode_Endpoints_ok: "Decode_Endpoints raw = Inr (Some es) \<Longrightarrow> wires_ok es"
  by (auto simp: Decode_Endpoints_def json_Decode_def map_sum_Inr split: sum.splits if_splits
      dest!: json_parse_text_ok dec_Endpoints_ok)

lemma wire_ptrs_mem_of [simp]:
  "wire_ptrs (map (map_option (\<lambda>e. mem_of (f e))) es, ys) = map (map_option f) es"
  by (simp add: wire_ptrs_def option.map_comp comp_def)

lemma Endpoints_json_parse:
  assumes "wires_ok es"
  shows "json_parse (json_Encode (JArr (map Endpoint_ptr_json es))) = Inr (JArr (map Endpoint_ptr_json es))"
proof -
  let ?v = "JArr (map Endpoint_ptr_json es)"
  have t: "text_ok ?v"
    using assms Endpoint_json_text_ok by (auto simp: list_all_iff Endpoint_ptr_json_def wires_ok_def split: option.splits)
  have "depth ?v \<le> Suc 3" by (rule depth_JArr_le) (use Endpoint_ptr_json_shape(2) in auto)
  then have "json_parse (json_Encode ?v) = Inr (clean ?v)"
    by (intro json_roundtrip) (auto simp: list_all_iff Endpoint_ptr_json_shape maxNestingDepth_def)
  then show ?thesis using clean_id [OF t] by simp
qed

lemma Decode_Endpoints_null: "Decode_Endpoints (json_Encode JNull) = Inr None"
  using json_roundtrip [of JNull] by (simp add: Decode_Endpoints_def json_Decode_def maxNestingDepth_def)

theorem Endpoints_roundtrip:
  assumes "wires_ok es"
  shows "Decode_Endpoints (json_Encode (Endpoints_json (Some es))) = Inr (Some (map (map_option norm_labels) es))"
  by (simp add: Decode_Endpoints_def json_Decode_def Endpoints_json_def Endpoints_json_parse [OF assms]
      dec_Endpoints_json [OF assms])

definition changes_ok :: "WireChanges \<Rightarrow> bool" where
  "changes_ok c \<longleftrightarrow>
     wires_ok (wc_Create c) \<and> wires_ok (wc_UpdateOld c) \<and> wires_ok (wc_UpdateNew c) \<and> wires_ok (wc_Delete c)"

definition norm_ptrs :: "WireEndpoint option list \<Rightarrow> WireEndpoint option list" where
  "norm_ptrs es = map (map_option norm_labels) es"

definition norm_changes :: "WireChanges \<Rightarrow> WireChanges" where
  "norm_changes c =
     \<lparr>wc_Create = norm_ptrs (wc_Create c), wc_UpdateOld = norm_ptrs (wc_UpdateOld c),
      wc_UpdateNew = norm_ptrs (wc_UpdateNew c), wc_Delete = norm_ptrs (wc_Delete c)\<rparr>"

lemma norm_ptrs_Nil [simp]: "norm_ptrs [] = []"
  by (simp add: norm_ptrs_def)

definition mem_ptrs :: "WireEndpoint option list \<Rightarrow> mem_Endpoints" where
  "mem_ptrs es = (map (map_option (\<lambda>e. mem_of (norm_labels e))) es, [])"

lemma wire_ptrs_mem_ptrs [simp]: "wire_ptrs (mem_ptrs es) = norm_ptrs es"
  by (simp add: mem_ptrs_def norm_ptrs_def)

lemma mem_ptrs_Nil [simp]: "mem_ptrs [] = ([], [])"
  by (simp add: mem_ptrs_def)

lemma dec_Changes_member:
  assumes "n \<in> set Changes_fields" "wires_ok es"
    and "\<And>cx v. Changes_setter n v r = map_sum id upd (dec_Endpoints (in_field None ''Changes'' n) v ([], []))"
    and "es = [] \<Longrightarrow> upd ([], []) = r"
  shows "dec_members Changes_setter Changes_fields (omitempty n (es = []) (JArr (map Endpoint_ptr_json es)) @ ms) r =
    dec_members Changes_setter Changes_fields ms (upd (mem_ptrs es))"
  by (rule dec_omitempty) (use assms dec_Endpoints_json [OF assms(2)] in \<open>auto simp: mem_ptrs_def\<close>)

lemma dec_Changes_json:
  assumes "changes_ok c"
  shows "dec_struct typ None Changes_setter Changes_fields (Changes_json c) mc_zero =
    Inr \<lparr>mc_Create = mem_ptrs (wc_Create c), mc_UpdateOld = mem_ptrs (wc_UpdateOld c),
         mc_UpdateNew = mem_ptrs (wc_UpdateNew c), mc_Delete = mem_ptrs (wc_Delete c)\<rparr>"
proof -
  note ok = assms [unfolded changes_ok_def]
  have 1: "dec_members Changes_setter Changes_fields (omitempty ''create'' (es = []) (JArr (map Endpoint_ptr_json es)) @ ms) mc_zero =
      dec_members Changes_setter Changes_fields ms (mc_zero\<lparr>mc_Create := mem_ptrs es\<rparr>)" if "wires_ok es" for es ms
    by (rule dec_Changes_member)
      (use that in \<open>simp_all add: Changes_fields_def Changes_setter_def mc_zero_def Let_def\<close>)
  have 2: "dec_members Changes_setter Changes_fields (omitempty ''updateOld'' (es = []) (JArr (map Endpoint_ptr_json es)) @ ms) r =
      dec_members Changes_setter Changes_fields ms (r\<lparr>mc_UpdateOld := mem_ptrs es\<rparr>)"
    if "wires_ok es" "mc_UpdateOld r = ([], [])" for es ms r
    by (rule dec_Changes_member)
      (use that in \<open>simp_all add: Changes_fields_def Changes_setter_def Let_def\<close>)
  have 3: "dec_members Changes_setter Changes_fields (omitempty ''updateNew'' (es = []) (JArr (map Endpoint_ptr_json es)) @ ms) r =
      dec_members Changes_setter Changes_fields ms (r\<lparr>mc_UpdateNew := mem_ptrs es\<rparr>)"
    if "wires_ok es" "mc_UpdateNew r = ([], [])" for es ms r
    by (rule dec_Changes_member)
      (use that in \<open>simp_all add: Changes_fields_def Changes_setter_def Let_def\<close>)
  have 4: "dec_members Changes_setter Changes_fields (omitempty ''delete'' (es = []) (JArr (map Endpoint_ptr_json es))) r =
      Inr (r\<lparr>mc_Delete := mem_ptrs es\<rparr>)"
    if "wires_ok es" "mc_Delete r = ([], [])" for es r
    using dec_Changes_member [of "''delete''" es r "\<lambda>x. r\<lparr>mc_Delete := x\<rparr>" "[]"] that
    by (simp add: Changes_fields_def Changes_setter_def Let_def)
  show ?thesis
    using ok by (simp add: Changes_json_def dec_struct_def 1) (simp add: mc_zero_def 2 3 4)
qed

lemma Changes_json_parse:
  assumes "changes_ok c"
  shows "json_parse (json_Encode (Changes_json c)) = Inr (Changes_json c)"
proof -
  have t: "text_ok (JArr (map Endpoint_ptr_json es))" if "wires_ok es" for es
    using that Endpoint_json_text_ok by (auto simp: list_all_iff Endpoint_ptr_json_def wires_ok_def split: option.splits)
  then have t: "text_ok (Changes_json c)"
    using assms by (auto simp: Changes_json_def changes_ok_def omitempty_def utf8_valid_ascii simp del: text_ok.simps(2))
  have i: "integral (Changes_json c)"
    by (auto simp: Changes_json_def omitempty_def list_all_iff Endpoint_ptr_json_shape)
  have a: "depth (JArr (map Endpoint_ptr_json es)) \<le> Suc 3" for es
    by (rule depth_JArr_le) (use Endpoint_ptr_json_shape(2) in auto)
  have m: "\<forall>kv \<in> set (omitempty n b (JArr (map Endpoint_ptr_json es))). depth (snd kv) \<le> Suc 3" for n b es
    using a [of es] by (simp only: omitempty_def) (simp del: depth.simps(1))
  have "depth (Changes_json c) \<le> Suc (Suc 3)"
    unfolding Changes_json_def by (rule depth_JObj_le, unfold set_append ball_Un) (intro conjI m)
  then show ?thesis
    using json_roundtrip [OF i] clean_id [OF t] by (simp add: maxNestingDepth_def)
qed

theorem Changes_roundtrip:
  assumes "changes_ok c"
  shows "Decode_Changes (json_Encode (Changes_json c)) = Inr (norm_changes c)"
  by (simp add: Decode_Changes_def json_Decode_def Changes_json_parse [OF assms] dec_Changes_json [OF assms]
      norm_changes_def)

text \<open>What decodes as a change set is a well-formed one.\<close>

definition mem_ptrs_ok :: "mem_Endpoints \<Rightarrow> bool" where
  "mem_ptrs_ok sl \<longleftrightarrow> list_all mem_ptr_ok (fst sl @ snd sl)"

lemma keeps_dec_Endpoints: "keeps mem_ptrs_ok (dec_Endpoints cx)"
  using keeps_dec_slice [OF keeps_Endpoint_ptr mem_ptr_ok_simps(1)]
  by (simp add: dec_Endpoints_def mem_ptrs_ok_def [abs_def])

lemma wire_ptrs_ok:
  assumes "mem_ptrs_ok sl"
  shows "wires_ok (wire_ptrs sl)"
proof -
  have "wire_ok e" if e: "Some e \<in> set (wire_ptrs sl)" for e
  proof -
    from e have "Some e \<in> map_option wire_of ` set (fst sl)" by (simp add: wire_ptrs_def)
    then obtain p where p: "Some e = map_option wire_of p" "p \<in> set (fst sl)" by (rule imageE)
    then obtain q where q: "p = Some q" "e = wire_of q" by (cases p) auto
    with p(2) assms have "mem_ok q" by (auto simp: mem_ptrs_ok_def list_all_iff dest!: bspec)
    with q show ?thesis by (simp add: mem_ok_wire_ok)
  qed
  then show ?thesis by (simp add: wires_ok_def)
qed

definition mem_changes_ok :: "mem_Changes \<Rightarrow> bool" where
  "mem_changes_ok c \<longleftrightarrow>
     mem_ptrs_ok (mc_Create c) \<and> mem_ptrs_ok (mc_UpdateOld c) \<and> mem_ptrs_ok (mc_UpdateNew c) \<and>
     mem_ptrs_ok (mc_Delete c)"

lemma keeps_Changes_setter: "keeps mem_changes_ok (Changes_setter f)"
  unfolding Changes_setter_def [abs_def] Let_def
  by (intro keeps_if) (rule keeps_field, rule keeps_dec_Endpoints; simp add: mem_changes_ok_def)+

lemma Decode_Changes_ok:
  assumes "Decode_Changes raw = Inr c"
  shows "changes_ok c"
proof -
  obtain v m where v: "json_parse raw = Inr v"
    and m: "dec_struct ''api.Changes'' None Changes_setter Changes_fields v mc_zero = Inr m"
      "c = \<lparr>wc_Create = wire_ptrs (mc_Create m), wc_UpdateOld = wire_ptrs (mc_UpdateOld m),
            wc_UpdateNew = wire_ptrs (mc_UpdateNew m), wc_Delete = wire_ptrs (mc_Delete m)\<rparr>"
    using assms by (auto simp: Decode_Changes_def json_Decode_def map_sum_Inr split: sum.splits)
  have "mem_changes_ok mc_zero" by (simp add: mem_changes_ok_def mc_zero_def mem_ptrs_ok_def)
  from keepsD [OF keeps_dec_struct [OF keeps_Changes_setter] m(1) json_parse_text_ok [OF v] this] m(2)
  show ?thesis by (simp add: changes_ok_def mem_changes_ok_def wire_ptrs_ok)
qed

end
