(* ===== verification/WebhookApi.thy ===== *)
theory WebhookApi
  imports Applying KerberosHealth WireTypes
begin

text \<open>
  The external-dns webhook (\<open>internal/api/handlers.go\<close>) and the routes
  \<open>cmd/webhook/main.go\<close> registers.

  Bodies are bytes in both directions: a request's body goes through the JSON
  decoder of \<open>WireTypes\<close>, a response's body is what the encoder writes.  A handler
  takes the provider's operations as arguments, as the source's \<open>Provider\<close> interface
  does, over a provider state of any type.  \<open>None\<close> as response: the handler panicked.
\<close>

section \<open>Responses\<close>

text \<open>
  The values handed to the encoder: one of the wire structs, or the map with the
  single key \<open>error\<close>.  \<open>JEndpoints None\<close> is the nil slice, which encodes as \<open>null\<close>.
\<close>

datatype body =
    JFilter DomainFilter
  | JEndpoints "WireEndpoint option list option"
  | JError string
  | JHealth HealthResponse

fun body_json :: "body \<Rightarrow> json" where
  "body_json (JFilter f) = DomainFilter_json f"
| "body_json (JEndpoints es) = Endpoints_json es"
| "body_json (JError e) = map_json [''error'' \<mapsto> e]"
| "body_json (JHealth h) = HealthResponse_json h"

record response =
  rsp_Status :: int
  rsp_Header :: "(string \<times> string) list"
  rsp_Body :: string

section \<open>Helpers\<close>

definition writeWebhookJSON :: "int \<Rightarrow> body \<Rightarrow> response" where
  "writeWebhookJSON status v =
     \<lparr>rsp_Status = status,
      rsp_Header = [(''Content-Type'', MediaTypeFormatAndVersion), (''Vary'', ''Content-Type'')],
      rsp_Body = json_Encode (body_json v)\<rparr>"

definition copyLabels :: "labels option \<Rightarrow> labels option" where
  "copyLabels l = map_option (\<lambda>m k. m k) l"

fun toDomainEndpoints :: "WireEndpoint option list \<Rightarrow> Endpoint option list" where
  "toDomainEndpoints [] = []"
| "toDomainEndpoints (None # es) = None # toDomainEndpoints es"
| "toDomainEndpoints (Some e # es) =
     Some \<lparr>ep_DNSName = we_DNSName e, ep_Targets = [] @ we_Targets e, ep_RecordType = we_RecordType e,
           ep_RecordTTL = we_RecordTTL e, ep_Labels = copyLabels (we_Labels e)\<rparr> # toDomainEndpoints es"

definition toDomainChanges :: "WireChanges \<Rightarrow> Changes" where
  "toDomainChanges c =
     \<lparr>ch_Create = toDomainEndpoints (wc_Create c), ch_UpdateOld = toDomainEndpoints (wc_UpdateOld c),
      ch_UpdateNew = toDomainEndpoints (wc_UpdateNew c), ch_Delete = toDomainEndpoints (wc_Delete c)\<rparr>"

definition toWireEndpoint :: "Endpoint option \<Rightarrow> WireEndpoint option" where
  "toWireEndpoint p =
     (case p of
        None \<Rightarrow> None
      | Some e \<Rightarrow>
          Some \<lparr>we_DNSName = ep_DNSName e, we_Targets = [] @ ep_Targets e, we_RecordType = ep_RecordType e,
                we_RecordTTL = ep_RecordTTL e, we_SetIdentifier = [], we_Labels = copyLabels (ep_Labels e),
                we_ProviderSpecific = []\<rparr>)"

section \<open>Handlers\<close>

definition Negotiate :: "string list \<Rightarrow> response" where
  "Negotiate zones = writeWebhookJSON 200 (JFilter \<lparr>df_Include = zones\<rparr>)"

definition Records ::
  "('s \<Rightarrow> Endpoint option list go \<times> 's) \<Rightarrow> 's \<Rightarrow> response option \<times> 's" where
  "Records list_records s =
     (case list_records s of
        (Err e, s1) \<Rightarrow> (Some (writeWebhookJSON 500 (JError e)), s1)
      | (Ok eps, s1) \<Rightarrow> (Some (writeWebhookJSON 200 (JEndpoints (Some (map toWireEndpoint eps)))), s1)
      | (Panic, s1) \<Rightarrow> (None, s1))"

definition api_ApplyChanges ::
  "('s \<Rightarrow> Changes \<Rightarrow> unit go \<times> 's) \<Rightarrow> string \<Rightarrow> 's \<Rightarrow> response option \<times> 's" where
  "api_ApplyChanges apply_changes raw s =
     (case Decode_Changes raw of
        Inl e \<Rightarrow> (Some (writeWebhookJSON 400 (JError (''bad json: '' @ e))), s)
      | Inr wire \<Rightarrow>
          (case apply_changes s (toDomainChanges wire) of
             (Err e, s1) \<Rightarrow> (Some (writeWebhookJSON 500 (JError e)), s1)
           | (Ok _, s1) \<Rightarrow> (Some \<lparr>rsp_Status = 204, rsp_Header = [], rsp_Body = []\<rparr>, s1)
           | (Panic, s1) \<Rightarrow> (None, s1)))"

definition AdjustEndpoints :: "string \<Rightarrow> response" where
  "AdjustEndpoints raw =
     (case Decode_Endpoints raw of
        Inl e \<Rightarrow> writeWebhookJSON 400 (JError (''bad json: '' @ e))
      | Inr eps \<Rightarrow> writeWebhookJSON 200 (JEndpoints eps))"

definition Healthz :: "Kerberos option \<Rightarrow> response" where
  "Healthz krb =
     (case krb of
        None \<Rightarrow> writeWebhookJSON 200 (JHealth \<lparr>hr_OK = True, hr_Kerberos = ''ready'', hr_Detail = []\<rparr>)
      | Some k \<Rightarrow>
          (case Snapshot k of
             (status, detail, _) \<Rightarrow>
               (let ok = (status = StatusReady)
                in writeWebhookJSON (if ok then 200 else 503)
                     (JHealth \<lparr>hr_OK = ok, hr_Kerberos = status_string status, hr_Detail = detail\<rparr>))))"

section \<open>Routes of cmd/webhook/main.go\<close>

text \<open>
  The five patterns, matched as \<open>net/http.ServeMux\<close> does on a clean path: the most
  specific pattern wins, \<open>GET\<close> patterns also take \<open>HEAD\<close>, \<open>GET /\<close> takes every path, and
  a path known only under other methods is answered 405.
\<close>

datatype route = RNegotiate | RRecords | RApplyChanges | RAdjustEndpoints | RHealthz | RMethodNotAllowed

definition mux :: "string \<Rightarrow> string \<Rightarrow> route" where
  "mux meth path =
     (if meth = ''GET'' \<or> meth = ''HEAD'' then
        (if path = ''/records'' then RRecords else if path = ''/healthz'' then RHealthz else RNegotiate)
      else if meth = ''POST'' then
        (if path = ''/records'' then RApplyChanges
         else if path = ''/adjustendpoints'' then RAdjustEndpoints else RMethodNotAllowed)
      else RMethodNotAllowed)"

text \<open>
  The mux's own 405: the methods under which the path is known, sorted, and the
  body of \<open>http.Error\<close>.
\<close>

definition method_not_allowed :: "string \<Rightarrow> response" where
  "method_not_allowed path =
     \<lparr>rsp_Status = 405,
      rsp_Header =
        [(''Allow'', if path \<in> {''/records'', ''/adjustendpoints''} then ''GET, HEAD, POST'' else ''GET, HEAD''),
         (''Content-Type'', ''text/plain; charset=utf-8''), (''X-Content-Type-Options'', ''nosniff'')],
      rsp_Body = ''Method Not Allowed'' @ [CHR 0x0A]\<rparr>"

record request =
  req_Method :: string
  req_Path :: string
  req_Body :: string

definition serve ::
  "string list \<Rightarrow> ('s \<Rightarrow> Endpoint option list go \<times> 's) \<Rightarrow> ('s \<Rightarrow> Changes \<Rightarrow> unit go \<times> 's) \<Rightarrow>
     Kerberos option \<Rightarrow> request \<Rightarrow> 's \<Rightarrow> response option \<times> 's" where
  "serve zones list_records apply_changes krb req s =
     (case mux (req_Method req) (req_Path req) of
        RNegotiate \<Rightarrow> (Some (Negotiate zones), s)
      | RRecords \<Rightarrow> Records list_records s
      | RApplyChanges \<Rightarrow> api_ApplyChanges apply_changes (req_Body req) s
      | RAdjustEndpoints \<Rightarrow> (Some (AdjustEndpoints (req_Body req)), s)
      | RHealthz \<Rightarrow> (Some (Healthz krb), s)
      | RMethodNotAllowed \<Rightarrow>
          (Some (method_not_allowed (req_Path req)), s))"

text \<open>What a request asks to be changed, if it does.\<close>

definition asks :: "request \<Rightarrow> Changes \<Rightarrow> bool" where
  "asks req ch \<longleftrightarrow> mux (req_Method req) (req_Path req) = RApplyChanges \<and>
     (\<exists>wire. Decode_Changes (req_Body req) = Inr wire \<and> ch = toDomainChanges wire)"

section \<open>The provider contract\<close>

text \<open>
  What the handlers rely on: the operations keep the provider's invariant, and in a
  state that has it only an \<open>apply_changes\<close> that is not \<open>calm\<close> can panic.
\<close>

locale webhook_provider =
  fixes list_records :: "'s \<Rightarrow> Endpoint option list go \<times> 's"
    and apply_changes :: "'s \<Rightarrow> Changes \<Rightarrow> unit go \<times> 's"
    and inv :: "'s \<Rightarrow> bool"
    and calm :: "'s \<Rightarrow> Changes \<Rightarrow> bool"
  assumes list_inv: "inv s \<Longrightarrow> inv (snd (list_records s))"
    and apply_inv: "inv s \<Longrightarrow> inv (snd (apply_changes s ch))"
    and list_no_panic: "inv s \<Longrightarrow> fst (list_records s) \<noteq> Panic"
    and apply_no_panic: "inv s \<Longrightarrow> calm s ch \<Longrightarrow> fst (apply_changes s ch) \<noteq> Panic"
begin

lemma serve_inv: "inv s \<Longrightarrow> inv (snd (serve zones list_records apply_changes krb req s))"
  using list_inv [of s] apply_inv [of s]
  by (auto simp: serve_def Records_def api_ApplyChanges_def
      split: route.splits prod.splits go.splits sum.splits) (metis snd_conv)+

lemma serve_answers:
  assumes "inv s" "\<And>ch. asks req ch \<Longrightarrow> calm s ch"
  shows "\<exists>r. fst (serve zones list_records apply_changes krb req s) = Some r \<and>
    rsp_Status r \<in> {200, 204, 400, 405, 500, 503}"
proof -
  have "fst (apply_changes s (toDomainChanges wire)) \<noteq> Panic"
    if "mux (req_Method req) (req_Path req) = RApplyChanges" "Decode_Changes (req_Body req) = Inr wire" for wire
    using that assms by (intro apply_no_panic) (auto simp: asks_def)
  then show ?thesis
    using list_no_panic [OF assms(1)]
    by (auto simp: serve_def Records_def api_ApplyChanges_def Negotiate_def AdjustEndpoints_def Healthz_def
        writeWebhookJSON_def method_not_allowed_def Let_def Snapshot_def
        split: route.splits prod.splits go.splits sum.splits option.splits)
qed

text \<open>A whole session of requests.\<close>

definition serve_all ::
  "string list \<Rightarrow> Kerberos option \<Rightarrow> request list \<Rightarrow> 's \<Rightarrow> 's" where
  "serve_all zones krb reqs s =
     foldl (\<lambda>t req. snd (serve zones list_records apply_changes krb req t)) s reqs"

lemma serve_all_inv: "inv s \<Longrightarrow> inv (serve_all zones krb reqs s)"
  unfolding serve_all_def
  by (induction reqs arbitrary: s) (auto intro: serve_inv)

end

section \<open>The orchestrator as provider\<close>

lemma ListRecords_not_Panic: "fst (ListRecords opts W s) \<noteq> Panic"
  by (auto simp: ListRecords_def split: prod.splits)

text \<open>Changes are calm if the DNS client returns for every change set they can lead to.\<close>

definition calm_for :: "Options \<Rightarrow> world \<Rightarrow> Orchestrator \<Rightarrow> Changes \<Rightarrow> bool" where
  "calm_for opts W s ch \<longleftrightarrow>
     (\<forall>z cs. planned opts (o_cache s) (groupByZone opts ch) z = Some (z, cs) \<longrightarrow> never_panics opts W z cs)"

lemma change_plan_member:
  assumes "(z, cs) \<in> set (change_plan opts cache ch zones)"
  shows "planned opts cache (groupByZone opts ch) z = Some (z, cs)"
proof -
  from assms obtain x where x: "planned opts cache (groupByZone opts ch) x = Some (z, cs)"
    unfolding change_plan_def map_filter_Some by blast
  then have "z = x" by (rule planned_Some)
  with x show ?thesis by simp
qed

lemma ApplyChanges_not_Panic:
  assumes "calm_for opts W s ch"
  shows "fst (ApplyChanges opts W s ch) \<noteq> Panic"
  using assms run_plan_not_Panic [of opts W "tick s"]
  by (fastforce simp: ApplyChanges_plan first_error_Panic calm_for_def dest: change_plan_member split: prod.splits)

interpretation orchestrator: webhook_provider "ListRecords opts W" "ApplyChanges opts W" "orch_inv opts" "calm_for opts W"
  for opts :: Options and W :: world
  by unfold_locales
    (simp_all add: orch_inv_ListRecords orch_inv_ApplyChanges ListRecords_not_Panic ApplyChanges_not_Panic)

section \<open>Conversions\<close>

lemma copyLabels_id [simp]: "copyLabels l = l"
  by (cases l) (simp_all add: copyLabels_def)

lemma toDomainEndpoints_wire: "toDomainEndpoints (map toWireEndpoint es) = es"
proof (induction es)
  case (Cons e es)
  then show ?case by (cases e) (simp_all add: toWireEndpoint_def)
qed simp

text \<open>What an endpoint loses on the wire: an empty label map comes back as none.\<close>

lemma norm_labels_idem [simp]: "norm_labels (norm_labels e) = norm_labels e"
  by (simp add: norm_labels_def no_labels_def)

lemma norm_ptrs_idem [simp]: "norm_ptrs (norm_ptrs es) = norm_ptrs es"
  by (induction es) (simp_all add: norm_ptrs_def option.map_comp comp_def)

lemma wire_ok_norm: "wire_ok e \<Longrightarrow> wire_ok (norm_labels e)"
  by (simp add: wire_ok_def norm_labels_def labels_ok_def)

lemma wires_ok_norm: "wires_ok es \<Longrightarrow> wires_ok (norm_ptrs es)"
  by (auto simp: wires_ok_def norm_ptrs_def intro: wire_ok_norm dest!: sym [of "Some _"])

section \<open>The round of a listing\<close>

text \<open>The reply to a POST, given what the provider returned.\<close>

definition apply_reply :: "unit go \<times> 's \<Rightarrow> response option \<times> 's" where
  "apply_reply p =
     (case p of
        (Err e, s1) \<Rightarrow> (Some (writeWebhookJSON 500 (JError e)), s1)
      | (Ok _, s1) \<Rightarrow> (Some \<lparr>rsp_Status = 204, rsp_Header = [], rsp_Body = []\<rparr>, s1)
      | (Panic, s1) \<Rightarrow> (None, s1))"

definition get_records :: request where
  "get_records = \<lparr>req_Method = ''GET'', req_Path = ''/records'', req_Body = []\<rparr>"

definition post_records :: "string \<Rightarrow> request" where
  "post_records raw = \<lparr>req_Method = ''POST'', req_Path = ''/records'', req_Body = raw\<rparr>"

definition post_adjust :: "string \<Rightarrow> request" where
  "post_adjust raw = \<lparr>req_Method = ''POST'', req_Path = ''/adjustendpoints'', req_Body = raw\<rparr>"

lemma serve_get_records:
  "serve zones list_records apply_changes krb get_records s = Records list_records s"
  by (simp add: serve_def get_records_def mux_def)

definition get_root :: request where
  "get_root = \<lparr>req_Method = ''GET'', req_Path = ''/'', req_Body = []\<rparr>"

lemma serve_get_root: "serve zones list_records apply_changes krb get_root s = (Some (Negotiate zones), s)"
  by (simp add: serve_def get_root_def mux_def)

lemma negotiate_parses:
  assumes "zones \<noteq> []"
  shows "json_parse (rsp_Body (Negotiate zones)) =
      Inr (JObj [(''include'', JArr (map (\<lambda>z. JStr (to_valid z)) zones))]) \<and> rsp_Status (Negotiate zones) = 200"
proof -
  let ?v = "DomainFilter_json \<lparr>df_Include = zones\<rparr>"
  have "depth ?v \<le> maxNestingDepth"
    using depth_JArr_le [of "map JStr zones" 0]
    by (simp add: DomainFilter_json_def omitempty_def assms maxNestingDepth_def del: depth.simps(1))
  moreover have "integral ?v" by (simp add: DomainFilter_json_def omitempty_def list_all_iff)
  moreover have "to_valid ''include'' = ''include''" by (rule to_valid_id, rule ascii_utf8_valid, code_simp)
  ultimately show ?thesis
    using json_roundtrip [of ?v]
    by (simp add: Negotiate_def writeWebhookJSON_def DomainFilter_json_def omitempty_def assms)
qed

lemma serve_post_adjust:
  "serve zones list_records apply_changes krb (post_adjust raw) s = (Some (AdjustEndpoints raw), s)"
  by (simp add: serve_def post_adjust_def mux_def)

lemma serve_post_decoded:
  "Decode_Changes raw = Inr wire \<Longrightarrow>
     serve zones list_records apply_changes krb (post_records raw) s =
       apply_reply (apply_changes s (toDomainChanges wire))"
  by (simp add: serve_def post_records_def mux_def api_ApplyChanges_def apply_reply_def)

definition labelled :: "Endpoint option \<Rightarrow> bool" where
  "labelled p \<longleftrightarrow> (\<exists>e. p = Some e \<and> \<not> no_labels (ep_Labels e))"

lemma endpointsFromRecords_labelled: "p \<in> set (endpointsFromRecords opts recs zone) \<Longrightarrow> labelled p"
  by (auto simp: endpointsFromRecords_spec listing_spec_def group_endpoint_def labelled_def no_labels_def)

lemma list_zones_labelled:
  "list_zones opts W available s tried succeeded out zones = (s', tried', succeeded', out') \<Longrightarrow>
     \<forall>p \<in> set out. labelled p \<Longrightarrow> \<forall>p \<in> set out'. labelled p"
proof (induction zones arbitrary: s tried succeeded out)
  case (Cons zone zones)
  from Cons.prems(1) show ?case
  proof (cases rule: list_zones_cases)
    case (transfer recs d s1 tried1)
    show ?thesis
      by (rule Cons.IH [OF transfer(2)]) (use Cons.prems(2) endpointsFromRecords_labelled in auto)
  next
    case (failed res s1 tried1)
    show ?thesis by (rule Cons.IH [OF failed(3) Cons.prems(2)])
  qed
qed simp

lemma ListRecords_labelled:
  assumes "ListRecords opts W s = (Ok eps, s')" "p \<in> set eps"
  shows "labelled p"
proof (cases "opt_AxfrEnabled opts")
  case False
  with assms show ?thesis by (simp add: ListRecords_def)
next
  case True
  obtain av s1 where av: "availableDCs opts W s = (av, s1)" by fastforce
  obtain s2 tried suc out where lz: "list_zones opts W av s1 [] [] [] (opt_Zones opts) = (s2, tried, suc, out)"
    using prod_cases4 by blast
  have "eps = out" using assms(1) True av lz by (auto simp: ListRecords_def split: if_splits)
  with list_zones_labelled [OF lz] assms(2) show ?thesis by simp
qed

lemma toDomain_norm:
  "\<forall>p \<in> set eps. labelled p \<Longrightarrow> toDomainEndpoints (norm_ptrs (map toWireEndpoint eps)) = eps"
  by (induction eps) (auto simp: labelled_def norm_ptrs_def toWireEndpoint_def norm_labels_def)

lemma listed_wires_ok:
  assumes "list_all (\<lambda>e. ascii (ep_DNSName e) \<and> list_all ascii (ep_Targets e) \<and>
      ascii (ep_RecordType e) \<and> in_int64 (ep_RecordTTL e) \<and>
      list_all (\<lambda>k. ascii (the (the (ep_Labels e) k))) [''owner'', ''resource'']) (listing_spec opts recs zone)"
  shows "wires_ok (map toWireEndpoint (endpointsFromRecords opts recs zone))"
proof -
  have names: "ascii ''owner''" "ascii ''resource''" by code_simp+
  have "wire_ok (the (toWireEndpoint (Some e)))" if e: "e \<in> set (listing_spec opts recs zone)" for e
  proof -
    from e obtain o' where l: "ep_Labels e = Some [''owner'' \<mapsto> o', ''resource'' \<mapsto> ''rfc2136/'' @ zone]"
      by (auto simp: listing_spec_def group_endpoint_def)
    with assms e have "ascii o'" "ascii (''rfc2136/'' @ zone)" by (auto simp: list_all_iff)
    with l names have "labels_ok (ep_Labels e)" by (simp add: labels_ok_def ascii_utf8_valid)
    with assms e show ?thesis by (simp add: toWireEndpoint_def wire_ok_def list_all_iff ascii_utf8_valid)
  qed
  then show ?thesis by (auto simp: wires_ok_def endpointsFromRecords_spec toWireEndpoint_def)
qed

text \<open>The client that deletes what a reply lists.\<close>

definition delete_all :: "WireEndpoint option list \<Rightarrow> WireChanges" where
  "delete_all es = \<lparr>wc_Create = [], wc_UpdateOld = [], wc_UpdateNew = [], wc_Delete = es\<rparr>"

lemma delete_all_simps:
  "wires_ok es \<Longrightarrow> changes_ok (delete_all es)" "norm_changes (delete_all es) = delete_all (norm_ptrs es)"
  "toDomainChanges (delete_all es) =
     \<lparr>ch_Create = [], ch_UpdateOld = [], ch_UpdateNew = [], ch_Delete = toDomainEndpoints es\<rparr>"
  by (simp_all add: delete_all_def changes_ok_def norm_changes_def toDomainChanges_def wires_ok_def)

section \<open>Properties\<close>

text \<open>
  Whatever requests have been served since the start, in any number and
  order, the next request is answered with one of the six status codes the
  program uses, malformed bodies and failing DCs included; the one exception is a
  request for changes for which the DNS client itself can panic.
\<close>

theorem every_request_answered:
  assumes "\<And>ch. asks req ch \<Longrightarrow>
      calm_for opts W (orchestrator.serve_all opts W zones krb reqs (New opts)) ch"
  shows "\<exists>r. fst (serve zones (ListRecords opts W) (ApplyChanges opts W) krb req
          (orchestrator.serve_all opts W zones krb reqs (New opts))) = Some r \<and>
    rsp_Status r \<in> {200, 204, 400, 405, 500, 503}"
  by (rule orchestrator.serve_answers [OF orchestrator.serve_all_inv [OF orch_inv_New]]) (rule assms)

theorem every_request_answered_witness:
  "\<exists>r. fst (serve [] (ListRecords two_zones quiet_world) (ApplyChanges two_zones quiet_world) None get_records
          (orchestrator.serve_all two_zones quiet_world [] None [get_records, get_records] (New two_zones))) = Some r \<and>
    rsp_Status r \<in> {200, 204, 400, 405, 500, 503}"
  by (rule every_request_answered) (simp add: calm_for_def never_panics_def quiet_world_def)

text \<open>
  The reply to \<open>GET /records\<close> loses nothing of what the provider listed: its
  body converts back to exactly the provider's endpoints, labels and nil entries
  included, so a client that posts listed endpoints for deletion names them as the
  provider did.
\<close>

theorem records_reply_roundtrip:
  assumes "ListRecords opts W s = (Ok eps, s')"
  shows "\<exists>wire. Records (ListRecords opts W) s = (Some (writeWebhookJSON 200 (JEndpoints (Some wire))), s') \<and>
    toDomainEndpoints wire = eps"
  using assms toDomainEndpoints_wire [of eps] by (auto simp: Records_def)

theorem records_reply_roundtrip_witness:
  "\<exists>wire. Records (ListRecords two_zones quiet_world) (New two_zones) =
      (Some (writeWebhookJSON 200 (JEndpoints (Some wire))), snd (ListRecords two_zones quiet_world (New two_zones))) \<and>
    toDomainEndpoints wire = endpointsFromRecords two_zones owned_zone ''example.com'' @
         endpointsFromRecords two_zones owned_zone ''dev.example.com''"
  by (rule records_reply_roundtrip) (simp add: prod_eq_iff quiet_listing)

text \<open>
  \<open>/healthz\<close> tells how the last refresh went: with a Kerberos state, after any
  history of marks, it answers 200 exactly when the last mark was a success, and
  the status and detail it shows are those of the last mark.
\<close>

theorem healthz_tells_last_mark:
  "Healthz (Some (marked ms)) =
     (case health_of ms of
        (status, detail, _) \<Rightarrow>
          writeWebhookJSON (if status = StatusReady then 200 else 503)
            (JHealth \<lparr>hr_OK = (status = StatusReady), hr_Kerberos = status_string status, hr_Detail = detail\<rparr>))"
  by (simp add: Healthz_def Snapshot_marked Let_def split: prod.splits)


text \<open>
  C35. What the sidecar lists can be taken back through it: the bytes it answers to
  \<open>GET /records\<close> decode, and a client that posts the decoded endpoints for deletion,
  at any later time, makes the handler ask the provider to delete exactly the
  endpoints the provider listed, byte for byte (JSON escapes, omitted empty fields
  and label maps included).
\<close>

theorem listed_can_be_deleted:
  assumes "ListRecords opts W s = (Ok eps, s')" "wires_ok (map toWireEndpoint eps)"
  shows "\<exists>rsp es. serve zones (ListRecords opts W) (ApplyChanges opts W) krb get_records s = (Some rsp, s') \<and>
    rsp_Status rsp = 200 \<and> Decode_Endpoints (rsp_Body rsp) = Inr (Some es) \<and>
    (\<forall>W2 s2. serve zones (ListRecords opts W2) (ApplyChanges opts W2) krb
        (post_records (json_Encode (Changes_json (delete_all es)))) s2 =
      apply_reply (ApplyChanges opts W2 s2
        \<lparr>ch_Create = [], ch_UpdateOld = [], ch_UpdateNew = [], ch_Delete = eps\<rparr>))"
proof -
  let ?es = "norm_ptrs (map toWireEndpoint eps)"
  have d: "toDomainEndpoints ?es = eps"
    by (rule toDomain_norm) (use ListRecords_labelled [OF assms(1)] in blast)
  have "Decode_Changes (json_Encode (Changes_json (delete_all ?es))) = Inr (delete_all ?es)"
    using Changes_roundtrip [OF delete_all_simps(1) [OF wires_ok_norm [OF assms(2)]]] by (simp add: delete_all_simps)
  note post = serve_post_decoded [OF this, unfolded delete_all_simps d]
  have "Decode_Endpoints (json_Encode (Endpoints_json (Some (map toWireEndpoint eps)))) = Inr (Some ?es)"
    using Endpoints_roundtrip [OF assms(2)] by (simp add: norm_ptrs_def)
  with post show ?thesis
    by (intro exI [of _ "writeWebhookJSON 200 (JEndpoints (Some (map toWireEndpoint eps)))"] exI [of _ ?es] conjI allI)
      (simp_all add: assms(1) serve_get_records Records_def writeWebhookJSON_def)
qed

theorem listed_can_be_deleted_witness:
  "\<exists>rsp es. fst (serve [] (ListRecords two_zones quiet_world) (ApplyChanges two_zones quiet_world) None get_records
        (New two_zones)) = Some rsp \<and> Decode_Endpoints (rsp_Body rsp) = Inr (Some es)"
proof -
  let ?eps = "endpointsFromRecords two_zones owned_zone ''example.com'' @
         endpointsFromRecords two_zones owned_zone ''dev.example.com''"
  have l: "ListRecords two_zones quiet_world (New two_zones) =
      (Ok ?eps, snd (ListRecords two_zones quiet_world (New two_zones)))"
    by (simp add: prod_eq_iff quiet_listing)
  have "wires_ok (map toWireEndpoint (endpointsFromRecords two_zones owned_zone ''example.com''))"
    "wires_ok (map toWireEndpoint (endpointsFromRecords two_zones owned_zone ''dev.example.com''))"
    by (rule listed_wires_ok, code_simp)+
  then have "wires_ok (map toWireEndpoint ?eps)" by (auto simp: wires_ok_def)
  from listed_can_be_deleted [OF l this, of "[]" None] show ?thesis by fastforce
qed


definition sample_endpoint :: WireEndpoint where
  "sample_endpoint =
     \<lparr>we_DNSName = ''a\"b.example.com'', we_Targets = [''10.0.0.1''], we_RecordType = ''A'', we_RecordTTL = - 5,
      we_SetIdentifier = [], we_Labels = Some Map.empty,
      we_ProviderSpecific = [\<lparr>psp_Name = ''<x>'', psp_Value = []\<rparr>]\<rparr>"

definition sample_changes :: WireChanges where
  "sample_changes =
     \<lparr>wc_Create = [Some sample_endpoint, None], wc_UpdateOld = [], wc_UpdateNew = [], wc_Delete = [Some sample_endpoint]\<rparr>"


text \<open>
  \<open>POST /adjustendpoints\<close> echoes: if the body decodes, the reply is 200 and its
  body decodes to the same endpoints (the nil slice stays nil); if it does not, the
  reply is 400 and the provider is not asked either way.
\<close>

theorem adjust_echoes:
  "\<exists>rsp. serve zones list_records apply_changes krb (post_adjust raw) s = (Some rsp, s) \<and>
     (case Decode_Endpoints raw of
        Inl e \<Rightarrow> rsp = writeWebhookJSON 400 (JError (''bad json: '' @ e))
      | Inr None \<Rightarrow> rsp_Status rsp = 200 \<and> Decode_Endpoints (rsp_Body rsp) = Inr None
      | Inr (Some es) \<Rightarrow> rsp_Status rsp = 200 \<and> Decode_Endpoints (rsp_Body rsp) = Inr (Some (norm_ptrs es)))"
proof (cases "Decode_Endpoints raw")
  case (Inl e)
  then show ?thesis by (simp add: serve_post_adjust AdjustEndpoints_def)
next
  case (Inr eps)
  show ?thesis
  proof (cases eps)
    case None
    note nil = Decode_Endpoints_null
    with Inr None show ?thesis
      by (simp add: serve_post_adjust AdjustEndpoints_def writeWebhookJSON_def Endpoints_json_def nil)
  next
    case (Some es)
    with Inr have "wires_ok es" by (simp add: Decode_Endpoints_ok)
    from Endpoints_roundtrip [OF this] Inr Some show ?thesis
      by (simp add: serve_post_adjust AdjustEndpoints_def writeWebhookJSON_def norm_ptrs_def)
  qed
qed

text \<open>
  C37. Whatever bytes arrive, the provider sees well-typed data: the body of a
  \<open>POST /records\<close> is either refused with 400 before the provider is asked, or what
  the provider gets was decoded into well-formed UTF-8 strings, 64-bit TTLs and
  finite label maps.
\<close>

theorem provider_gets_typed_data:
  "(\<exists>e. serve zones list_records apply_changes krb (post_records raw) s =
        (Some (writeWebhookJSON 400 (JError (''bad json: '' @ e))), s)) \<or>
   (\<exists>c. changes_ok c \<and> Decode_Changes raw = Inr c \<and>
      serve zones list_records apply_changes krb (post_records raw) s =
        apply_reply (apply_changes s (toDomainChanges c)))"
proof (cases "Decode_Changes raw")
  case (Inl e)
  then have "serve zones list_records apply_changes krb (post_records raw) s =
      (Some (writeWebhookJSON 400 (JError (''bad json: '' @ e))), s)"
    by (simp add: serve_def post_records_def mux_def api_ApplyChanges_def)
  then show ?thesis by blast
next
  case (Inr c)
  show ?thesis
    by (rule disjI2, intro exI [of _ c] conjI)
      (rule Decode_Changes_ok [OF Inr], rule Inr, rule serve_post_decoded [OF Inr])
qed

end
