(* ===== verification/Webhook.thy ===== *)
theory Webhook
  imports Config KerberosRefresh DnsClient WebhookApi
begin

text \<open>
  The wiring of \<open>cmd/webhook/main.go\<close>: \<open>setupAuth\<close> picks and prepares the DNS
  client, \<open>main\<close> builds the orchestrator and the handlers.  \<open>log.Fatalf\<close> is an
  error.  The handlers at work are the theory \<open>Service\<close>, the signals and the shutdown
  the theory \<open>Lifecycle\<close>; logging and the listening socket are not modelled.
\<close>

datatype client = GSSClient RealClient | KeyClient TSIGClient

fun client_AXFR ::
  "dnslib \<Rightarrow> net \<Rightarrow> client \<Rightarrow> string \<Rightarrow> int \<Rightarrow> string \<Rightarrow> RecordsResult \<times> effect list" where
  "client_AXFR lib N (GSSClient c) = real_AXFR lib N c"
| "client_AXFR lib N (KeyClient c) = tsig_AXFR lib N c"

fun client_Update ::
  "dnslib \<Rightarrow> net \<Rightarrow> client \<Rightarrow> string \<Rightarrow> int \<Rightarrow> string \<Rightarrow> Prereq list \<Rightarrow> Change list \<Rightarrow>
     ApplyResult go \<times> effect list" where
  "client_Update lib N (GSSClient c) = real_Update lib N c"
| "client_Update lib N (KeyClient c) = tsig_Update lib N c"

text \<open>What \<open>setupAuth\<close> returns, with the refresher it starts.\<close>

record auth =
  au_client :: client
  au_health :: "Kerberos option"
  au_refresher :: "Refresher option"

definition startup_kinit :: "kworld \<Rightarrow> Config \<Rightarrow> kproc \<Rightarrow> unit go \<times> kproc" where
  "startup_kinit K cfg p =
     (if c_Password cfg \<noteq> [] then kinit_RunWithPassword K (c_Krb5Conf cfg) (c_Principal cfg) (c_Password cfg) p
      else kinit_Run K (c_Krb5Conf cfg) (c_Keytab cfg) (c_Principal cfg) p)"

definition refresher_for :: "kworld \<Rightarrow> Config \<Rightarrow> Refresher" where
  "refresher_for K cfg =
     \<lparr>rf_Krb5Conf = c_Krb5Conf cfg, rf_Keytab = c_Keytab cfg, rf_Password = c_Password cfg,
      rf_Principal = c_Principal cfg, rf_Interval = c_KinitRefreshInterval cfg,
      rf_Lifetime = Some (TGTEndTime K [])\<rparr>"

definition setupAuth :: "net \<Rightarrow> kworld \<Rightarrow> Config \<Rightarrow> kproc \<Rightarrow> auth go \<times> kproc" where
  "setupAuth N K cfg p =
     (case c_AuthMode cfg of
        AuthHMACTSIG \<Rightarrow>
          (Ok \<lparr>au_client = KeyClient (NewTSIGClient (c_TSIGKeyName cfg) (c_TSIGSecret cfg) (c_TSIGAlgorithm cfg)
                                      False (c_AxfrTimeout cfg) (c_UpdateTimeout cfg)),
               au_health = None, au_refresher = None\<rparr>, p)
      | AuthInsecure \<Rightarrow>
          (Ok \<lparr>au_client = KeyClient (NewTSIGClient [] [] [] True (c_AxfrTimeout cfg) (c_UpdateTimeout cfg)),
               au_health = None, au_refresher = None\<rparr>, p)
      | AuthGSSTSIG \<Rightarrow>
          (case startup_kinit K cfg p of
             (Err e, p1) \<Rightarrow> (Err (''kinit: '' @ e), p1)
           | (Panic, p1) \<Rightarrow> (Panic, p1)
           | (Ok _, p1) \<Rightarrow>
               (case read_clock K p1 of
                  (n, p2) \<Rightarrow>
                    (let krbState = MarkReady NewKerberos n; p3 = p2\<lparr>kp_health := Some krbState\<rparr>
                     in case NewRealClient N (c_Realm cfg) (c_Principal cfg) (c_AxfrTimeout cfg)
                              (c_UpdateTimeout cfg) of
                          Err e \<Rightarrow> (Err (''dns client: '' @ e), p3)
                        | Panic \<Rightarrow> (Panic, p3)
                        | Ok c \<Rightarrow>
                            (Ok \<lparr>au_client = GSSClient c, au_health = Some krbState,
                                 au_refresher = Some (refresher_for K cfg)\<rparr>, p3)))))"

definition options_of :: "Config \<Rightarrow> Options" where
  "options_of cfg =
     \<lparr>opt_Hosts = c_Hosts cfg, opt_Port = c_Port cfg, opt_Zones = c_Zones cfg,
      opt_AxfrEnabled = c_AxfrEnabled cfg, opt_DefaultTTL = c_DefaultTTL cfg, opt_MinTTL = c_MinTTL cfg,
      opt_CircuitBreakerThreshold = c_CircuitBreakerThreshold cfg, opt_DomainFilter = c_DomainFilter cfg,
      opt_DryRun = c_DryRun cfg\<rparr>"

text \<open>The state \<open>main\<close> serves requests from.\<close>

record webhook =
  wh_opts :: Options
  wh_auth :: auth
  wh_orch :: Orchestrator

definition main :: "host \<Rightarrow> net \<Rightarrow> kworld \<Rightarrow> kproc \<Rightarrow> webhook go \<times> fsop list \<times> kproc" where
  "main H N K p =
     (case Load H of
        (Err e, ops) \<Rightarrow> (Err (''config: '' @ e), ops, p)
      | (Panic, ops) \<Rightarrow> (Panic, ops, p)
      | (Ok cfg, ops) \<Rightarrow>
          (case setupAuth N K cfg p of
             (Err e, p1) \<Rightarrow> (Err e, ops, p1)
           | (Panic, p1) \<Rightarrow> (Panic, ops, p1)
           | (Ok au, p1) \<Rightarrow>
               (let opts = options_of cfg
                in (Ok \<lparr>wh_opts = opts, wh_auth = au, wh_orch = New opts\<rparr>, ops, p1))))"

lemma main_Ok:
  assumes "fst (main H N K p) = Ok w"
  obtains cfg where "fst (Load H) = Ok cfg" "wh_opts w = options_of cfg"
    "fst (setupAuth N K cfg p) = Ok (wh_auth w)" "wh_orch w = New (options_of cfg)"
  using assms by (auto simp: main_def Let_def split: prod.splits go.splits)

section \<open>The client in use\<close>

lemma client_AXFR_sane: "sane_listing (fst (client_AXFR lib N c host port zone))"
  by (cases c) (simp_all only: client_AXFR.simps real_AXFR_sane tsig_AXFR_sane)

lemma client_Update_sane: "fst (client_Update lib N c host port zone ps cs) = Ok r \<Longrightarrow> sane_answer r"
  by (cases c) (simp_all only: client_Update.simps real_Update_sane tsig_Update_sane)

lemma client_Update_no_error: "fst (client_Update lib N c host port zone ps cs) \<noteq> Err e"
  by (cases c) (simp_all only: client_Update.simps real_Update_no_error tsig_Update_no_error not_False_eq_True)

interpretation webhook_client: dns_client
  "\<lambda>host port zone. fst (client_AXFR lib N c host port zone)"
  "\<lambda>host port zone ps cs. fst (client_Update lib N c host port zone ps cs)"
  for lib :: dnslib and N :: net and c :: client
  by (rule dns_client.intro, rule client_AXFR_sane, erule client_Update_sane, rule client_Update_no_error)

lemma run_exchange_Exchanged:
  "run_exchange lib N cli m addr = (r, es) \<Longrightarrow> Exchanged cli' m' addr' \<in> set es \<Longrightarrow>
     cli' = cli \<and> m' = m \<and> addr' = addr"
  by (auto dest!: run_exchange_effects)

text \<open>How an exchanged message is authenticated.\<close>

definition signed_with :: "net \<Rightarrow> dns_Client \<Rightarrow> Msg \<Rightarrow> string \<Rightarrow> string \<Rightarrow> string \<Rightarrow> bool" where
  "signed_with N cli m key secret alg \<longleftrightarrow>
     cli_TsigProvider cli = HMACProvider key secret \<and> msg_Tsig m = Some (key, alg, 300, net_Now N)"

definition unsigned :: "dns_Client \<Rightarrow> Msg \<Rightarrow> bool" where
  "unsigned cli m \<longleftrightarrow> cli_TsigProvider cli = NoProvider \<and> msg_Tsig m = None"

definition gss_signed :: "net \<Rightarrow> dns_Client \<Rightarrow> Msg \<Rightarrow> string \<Rightarrow> bool" where
  "gss_signed N cli m addr \<longleftrightarrow>
     cli_TsigProvider cli = GSSProvider \<and>
     (\<exists>k. net_Negotiate N addr = Inr k \<and> msg_Tsig m = Some (k, ''gss-tsig.'', 300, net_Now N))"

definition authenticated :: "net \<Rightarrow> Config \<Rightarrow> dns_Client \<Rightarrow> Msg \<Rightarrow> string \<Rightarrow> bool" where
  "authenticated N cfg cli m addr =
     (case c_AuthMode cfg of
        AuthGSSTSIG \<Rightarrow> gss_signed N cli m addr
      | AuthHMACTSIG \<Rightarrow> signed_with N cli m (c_TSIGKeyName cfg) (c_TSIGSecret cfg) (c_TSIGAlgorithm cfg)
      | AuthInsecure \<Rightarrow> unsigned cli m)"

lemma tsig_Update_Exchanged:
  assumes "Exchanged cli m addr \<in> set (snd (tsig_Update lib N c host port zone ps cs))"
  shows "if tc_Insecure c then unsigned cli m
    else signed_with N cli m (tc_KeyName c) (tc_Secret c) (tc_Algorithm c)"
proof (cases "BuildUpdateMsg lib zone ps cs")
  case (Ok m0)
  have m0: "msg_Tsig m0 = None" using BuildUpdateMsg_Ok [OF Ok] by blast
  obtain prov m1 where s: "sign N c m0 = (prov, m1)" by fastforce
  then have "cli_TsigProvider cli = prov \<and> m = m1"
    using assms Ok by (auto simp: tsig_Update_def Let_def split: prod.splits dest: run_exchange_Exchanged)
  then show ?thesis
    using s m0 by (auto simp: sign_def unsigned_def signed_with_def tsigFudge_def split: if_splits)
qed (use assms in \<open>simp_all add: tsig_Update_def\<close>)

lemma real_Update_Exchanged:
  assumes "Exchanged cli m addr \<in> set (snd (real_Update lib N c host port zone ps cs))"
  shows "gss_signed N cli m addr"
  using assms
  by (auto simp: real_Update_def real_Update_body_def Let_def gss_signed_def
      dest: run_exchange_Exchanged split: go.splits prod.splits sum.splits)

lemma setupAuth_client:
  assumes "fst (setupAuth N K cfg p) = Ok au"
  shows "case c_AuthMode cfg of
      AuthGSSTSIG \<Rightarrow> (\<exists>c. au_client au = GSSClient c) \<and> (\<exists>n. au_health au = Some (MarkReady NewKerberos n)) \<and>
        au_refresher au = Some (refresher_for K cfg)
    | AuthHMACTSIG \<Rightarrow> au_health au = None \<and> au_refresher au = None \<and>
        au_client au = KeyClient (NewTSIGClient (c_TSIGKeyName cfg) (c_TSIGSecret cfg) (c_TSIGAlgorithm cfg)
          False (c_AxfrTimeout cfg) (c_UpdateTimeout cfg))
    | AuthInsecure \<Rightarrow> au_health au = None \<and> au_refresher au = None \<and>
        au_client au = KeyClient (NewTSIGClient [] [] [] True (c_AxfrTimeout cfg) (c_UpdateTimeout cfg))"
  using assms
  by (cases "c_AuthMode cfg") (auto simp: setupAuth_def Let_def split: go.splits prod.splits)

section \<open>Properties\<close>

text \<open>
  Every UPDATE goes out authenticated as configured: whatever the client that
  \<open>setupAuth\<close> chose sends, it is signed with a negotiated context in Kerberos mode,
  with exactly the configured key, secret and algorithm in TSIG mode, and unsigned
  only in insecure mode.
\<close>

theorem updates_authenticated:
  assumes "fst (setupAuth N K cfg p) = Ok au"
    and "Exchanged cli m addr \<in> set (snd (client_Update lib N' (au_client au) host port zone ps cs))"
  shows "authenticated N' cfg cli m addr"
proof (cases "c_AuthMode cfg")
  case AuthGSSTSIG
  then obtain c where "au_client au = GSSClient c" using setupAuth_client [OF assms(1)] by auto
  then show ?thesis using AuthGSSTSIG assms(2) real_Update_Exchanged by (simp add: authenticated_def)
next
  case AuthHMACTSIG
  then show ?thesis
    using setupAuth_client [OF assms(1)] assms(2) tsig_Update_Exchanged
    by (force simp: authenticated_def NewTSIGClient_def)
next
  case AuthInsecure
  then show ?thesis
    using setupAuth_client [OF assms(1)] assms(2) tsig_Update_Exchanged
    by (force simp: authenticated_def NewTSIGClient_def)
qed

definition key_config :: Config where
  "key_config =
     \<lparr>c_Listen = '':9090'', c_AuthMode = AuthHMACTSIG, c_TSIGKeyName = ''k.'', c_TSIGSecret = ''c2VjcmV0'',
      c_TSIGAlgorithm = ''hmac-sha256.'', c_Realm = [], c_Principal = [], c_Keytab = [], c_Password = [],
      c_Krb5Conf = ''/etc/krb5.conf'', c_DryRun = False, c_KinitRefreshInterval = 1, c_Hosts = [''dc1''],
      c_Port = 53, c_Zones = [''example.com''], c_AxfrEnabled = True, c_DefaultTTL = 3600, c_MinTTL = 60,
      c_CircuitBreakerThreshold = 3, c_DomainFilter = [], c_AxfrTimeout = 30, c_UpdateTimeout = 15\<rparr>"

definition key_client :: TSIGClient where
  "key_client = NewTSIGClient ''k.'' ''c2VjcmV0'' ''hmac-sha256.'' False 30 15"

definition key_auth :: auth where
  "key_auth = \<lparr>au_client = KeyClient key_client, au_health = None, au_refresher = None\<rparr>"

lemma key_setup: "fst (setupAuth N K key_config p) = Ok key_auth"
  by (simp add: setupAuth_def key_config_def key_auth_def key_client_def)

definition empty_update :: Msg where
  "empty_update = \<lparr>msg_Op = OpUpdate, msg_Zone = dotted ''example.com'', msg_Answer = [], msg_Ns = [],
     msg_Tsig = Some (''k.'', ''hmac-sha256.'', 300, 1000)\<rparr>"

definition key_dns_client :: dns_Client where
  "key_dns_client = \<lparr>cli_Net = ''tcp'', cli_TsigProvider = HMACProvider ''k.'' ''c2VjcmV0'', cli_DialTimeout = 15,
     cli_ReadTimeout = 15, cli_WriteTimeout = 15\<rparr>"

lemma key_exchange:
  "Exchanged key_dns_client empty_update (JoinHostPort ''dc1'' (Itoa 53))
     \<in> set (snd (client_Update lenient_lib lossy_net (au_client key_auth) ''dc1'' 53 ''example.com'' [] []))"
  by (simp add: key_auth_def key_client_def NewTSIGClient_def tsig_Update_def BuildUpdateMsg_def sign_def Let_def
      run_exchange_def key_dns_client_def empty_update_def lenient_lib_def lossy_net_def tsigFudge_def split: prod.splits)

theorem updates_authenticated_witness:
  "authenticated lossy_net key_config key_dns_client empty_update (JoinHostPort ''dc1'' (Itoa 53))"
  by (rule updates_authenticated [OF key_setup key_exchange])

text \<open>
  A server's verdict ends the walk: when the client in use, of either kind,
  answers with an rcode other than SERVFAIL, REFUSED, NOTAUTH or none at all, so
  for instance with a failed prerequisite, no further DC is contacted, and the result
  is success for NOERROR and a non-retryable failure naming the DC otherwise.
\<close>

theorem verdict_ends_walk:
  assumes "fst (client_Update lib N cl dc (opt_Port opts) zone (cs_prereqs cs) (cs_changes cs)) = Ok r"
    and "w_Update W (Suc (o_tick s)) dc (opt_Port opts) zone (cs_prereqs cs) (cs_changes cs) = Some r"
    and "ar_Rcode r \<notin> {[], ''SERVFAIL'', ''REFUSED'', ''NOTAUTH''}"
    and "w_ctxErr W (o_tick s) = None"
  shows "o_wire (snd (update_loop_dcs opts W zone cs n s lf (dc # dcs))) =
      o_wire s @ [UpdateCall dc zone (cs_prereqs cs) (cs_changes cs)] \<and>
    fst (update_loop_dcs opts W zone cs n s lf (dc # dcs)) =
      (if ar_OK r then Ok () else Err (''UPDATE failed (non-retryable): '' @ update_failure dc r))"
  using webhook_client.verdict_stops [OF assms] by metis

definition refusing_net :: net where
  "refusing_net = lossy_net\<lparr>net_Exchange := (\<lambda>_ _ _. (Some RcodeYXRrset, None))\<rparr>"

definition refusal :: ApplyResult where
  "refusal = ClassifyRcode lenient_lib RcodeYXRrset"

lemma refusal_given:
  "fst (client_Update lenient_lib refusing_net (au_client key_auth) ''dc1'' (opt_Port two_zones) ''example.com''
     (cs_prereqs cs_empty) (cs_changes cs_empty)) = Ok refusal"
  by (simp add: key_auth_def key_client_def NewTSIGClient_def tsig_Update_def BuildUpdateMsg_def sign_def Let_def
      run_exchange_def classifyExchangeResult_def refusing_net_def refusal_def split: prod.splits)

theorem verdict_ends_walk_witness:
  "o_wire (snd (update_loop_dcs two_zones (quiet_world\<lparr>w_Update := \<lambda>_ _ _ _ _ _. Some refusal\<rparr>) ''example.com'' cs_empty 2
      (New two_zones) [] [''dc1'', ''dc2''])) =
   o_wire (New two_zones) @ [UpdateCall ''dc1'' ''example.com'' (cs_prereqs cs_empty) (cs_changes cs_empty)]"
proof -
  have r: "ar_Rcode refusal \<notin> {[], ''SERVFAIL'', ''REFUSED'', ''NOTAUTH''}"
    by (simp add: refusal_def ClassifyRcode_def rcode_defs)
  show ?thesis
    using verdict_ends_walk [OF refusal_given _ r, of "quiet_world\<lparr>w_Update := \<lambda>_ _ _ _ _ _. Some refusal\<rparr>"
        "New two_zones" 2 "[]" "[''dc2'']"]
    by (simp add: quiet_world_def)
qed


text \<open>
  C38. Once the program has started, \<open>GET /\<close> always names a domain filter: the reply's
  body parses to an object with the one member \<open>include\<close>, listing every configured
  zone in order, and there is at least one (an empty object would make the
  controller route every record to this provider).
\<close>

theorem filter_never_empty:
  assumes "fst (main H N K p) = Ok w"
  shows "\<exists>rsp. serve (opt_Zones (wh_opts w)) (ListRecords (wh_opts w) W) (ApplyChanges (wh_opts w) W)
      (au_health (wh_auth w)) get_root s = (Some rsp, s) \<and> rsp_Status rsp = 200 \<and>
    json_parse (rsp_Body rsp) =
      Inr (JObj [(''include'', JArr (map (\<lambda>z. JStr (to_valid z)) (opt_Zones (wh_opts w))))]) \<and>
    opt_Zones (wh_opts w) \<noteq> []"
proof -
  obtain cfg where cfg: "fst (Load H) = Ok cfg" "wh_opts w = options_of cfg" by (rule main_Ok [OF assms])
  then have z: "opt_Zones (wh_opts w) \<noteq> []"
    using Load_settings [OF cfg(1)] by (simp add: settings_ok_def options_of_def)
  with negotiate_parses [OF z] show ?thesis by (simp add: serve_get_root)
qed

theorem filter_never_empty_witness:
  "\<exists>w. fst (main (plain_host bind_env) lossy_net plain_world plain_proc) = Ok w \<and> opt_Zones (wh_opts w) \<noteq> []"
proof -
  have "is_ok (fst (main (plain_host bind_env) lossy_net plain_world plain_proc))" by code_simp
  then obtain w where "fst (main (plain_host bind_env) lossy_net plain_world plain_proc) = Ok w"
    by (auto simp: is_ok_def split: go.splits)
  with filter_never_empty [OF this] show ?thesis by blast
qed

end
