(* ===== verification/Service.thy ===== *)
theory Service
  imports Webhook Isolation
begin

text \<open>
  The parts put together: the process \<open>main\<close> of \<open>cmd/webhook/main.go\<close> starts,
  serving HTTP requests through the handlers, the orchestrator and the DNS client
  \<open>setupAuth\<close> chose, with the refresher beside them.  The orchestrator's world answers
  what that client makes of the network's answers; what is left open is the
  network, the clock and the DNS library.
\<close>

section \<open>The client in the world\<close>

text \<open>A call that returned; the Go signature has no error result, so what is left is a panic.\<close>

definition returned :: "ApplyResult go \<Rightarrow> ApplyResult option" where
  "returned r = (case r of Ok a \<Rightarrow> Some a | _ \<Rightarrow> None)"

definition wired :: "dnslib \<Rightarrow> (nat \<Rightarrow> net) \<Rightarrow> client \<Rightarrow> world \<Rightarrow> world" where
  "wired lib Ns c W = W\<lparr>
     w_AXFR := (\<lambda>n host port zone. fst (client_AXFR lib (Ns n) c host port zone)),
     w_Update := (\<lambda>n host port zone ps cs. returned (fst (client_Update lib (Ns n) c host port zone ps cs)))\<rparr>"

lemma wired_simps [simp]:
  "w_AXFR (wired lib Ns c W) n host port zone = fst (client_AXFR lib (Ns n) c host port zone)"
  "w_Update (wired lib Ns c W) n host port zone ps cs = returned (fst (client_Update lib (Ns n) c host port zone ps cs))"
  by (simp_all add: wired_def)

lemma map_go_Panic: "map_go f xs = Panic \<Longrightarrow> \<exists>x \<in> set xs. f x = Panic"
  by (induction xs) auto

lemma buildPrereqRR_not_Panic: "buildPrereqRR lib p \<noteq> Panic"
  by (auto simp: buildPrereqRR_def Let_def split: option.splits sum.splits)

text \<open>The line handed to the library's parser for a record.\<close>

definition record_line :: "dnslib \<Rightarrow> Record \<Rightarrow> string" where
  "record_line lib r = rr_text (lib_Fqdn lib (rec_Name r)) (rec_TTL r) (rec_Type r) (rec_Value r)"

lemma changeRR_Panic:
  "changeRR lib c = Panic \<Longrightarrow> chg_Op c = ''delete'' \<and> lib_NewRR lib (record_line lib (chg_Record c)) = Inr None"
  by (auto simp: changeRR_def recordToRR_def as_deletion_def record_line_def Let_def
      split: sum.splits if_splits option.splits)

lemma BuildUpdateMsg_Panic:
  "BuildUpdateMsg lib zone ps cs = Panic \<Longrightarrow>
     \<exists>c \<in> set cs. chg_Op c = ''delete'' \<and> lib_NewRR lib (record_line lib (chg_Record c)) = Inr None"
  by (auto simp: BuildUpdateMsg_def dest!: map_go_Panic changeRR_Panic dest: buildPrereqRR_not_Panic [THEN notE])

lemma client_Update_Panic:
  assumes "fst (client_Update lib N c host port zone ps cs) = Panic"
  shows "\<exists>c \<in> set cs. chg_Op c = ''delete'' \<and> lib_NewRR lib (record_line lib (chg_Record c)) = Inr None"
proof -
  have "BuildUpdateMsg lib zone ps cs = Panic"
    using assms
    by (cases c)
      (auto simp: real_Update_def real_Update_body_def tsig_Update_def Let_def split: sum.splits go.splits prod.splits)
  then show ?thesis by (rule BuildUpdateMsg_Panic)
qed

lemma returned_None:
  assumes "returned (fst (client_Update lib N c host port zone ps cs)) = None"
  shows "\<exists>c \<in> set cs. chg_Op c = ''delete'' \<and> lib_NewRR lib (record_line lib (chg_Record c)) = Inr None"
proof (rule client_Update_Panic)
  show "fst (client_Update lib N c host port zone ps cs) = Panic"
    using assms client_Update_no_error by (fastforce simp: returned_def split: go.splits)
qed

section \<open>What the client puts on the wire\<close>

lemma tsig_Update_message:
  assumes "Exchanged cli m addr \<in> set (snd (tsig_Update lib N c host port zone ps cs))"
  shows "\<exists>m0 t. BuildUpdateMsg lib zone ps cs = Ok m0 \<and> m = m0\<lparr>msg_Tsig := t\<rparr> \<and>
    addr = JoinHostPort host (Itoa port) \<and> cli_Net cli = ''tcp''"
proof (cases "BuildUpdateMsg lib zone ps cs")
  case (Ok m0)
  obtain prov m1 where s: "sign N c m0 = (prov, m1)" by fastforce
  then have "\<exists>t. m1 = m0\<lparr>msg_Tsig := t\<rparr>"
    by (auto simp: sign_def split: if_splits intro: exI [of _ "msg_Tsig m0"])
  moreover have "m = m1" "addr = JoinHostPort host (Itoa port)" "cli_Net cli = ''tcp''"
    using assms Ok s by (auto simp: tsig_Update_def Let_def split: prod.splits dest: run_exchange_Exchanged)
  ultimately show ?thesis using Ok by simp
qed (use assms in \<open>simp_all add: tsig_Update_def\<close>)

lemma real_Update_message:
  assumes "Exchanged cli m addr \<in> set (snd (real_Update lib N c host port zone ps cs))"
  shows "\<exists>m0 t. BuildUpdateMsg lib zone ps cs = Ok m0 \<and> m = m0\<lparr>msg_Tsig := t\<rparr> \<and>
    addr = JoinHostPort host (Itoa port) \<and> cli_Net cli = ''tcp''"
  using assms
  by (auto simp: real_Update_def real_Update_body_def Let_def dest!: run_exchange_Exchanged
      split: go.splits prod.splits sum.splits)

lemma client_Update_message:
  assumes "Exchanged cli m addr \<in> set (snd (client_Update lib N c host port zone ps cs))"
  shows "addr = JoinHostPort host (Itoa port) \<and> cli_Net cli = ''tcp'' \<and> msg_Op m = OpUpdate \<and>
    msg_Zone m = lib_Fqdn lib zone \<and> list_all2 (encodes_prereq lib) ps (msg_Answer m) \<and>
    list_all2 (encodes_change lib) cs (msg_Ns m)"
proof -
  have "\<exists>m0 t. BuildUpdateMsg lib zone ps cs = Ok m0 \<and> m = m0\<lparr>msg_Tsig := t\<rparr> \<and>
      addr = JoinHostPort host (Itoa port) \<and> cli_Net cli = ''tcp''"
  proof (cases c)
    case (GSSClient x)
    with assms show ?thesis by (intro real_Update_message) simp
  next
    case (KeyClient x)
    with assms show ?thesis by (intro tsig_Update_message) simp
  qed
  then obtain m0 t where m0: "BuildUpdateMsg lib zone ps cs = Ok m0" "m = m0\<lparr>msg_Tsig := t\<rparr>"
    "addr = JoinHostPort host (Itoa port)" "cli_Net cli = ''tcp''" by blast
  with BuildUpdateMsg_Ok [OF m0(1)] show ?thesis by simp
qed

section \<open>Serving\<close>

definition wh_world :: "dnslib \<Rightarrow> (nat \<Rightarrow> net) \<Rightarrow> world \<Rightarrow> webhook \<Rightarrow> world" where
  "wh_world lib Ns W w = wired lib Ns (au_client (wh_auth w)) W"

definition handle ::
  "dnslib \<Rightarrow> (nat \<Rightarrow> net) \<Rightarrow> world \<Rightarrow> webhook \<Rightarrow> Kerberos option \<times> request \<Rightarrow> Orchestrator \<Rightarrow>
     response option \<times> Orchestrator" where
  "handle lib Ns W w = (\<lambda>(krb, req).
     serve (opt_Zones (wh_opts w)) (ListRecords (wh_opts w) (wh_world lib Ns W w))
       (ApplyChanges (wh_opts w) (wh_world lib Ns W w)) krb req)"

text \<open>Requests one after the other, each with the health state it finds.\<close>

fun handle_all ::
  "dnslib \<Rightarrow> (nat \<Rightarrow> net) \<Rightarrow> world \<Rightarrow> webhook \<Rightarrow> (Kerberos option \<times> request) list \<Rightarrow> Orchestrator \<Rightarrow>
     response option list \<times> Orchestrator" where
  "handle_all lib Ns W w [] s = ([], s)"
| "handle_all lib Ns W w (q # qs) s =
     (case handle lib Ns W w q s of
        (rsp, s1) \<Rightarrow> (case handle_all lib Ns W w qs s1 of (rsps, s2) \<Rightarrow> (rsp # rsps, s2)))"

text \<open>
  The records a request for changes can make the program delete, and a request for
  which the library's parser takes such a record's line for a blank one.
\<close>

definition blank_deletion :: "dnslib \<Rightarrow> request \<Rightarrow> bool" where
  "blank_deletion lib req \<longleftrightarrow> (\<exists>ch. asks req ch) \<and>
     (\<exists>r. rec_Type r \<in> set (''TXT'' # supported_types) \<and> rec_Value r \<noteq> [] \<and>
        lib_NewRR lib (record_line lib r) = Inr None)"

definition answered_well :: "dnslib \<Rightarrow> Kerberos option \<times> request \<Rightarrow> response option \<Rightarrow> bool" where
  "answered_well lib = (\<lambda>(krb, req) rsp.
     (case rsp of
        Some r \<Rightarrow> rsp_Status r \<in> {200, 204, 400, 405, 500, 503}
      | None \<Rightarrow> blank_deletion lib req))"

lemma not_calm_blank:
  assumes "\<not> calm_for opts (wired lib Ns c W) s ch"
  shows "\<exists>r. rec_Type r \<in> set (''TXT'' # supported_types) \<and> rec_Value r \<noteq> [] \<and>
    lib_NewRR lib (record_line lib r) = Inr None"
proof -
  from assms obtain z cs n dc where p: "planned opts (o_cache s) (groupByZone opts ch) z = Some (z, cs)"
    and u: "returned (fst (client_Update lib (Ns n) c dc (opt_Port opts) z (cs_prereqs cs) (cs_changes cs))) = None"
    by (auto simp: calm_for_def never_panics_def)
  have "wf_cs cs"
  proof (rule planned_Some [OF p])
    fix ops
    assume "entry_ok opts z ops" and
      "buildZoneChangeSet opts (o_cache s) z (zo_create ops) (zo_updateOld ops) (zo_updateNew ops) (zo_del ops) = Ok cs"
    then show "wf_cs cs" by (auto simp: entry_ok_def dest: buildZoneChangeSet_wf)
  qed
  with returned_None [OF u] show ?thesis by (auto simp: wf_cs_def wf_change_def list_all_iff)
qed

lemma handle_answers:
  assumes "orch_inv (wh_opts w) s" "handle lib Ns W w q s = (rsp, s')"
  shows "answered_well lib q rsp \<and> orch_inv (wh_opts w) s'"
proof -
  obtain krb req where q: "q = (krb, req)" by fastforce
  let ?W = "wh_world lib Ns W w"
  have "orch_inv (wh_opts w) s'"
    using orchestrator.serve_inv [OF assms(1), of "opt_Zones (wh_opts w)" ?W krb req] assms(2)
    by (simp add: handle_def q)
  moreover have "answered_well lib q rsp"
  proof (cases "\<forall>ch. asks req ch \<longrightarrow> calm_for (wh_opts w) ?W s ch")
    case True
    with orchestrator.serve_answers [OF assms(1), of req ?W "opt_Zones (wh_opts w)" krb] assms(2) show ?thesis
      by (auto simp: answered_well_def handle_def q)
  next
    case False
    then obtain ch where "asks req ch" "\<not> calm_for (wh_opts w) ?W s ch" by blast
    with not_calm_blank have blank: "blank_deletion lib req" by (auto simp: blank_deletion_def wh_world_def)
    have "rsp = None \<or> (\<exists>r. rsp = Some r \<and> rsp_Status r \<in> {200, 204, 400, 405, 500, 503})"
      using assms(2) by (auto simp: handle_def q serve_def Records_def api_ApplyChanges_def Negotiate_def
          AdjustEndpoints_def Healthz_def writeWebhookJSON_def method_not_allowed_def Let_def Snapshot_def
          split: route.splits prod.splits go.splits sum.splits option.splits if_splits)
    with blank show ?thesis by (auto simp: answered_well_def q)
  qed
  ultimately show ?thesis by simp
qed

lemma handle_all_answers:
  "orch_inv (wh_opts w) s \<Longrightarrow> handle_all lib Ns W w qs s = (rsps, s') \<Longrightarrow>
     list_all2 (answered_well lib) qs rsps \<and> orch_inv (wh_opts w) s'"
proof (induction qs arbitrary: s rsps)
  case (Cons q qs)
  obtain rsp s1 where h: "handle lib Ns W w q s = (rsp, s1)" by fastforce
  obtain rsps1 where a: "handle_all lib Ns W w qs s1 = (rsps1, s')" "rsps = rsp # rsps1"
    using Cons.prems(2) h by (auto split: prod.splits)
  from handle_answers [OF Cons.prems(1) h] Cons.IH [OF _ a(1)] a(2) show ?case by auto
qed simp

section \<open>The refresher and the readiness probe\<close>

text \<open>The refresh loop with how its kinits went, oldest first (\<open>None\<close>: it succeeded).\<close>

inductive run_trace :: "kworld \<Rightarrow> Refresher \<Rightarrow> kproc \<Rightarrow> string option list \<Rightarrow> loop \<Rightarrow> bool" for K r p where
  trace_start: "run_trace K r p [] (loop_start r p)"
| trace_fire: "run_trace K r p os l \<Longrightarrow> \<not> lp_done l \<Longrightarrow> refreshOnce K r (lp_proc l) = (nxt, p') \<Longrightarrow>
    run_trace K r p (os @ [kinit_error K r (lp_proc l)]) (l\<lparr>lp_proc := p', lp_timer := nxt\<rparr>)"
| trace_cancel: "run_trace K r p os l \<Longrightarrow> \<not> lp_done l \<Longrightarrow> run_trace K r p os (l\<lparr>lp_done := True\<rparr>)"

lemma run_trace_reach: "run_trace K r p os l \<Longrightarrow> run_reach K r p l"
  by (induction rule: run_trace.induct) (auto intro: reach_start run_reach.reach_step run_cancel run_fire)

lemma reach_run_trace: "run_reach K r p l \<Longrightarrow> \<exists>os. run_trace K r p os l"
proof (induction rule: run_reach.induct)
  case reach_start
  show ?case by (blast intro: trace_start)
next
  case (reach_step l l')
  from reach_step.hyps(2) reach_step.IH show ?case
    by cases (blast intro: trace_fire trace_cancel)+
qed

definition last_error :: "string option list \<Rightarrow> string option" where
  "last_error os = (if os = [] then None else last os)"

lemma run_trace_health:
  assumes "run_trace K r p os l" "kp_health p = Some k0" "k_status k0 = StatusReady" "k_detail k0 = []"
  shows "\<exists>k. kp_health (lp_proc l) = Some k \<and>
    (case last_error os of
       None \<Rightarrow> k_status k = StatusReady \<and> k_detail k = []
     | Some e \<Rightarrow> k_status k = StatusExpired \<and> k_detail k = e \<and> lp_timer l = retryBackoffMin)"
  using assms(1)
proof induction
  case trace_start
  with assms show ?case by (simp add: loop_start_def last_error_def)
next
  case (trace_fire os l nxt p')
  then obtain k where k: "kp_health (lp_proc l) = Some k" by blast
  show ?case
  proof (cases "kinit_error K r (lp_proc l)")
    case None
    from refreshOnce_success [OF None trace_fire.hyps(3)] k None show ?thesis
      by (auto simp: last_error_def MarkReady_def)
  next
    case (Some e)
    with refreshOnce_failure [OF Some] trace_fire.hyps(3) k show ?thesis
      by (auto simp: last_error_def MarkExpired_def)
  qed
next
  case (trace_cancel os l)
  then show ?case by (auto split: option.splits)
qed

lemma main_ready:
  assumes "main H N K p = (Ok w, ops, p1)" "au_refresher (wh_auth w) = Some r"
  shows "\<exists>n. kp_health p1 = Some (MarkReady NewKerberos n)"
  using assms
  by (auto simp: main_def setupAuth_def Let_def split: prod.splits go.splits AuthMode.splits)

section \<open>Properties\<close>

text \<open>
  From HTTP to the wire: once the program has started from a configuration, every
  message exchanged on account of an UPDATE in the history, in any interleaving of
  any requests, goes over TCP to the configured port of a configured DC, for a
  configured zone, never in dry-run mode; it is authenticated as configured (a
  negotiated GSS context, the configured TSIG key, or unsigned in insecure mode only),
  and its prerequisite and update sections encode, entry by entry, the prerequisites
  and changes the orchestrator built.
\<close>

theorem messages_as_configured:
  assumes "fst (main H N K p) = Ok w"
    and "sys_reach (wh_opts w) (wh_world lib Ns W w) c"
    and "UpdateCall dc z ps cs \<in> set (o_wire (fst (sy_shared c)))"
    and "Exchanged cli m addr \<in> set (snd (client_Update lib (Ns n) (au_client (wh_auth w)) dc
           (opt_Port (wh_opts w)) z ps cs))"
  shows "\<exists>cfg. fst (Load H) = Ok cfg \<and> dc \<in> set (c_Hosts cfg) \<and> z \<in> set (c_Zones cfg) \<and> \<not> c_DryRun cfg \<and>
    addr = JoinHostPort dc (Itoa (c_Port cfg)) \<and> cli_Net cli = ''tcp'' \<and> authenticated (Ns n) cfg cli m addr \<and>
    msg_Op m = OpUpdate \<and> msg_Zone m = lib_Fqdn lib z \<and>
    list_all2 (encodes_prereq lib) ps (msg_Answer m) \<and> list_all2 (encodes_change lib) cs (msg_Ns m)"
proof -
  obtain cfg where cfg: "fst (Load H) = Ok cfg" "wh_opts w = options_of cfg"
    "fst (setupAuth N K cfg p) = Ok (wh_auth w)" by (rule main_Ok [OF assms(1)])
  have auth: "authenticated (Ns n) cfg cli m addr"
    using updates_authenticated [OF cfg(3) assms(4)] .
  have "dc \<in> set (opt_Hosts (wh_opts w)) \<and> z \<in> set (opt_Zones (wh_opts w)) \<and> \<not> opt_DryRun (wh_opts w)"
    using update_call_configured [OF reach_served [OF assms(2)] assms(3)] .
  moreover from client_Update_message [OF assms(4)] have "addr = JoinHostPort dc (Itoa (opt_Port (wh_opts w)))"
    "cli_Net cli = ''tcp''" "msg_Op m = OpUpdate" "msg_Zone m = lib_Fqdn lib z"
    "list_all2 (encodes_prereq lib) ps (msg_Answer m)" "list_all2 (encodes_change lib) cs (msg_Ns m)" by blast+
  ultimately show ?thesis using cfg(1,2) auth by (intro exI [of _ cfg]) (simp add: options_of_def)
qed

definition booted :: webhook where
  "booted = (case fst (main (plain_host bind_env) lossy_net plain_world plain_proc) of Ok w \<Rightarrow> w)"

lemma boots: "fst (main (plain_host bind_env) lossy_net plain_world plain_proc) = Ok booted"
proof -
  have "is_ok (fst (main (plain_host bind_env) lossy_net plain_world plain_proc))" by code_simp
  then show ?thesis by (auto simp: is_ok_def booted_def split: go.splits)
qed

definition booted_world :: world where
  "booted_world = wh_world lenient_lib (\<lambda>_. lossy_net) quiet_world booted"

definition posted_to_booted :: conc_sys where
  "posted_to_booted = (sys_init (wh_opts booted))\<lparr>sy_progs := [prog_of (wh_opts booted) (CallApply x_changes)]\<rparr>"

lemma posted_to_booted_reach: "sys_reach (wh_opts booted) booted_world posted_to_booted"
  using reach_arrive [OF reach_init, of "wh_opts booted" booted_world "CallApply x_changes"]
  by (simp add: posted_to_booted_def) (simp add: sys_init_def)

definition sent_first :: conc_sys where
  "sent_first = solo (wh_opts booted) booted_world 0 12 posted_to_booted"

definition first_exchange :: "(wire \<times> effect) option" where
  "first_exchange =
     (case o_wire (fst (sy_shared sent_first)) of
        UpdateCall dc z ps cs # ms \<Rightarrow>
          (case snd (client_Update lenient_lib lossy_net (au_client (wh_auth booted)) dc (opt_Port (wh_opts booted)) z ps cs) of
             Exchanged cli m addr # es \<Rightarrow> Some (UpdateCall dc z ps cs, Exchanged cli m addr)
           | _ \<Rightarrow> None)
      | _ \<Rightarrow> None)"

lemma first_exchange_sent: "first_exchange \<noteq> None"
  by code_simp

theorem messages_as_configured_witness:
  "\<exists>dc z ps cs cli m addr cfg. first_exchange = Some (UpdateCall dc z ps cs, Exchanged cli m addr) \<and>
     dc \<in> set (c_Hosts cfg) \<and> authenticated lossy_net cfg cli m addr"
proof -
  from first_exchange_sent obtain dc z ps cs cli m addr where f:
    "first_exchange = Some (UpdateCall dc z ps cs, Exchanged cli m addr)"
    "UpdateCall dc z ps cs \<in> set (o_wire (fst (sy_shared sent_first)))"
    "Exchanged cli m addr \<in> set (snd (client_Update lenient_lib lossy_net (au_client (wh_auth booted)) dc
       (opt_Port (wh_opts booted)) z ps cs))"
    by (auto simp: first_exchange_def split: list.splits wire.splits effect.splits)
  have "sys_reach (wh_opts booted) (wh_world lenient_lib (\<lambda>_. lossy_net) quiet_world booted) sent_first"
    unfolding sent_first_def booted_world_def [symmetric]
    by (rule solo_reach [OF posted_to_booted_reach]) (simp add: posted_to_booted_def)
  from messages_as_configured [OF boots this f(2,3)] f(1) show ?thesis by blast
qed

text \<open>
  Whatever requests a started program serves, in any number and order, with
  whatever health state, network and clock, each is answered with one of the six
  status codes the program uses.  One thing can take a reply away: a request for
  changes, with a DNS library that takes the line of a well-formed record for a blank
  one and returns no record for it.
\<close>

theorem service_answers:
  assumes "fst (main H N K p) = Ok w" "handle_all lib Ns W w qs (wh_orch w) = (rsps, s)"
  shows "list_all2 (answered_well lib) qs rsps"
proof -
  have "wh_orch w = New (wh_opts w)" by (rule main_Ok [OF assms(1)]) simp
  then have "orch_inv (wh_opts w) (wh_orch w)" by (simp add: orch_inv_New)
  from handle_all_answers [OF this assms(2)] show ?thesis by simp
qed

theorem service_answers_witness:
  "list_all2 (answered_well lenient_lib) [(None, get_records), (None, post_records ''x''), (None, get_root)]
     (fst (handle_all lenient_lib (\<lambda>_. lossy_net) quiet_world booted
        [(None, get_records), (None, post_records ''x''), (None, get_root)] (wh_orch booted)))"
  by (rule service_answers [OF boots surjective_pairing])

text \<open>
  C40. The readiness probe tells how the last refresh went: from the start of a program
  in Kerberos mode, however often the refresh timer has fired, \<open>/healthz\<close> answers 200
  while no kinit has failed since the last success, and otherwise 503 with the error
  of the last kinit, the retry being due in one minute.
\<close>

theorem healthz_tells_last_refresh:
  assumes "main H N K p = (Ok w, ops, p1)" "au_refresher (wh_auth w) = Some r"
    and "run_trace K r p1 os l"
  shows "Healthz (kp_health (lp_proc l)) =
      (case last_error os of
         None \<Rightarrow> writeWebhookJSON 200 (JHealth \<lparr>hr_OK = True, hr_Kerberos = ''ready'', hr_Detail = []\<rparr>)
       | Some e \<Rightarrow> writeWebhookJSON 503 (JHealth \<lparr>hr_OK = False, hr_Kerberos = ''expired'', hr_Detail = e\<rparr>)) \<and>
    (last_error os \<noteq> None \<longrightarrow> lp_timer l = 60 * 1000000000)"
proof -
  from main_ready [OF assms(1,2)] obtain n where "kp_health p1 = Some (MarkReady NewKerberos n)" by blast
  from run_trace_health [OF assms(3) this] obtain k where "kp_health (lp_proc l) = Some k"
    "case last_error os of
       None \<Rightarrow> k_status k = StatusReady \<and> k_detail k = []
     | Some e \<Rightarrow> k_status k = StatusExpired \<and> k_detail k = e \<and> lp_timer l = retryBackoffMin"
    by (auto simp: MarkReady_def)
  then show ?thesis
    by (auto simp: Healthz_def Snapshot_def refresh_consts split: option.splits)
qed

definition gss_env :: "(string \<times> string) list" where
  "gss_env = [(''RFC2136_HOSTS'', ''dc1.example.com''), (''RFC2136_ZONES'', ''example.com''),
     (''RFC2136_KERBEROS_REALM'', ''EXAMPLE.COM''), (''RFC2136_KERBEROS_PRINCIPAL'', ''svc@EXAMPLE.COM''),
     (''RFC2136_AD_PASSWORD'', ''secret'')]"

text \<open>The KDC answers the first kinit and none after it.\<close>

definition lost_kdc :: kworld where
  "lost_kdc = plain_world\<lparr>kw_Exec := (\<lambda>n _. if n = 0 then None else Some ''no KDC'')\<rparr>"

definition gss_start :: "(webhook \<times> Refresher \<times> fsop list \<times> kproc) option" where
  "gss_start =
     (case main (plain_host gss_env) lossy_net lost_kdc plain_proc of
        (Ok w, ops, p1) \<Rightarrow> map_option (\<lambda>r. (w, r, ops, p1)) (au_refresher (wh_auth w))
      | _ \<Rightarrow> None)"

lemma gss_start_runs:
  "case gss_start of
     None \<Rightarrow> False
   | Some (w, r, ops, p1) \<Rightarrow> kinit_error lost_kdc r p1 = Some ''kinit (password) failed: no KDC''"
  by code_simp

theorem healthz_tells_last_refresh_witness:
  "\<exists>w ops p1 r l. main (plain_host gss_env) lossy_net lost_kdc plain_proc = (Ok w, ops, p1) \<and>
     run_trace lost_kdc r p1 [Some ''kinit (password) failed: no KDC''] l \<and>
     Healthz (kp_health (lp_proc l)) =
       writeWebhookJSON 503 (JHealth \<lparr>hr_OK = False, hr_Kerberos = ''expired'',
         hr_Detail = ''kinit (password) failed: no KDC''\<rparr>) \<and> lp_timer l = 60 * 1000000000"
proof -
  from gss_start_runs obtain w r ops p1 where g:
    "gss_start = Some (w, r, ops, p1)" "kinit_error lost_kdc r p1 = Some ''kinit (password) failed: no KDC''"
    by (auto split: option.splits)
  then have m: "main (plain_host gss_env) lossy_net lost_kdc plain_proc = (Ok w, ops, p1)"
    and r: "au_refresher (wh_auth w) = Some r"
    by (auto simp: gss_start_def split: prod.splits go.splits)
  obtain nxt p' where f: "refreshOnce lost_kdc r p1 = (nxt, p')" by fastforce
  have t: "run_trace lost_kdc r p1 [Some ''kinit (password) failed: no KDC'']
      ((loop_start r p1)\<lparr>lp_proc := p', lp_timer := nxt\<rparr>)"
    using trace_fire [OF trace_start [of lost_kdc r p1]] f g(2) by (simp add: loop_start_def)
  from healthz_tells_last_refresh [OF m r t]
  show ?thesis using m t by (fastforce simp: last_error_def)
qed

end
