(* ===== verification/ConcurrentService.thy ===== *)
theory ConcurrentService
  imports Service
begin

text \<open>
  HTTP requests in flight at the same time: every request gets a goroutine, the
  handlers run the programs of \<open>Goroutines\<close> over the one orchestrator, and reply when
  those have ended.  What a program returns is known from its shape and from the
  answers of the DNS client alone.
\<close>

section \<open>What a program returns\<close>

text \<open>
  If every UPDATE comes back (\<open>B\<close>; without \<open>B\<close>: whatever comes back), the program's
  result satisfies \<open>Q\<close>.
\<close>

primrec returns :: "bool \<Rightarrow> ('a \<Rightarrow> bool) \<Rightarrow> 'a prog \<Rightarrow> bool" where
  "returns B Q (Done a) = Q a"
| "returns B Q (Act x p) = returns B Q p"
| "returns B Q (Probe dc k) = (\<forall>b. returns B Q (k b))"
| "returns B Q (CtxErr k) = (\<forall>e. returns B Q (k e))"
| "returns B Q (PinGet z k) = (\<forall>e. returns B Q (k e))"
| "returns B Q (CacheGet z k) = (\<forall>e. returns B Q (k e))"
| "returns B Q (Axfr dc z k) = (\<forall>r. returns B Q (k r))"
| "returns B Q (Update dc z ps cs k) = (\<forall>r. B \<and> r = None \<or> returns B Q (k r))"
| "returns B Q (Range ks k) = (\<forall>zs. returns B Q (k zs))"
| "returns B Q (LockFor z k) = (\<forall>m. returns B Q (k m))"
| "returns B Q (Lock m p) = returns B Q p"
| "returns B Q (Unlock m p) = returns B Q p"

lemma returns_available: "(\<And>av. returns B Q (k av)) \<Longrightarrow> returns B Q (available_prog out dcs k)"
  by (induction dcs arbitrary: out) auto

lemma returns_axfr: "(\<And>r t. returns B Q (k r t)) \<Longrightarrow> returns B Q (axfr_prog zone tried le dcs k)"
  by (induction dcs arbitrary: tried le) (auto split: option.splits)

lemma returns_list:
  "(\<And>t su out. returns B Q (k t su out)) \<Longrightarrow> returns B Q (list_prog opts av tried suc out zones k)"
  by (induction zones arbitrary: tried suc out) (auto intro!: returns_axfr split: go.splits)

lemma returns_book: "returns B Q k \<Longrightarrow> returns B Q (book_prog suc dcs k)"
  by (induction dcs) auto

lemma returns_update:
  "(\<And>r. r \<noteq> Panic \<Longrightarrow> returns True Q (k r)) \<Longrightarrow> returns True Q (update_prog zone cs n lf dcs k)"
  by (induction dcs arbitrary: lf) (auto split: option.splits)

lemma returns_applyZone:
  "(\<And>r. r \<noteq> Panic \<Longrightarrow> returns True Q (k r)) \<Longrightarrow> returns True Q (applyZone_prog opts zone cs k)"
  by (auto simp: applyZone_prog_def Let_def intro!: returns_available returns_update)

lemma returns_apply:
  assumes "\<And>r. r \<noteq> Panic \<Longrightarrow> Q (ret r)"
  shows "returns True Q (apply_prog opts (groupByZone opts ch) fe zones ret)"
proof (induction zones arbitrary: fe)
  case (Cons zone zones)
  have "buildZoneChangeSet opts c zone (zo_create ops) (zo_updateOld ops) (zo_updateNew ops) (zo_del ops) \<noteq> Panic"
    if "map_of (groupByZone opts ch) zone = Some ops" for ops c
    using groupByZone_share [OF that, THEN conjunct2] by (simp add: entry_ok_def buildZoneChangeSet_eq)
  then show ?case
    using Cons.IH by (auto intro!: returns_applyZone split: option.splits go.splits)
qed (auto simp: assms split: option.splits)

fun good_outcome :: "call \<Rightarrow> outcome \<Rightarrow> bool" where
  "good_outcome CallList a = (\<exists>r. a = Listed r \<and> r \<noteq> Panic)"
| "good_outcome (CallApply ch) a = (\<exists>r. a = Applied r \<and> r \<noteq> Panic)"

lemma returns_prog_of: "returns (call \<noteq> CallList) (good_outcome call) (prog_of opts call)"
proof (cases call)
  case CallList
  then show ?thesis
    by (auto simp: ListRecords_prog_def intro!: returns_available returns_list returns_book)
next
  case (CallApply ch)
  then show ?thesis by (simp add: ApplyChanges_prog_def Let_def returns_apply)
qed


section \<open>HTTP requests in flight\<close>

text \<open>What a handler asks of the provider, and what it answers when the provider has answered.\<close>

definition call_of :: "request \<Rightarrow> call option" where
  "call_of req =
     (case mux (req_Method req) (req_Path req) of
        RRecords \<Rightarrow> Some CallList
      | RApplyChanges \<Rightarrow>
          (case Decode_Changes (req_Body req) of
             Inl e \<Rightarrow> None
           | Inr wire \<Rightarrow> Some (CallApply (toDomainChanges wire)))
      | _ \<Rightarrow> None)"

definition reply :: "string list \<Rightarrow> Kerberos option \<Rightarrow> request \<Rightarrow> outcome option \<Rightarrow> response option" where
  "reply zones krb req a =
     fst (serve zones (\<lambda>s. (case a of Some (Listed r) \<Rightarrow> r | _ \<Rightarrow> Panic, s))
            (\<lambda>s ch. (case a of Some (Applied r) \<Rightarrow> r | _ \<Rightarrow> Panic, s)) krb req ())"

text \<open>A handler is its one call to the provider and the reply made of the result.\<close>

lemma serve_call_of:
  "serve zones lst app krb req s =
     (case call_of req of
        None \<Rightarrow> (reply zones krb req None, s)
      | Some CallList \<Rightarrow> (case lst s of (r, s') \<Rightarrow> (reply zones krb req (Some (Listed r)), s'))
      | Some (CallApply ch) \<Rightarrow> (case app s ch of (r, s') \<Rightarrow> (reply zones krb req (Some (Applied r)), s')))"
  by (auto simp: serve_def reply_def call_of_def Records_def api_ApplyChanges_def
      split: route.splits sum.splits prod.splits go.splits)

lemma reply_status: "reply zones krb req a = Some r \<Longrightarrow> rsp_Status r \<in> {200, 204, 400, 405, 500, 503}"
  by (auto simp: reply_def serve_def Records_def api_ApplyChanges_def Negotiate_def
      AdjustEndpoints_def Healthz_def writeWebhookJSON_def method_not_allowed_def Let_def Snapshot_def
      split: route.splits prod.splits go.splits sum.splits option.splits if_splits)

lemma reply_good:
  "call_of req = None \<Longrightarrow> reply zones krb req None \<noteq> None"
  "call_of req = Some call \<Longrightarrow> good_outcome call a \<Longrightarrow> reply zones krb req (Some a) \<noteq> None"
  by (auto simp: reply_def call_of_def serve_def Records_def api_ApplyChanges_def
      split: route.splits sum.splits go.splits call.splits)

text \<open>
  The requests received, each with the health state it finds and the goroutine that
  runs its call, if it makes one.
\<close>

record http_sys =
  hs_sys :: conc_sys
  hs_reqs :: "(Kerberos option \<times> request \<times> nat option) list"

inductive http_reach :: "Options \<Rightarrow> world \<Rightarrow> http_sys \<Rightarrow> bool" for opts W where
  http_start: "http_reach opts W \<lparr>hs_sys = sys_init opts, hs_reqs = []\<rparr>"
| http_call: "http_reach opts W h \<Longrightarrow> call_of req = Some call \<Longrightarrow>
    http_reach opts W
      \<lparr>hs_sys = (hs_sys h)\<lparr>sy_progs := sy_progs (hs_sys h) @ [prog_of opts call]\<rparr>,
       hs_reqs = hs_reqs h @ [(krb, req, Some (length (sy_progs (hs_sys h))))]\<rparr>"
| http_plain: "http_reach opts W h \<Longrightarrow> call_of req = None \<Longrightarrow>
    http_reach opts W (h\<lparr>hs_reqs := hs_reqs h @ [(krb, req, None)]\<rparr>)"
| http_run: "http_reach opts W h \<Longrightarrow> sys_step opts W (hs_sys h) c \<Longrightarrow> http_reach opts W (h\<lparr>hs_sys := c\<rparr>)"

lemma http_sys_reach: "http_reach opts W h \<Longrightarrow> sys_reach opts W (hs_sys h)"
  by (induction rule: http_reach.induct) (auto intro: sys_reach.intros)

text \<open>The reply to a request, once it is there.\<close>

definition answer :: "string list \<Rightarrow> conc_sys \<Rightarrow> Kerberos option \<times> request \<times> nat option \<Rightarrow> response option option" where
  "answer zones c = (\<lambda>(krb, req, slot).
     (case slot of
        None \<Rightarrow> Some (reply zones krb req None)
      | Some j \<Rightarrow>
          (case sy_progs c ! j of Done a \<Rightarrow> Some (reply zones krb req (Some a)) | _ \<Rightarrow> None)))"

text \<open>Some UPDATE that was sent did not come back.\<close>

definition unreturned :: "Options \<Rightarrow> world \<Rightarrow> Orchestrator \<Rightarrow> bool" where
  "unreturned opts W s \<longleftrightarrow>
     (\<exists>dc z ps cs n. UpdateCall dc z ps cs \<in> set (o_wire s) \<and> w_Update W n dc (opt_Port opts) z ps cs = None)"

definition slot_ok :: "Options \<Rightarrow> world \<Rightarrow> conc_sys \<Rightarrow> Kerberos option \<times> request \<times> nat option \<Rightarrow> bool" where
  "slot_ok opts W c = (\<lambda>(krb, req, slot).
     (case slot of
        None \<Rightarrow> call_of req = None
      | Some j \<Rightarrow> j < length (sy_progs c) \<and> (\<exists>call. call_of req = Some call \<and>
          (returns (call \<noteq> CallList) (good_outcome call) (sy_progs c ! j) \<or>
           call \<noteq> CallList \<and> unreturned opts W (fst (sy_shared c))))))"

lemma unreturned_mono: "unreturned opts W s \<Longrightarrow> set (o_wire s) \<subseteq> set (o_wire s') \<Longrightarrow> unreturned opts W s'"
  unfolding unreturned_def by blast

lemma prog_step_wire:
  "prog_step opts W i (s, own) p = Some ((s', own'), p') \<Longrightarrow> set (o_wire s) \<subseteq> set (o_wire s')"
proof (cases p)
  fix x q assume "prog_step opts W i (s, own) p = Some ((s', own'), p')" "p = Act x q"
  then show ?thesis by (cases x) auto
next
  fix dc k assume "prog_step opts W i (s, own) p = Some ((s', own'), p')" "p = Probe dc k"
  then show ?thesis using probe_frame [of W s dc] by (auto split: prod.splits)
qed (auto split: prod.splits option.splits)

lemma prog_step_returns:
  assumes "prog_step opts W i (s, own) p = Some ((s', own'), p')" "returns B Q p"
  shows "returns B Q p' \<or> B \<and> unreturned opts W s'"
proof (cases p)
  case (Update dc z ps cs k)
  show ?thesis
  proof (cases "w_Update W (o_tick s) dc (opt_Port opts) z ps cs")
    case None
    moreover have "UpdateCall dc z ps cs \<in> set (o_wire s')" using assms(1) Update by auto
    ultimately have "unreturned opts W s'" unfolding unreturned_def by blast
    with assms Update show ?thesis by auto
  next
    case (Some r)
    with assms Update show ?thesis by auto
  qed
qed (use assms in \<open>auto split: prod.splits option.splits\<close>)

lemma slot_ok_step:
  assumes "sys_step opts W c c'" "slot_ok opts W c q"
  shows "slot_ok opts W c' q"
  using assms(1)
proof cases
  case (sys_run i sh p)
  obtain s own where s: "sy_shared c = (s, own)" by fastforce
  obtain s' own' where s': "sh = (s', own')" by fastforce
  note st = sys_run(3) [unfolded s s']
  have u: "unreturned opts W s \<Longrightarrow> unreturned opts W s'" using unreturned_mono prog_step_wire [OF st] by blast
  obtain krb req slot where q: "q = (krb, req, slot)" by (rule prod_cases3)
  show ?thesis
  proof (cases slot)
    case (Some j)
    with assms(2) q obtain call where j: "j < length (sy_progs c)" "call_of req = Some call"
      "returns (call \<noteq> CallList) (good_outcome call) (sy_progs c ! j) \<or> call \<noteq> CallList \<and> unreturned opts W s"
      by (auto simp: slot_ok_def s)
    then have "returns (call \<noteq> CallList) (good_outcome call) ((sy_progs c)[i := p] ! j) \<or>
        call \<noteq> CallList \<and> unreturned opts W s'"
      using prog_step_returns [OF st] u by (cases "j = i") auto
    with j show ?thesis by (simp add: q Some slot_ok_def sys_run(1) s')
  qed (use assms(2) q in \<open>simp add: slot_ok_def\<close>)
qed

lemma http_slots: "http_reach opts W h \<Longrightarrow> q \<in> set (hs_reqs h) \<Longrightarrow> slot_ok opts W (hs_sys h) q"
proof (induction arbitrary: q rule: http_reach.induct)
  case (http_call h req call krb)
  show ?case
  proof (cases "q \<in> set (hs_reqs h)")
    case True
    from http_call.IH [OF this] show ?thesis
      by (auto simp: slot_ok_def nth_append split: prod.splits option.splits)
  next
    case False
    with http_call.prems have "q = (krb, req, Some (length (sy_progs (hs_sys h))))" by simp
    with http_call.hyps(2) returns_prog_of show ?thesis by (simp add: slot_ok_def)
  qed
next
  case (http_plain h req krb)
  then show ?case by (auto simp: slot_ok_def)
next
  case (http_run h c)
  then show ?case using slot_ok_step by auto
qed simp


text \<open>An UPDATE that did not come back deleted a record whose line the library took for a blank one.\<close>

lemma unreturned_blank:
  assumes "sys_reach opts (wh_world lib Ns W w) c" "opts = wh_opts w"
    and "unreturned opts (wh_world lib Ns W w) (fst (sy_shared c))"
  shows "\<exists>r. rec_Type r \<in> set (''TXT'' # supported_types) \<and> rec_Value r \<noteq> [] \<and>
    lib_NewRR lib (record_line lib r) = Inr None"
proof -
  from assms(3) obtain dc z ps cs n where u: "UpdateCall dc z ps cs \<in> set (o_wire (fst (sy_shared c)))"
    and "returned (fst (client_Update lib (Ns n) (au_client (wh_auth w)) dc (opt_Port opts) z ps cs)) = None"
    by (auto simp: unreturned_def wh_world_def)
  from returned_None [OF this(2)] obtain d where d: "d \<in> set cs"
    "lib_NewRR lib (record_line lib (chg_Record d)) = Inr None" by blast
  from served_change_sets [OF reach_served [OF assms(1)] u] obtain K ch where
    "change_set_of opts K ch z \<lparr>cs_prereqs = ps, cs_changes = cs\<rparr>" by blast
  then have "wf_cs \<lparr>cs_prereqs = ps, cs_changes = cs\<rparr>"
    by (auto simp: change_set_of_def share_of_def Let_def dest!: buildZoneChangeSet_wf)
  with d show ?thesis by (auto simp: wf_cs_def wf_change_def list_all_iff)
qed

lemma call_asks: "call_of req = Some call \<Longrightarrow> call \<noteq> CallList \<Longrightarrow> \<exists>ch. asks req ch"
  by (auto simp: call_of_def asks_def split: route.splits sum.splits)

lemma http_answers:
  assumes "http_reach (wh_opts w) (wh_world lib Ns W w) h" "q \<in> set (hs_reqs h)" "q = (krb, req, slot)"
    and "answer (opt_Zones (wh_opts w)) (hs_sys h) q = Some rsp"
  shows "answered_well lib (krb, req) rsp"
proof (cases rsp)
  case (Some r)
  with assms(3,4) have "rsp_Status r \<in> {200, 204, 400, 405, 500, 503}"
    by (auto simp: answer_def dest: reply_status split: option.splits prog.splits)
  with Some show ?thesis by (simp add: answered_well_def)
next
  case None
  note ok = http_slots [OF assms(1,2), unfolded slot_ok_def assms(3), simplified]
  show ?thesis
  proof (cases slot)
    case None
    with ok assms(3,4) reply_good(1) \<open>rsp = None\<close> show ?thesis by (auto simp: answer_def)
  next
    case (Some j)
    with ok obtain call where call: "call_of req = Some call"
      "returns (call \<noteq> CallList) (good_outcome call) (sy_progs (hs_sys h) ! j) \<or>
       call \<noteq> CallList \<and> unreturned (wh_opts w) (wh_world lib Ns W w) (fst (sy_shared (hs_sys h)))"
      by auto
    from Some assms(3,4) obtain a where a: "sy_progs (hs_sys h) ! j = Done a"
      "reply (opt_Zones (wh_opts w)) krb req (Some a) = None"
      using None by (auto simp: answer_def split: prog.splits)
    have "\<not> good_outcome call a" using reply_good(2) [OF call(1), of a] a(2) by blast
    with call(2) a(1) have "call \<noteq> CallList"
      "unreturned (wh_opts w) (wh_world lib Ns W w) (fst (sy_shared (hs_sys h)))" by auto
    with call_asks [OF call(1)] unreturned_blank [OF http_sys_reach [OF assms(1)] refl] None
    show ?thesis by (auto simp: answered_well_def blank_deletion_def)
  qed
qed

lemma all_done_answers:
  assumes "slot_ok opts W c q" "all_done c"
  shows "answer zones c q \<noteq> None"
proof -
  obtain krb req slot where q: "q = (krb, req, slot)" by (rule prod_cases3)
  show ?thesis
  proof (cases slot)
    case (Some j)
    then have "sy_progs c ! j \<in> set (sy_progs c)" using assms(1) q by (auto simp: slot_ok_def)
    with assms(2) obtain a where "sy_progs c ! j = Done a" unfolding all_done_def by blast
    then show ?thesis by (simp add: answer_def q Some)
  qed (simp add: answer_def q)
qed

lemma http_runs: "(sys_step opts W)\<^sup>*\<^sup>* c c' \<Longrightarrow> c = hs_sys h \<Longrightarrow> http_reach opts W h \<Longrightarrow> http_reach opts W (h\<lparr>hs_sys := c'\<rparr>)"
proof (induction rule: rtranclp_induct)
  case (step y z)
  then show ?case using http_run [of opts W "h\<lparr>hs_sys := y\<rparr>" z] by simp
qed simp

section \<open>From the requests to the wire\<close>

lemma served_mono: "served opts W C c \<Longrightarrow> C \<subseteq> D \<Longrightarrow> served opts W D c"
  by (induction rule: served.induct) (auto intro: served.intros)

text \<open>The change sets posted so far.\<close>

definition posted :: "http_sys \<Rightarrow> Changes set" where
  "posted h = {ch. \<exists>(krb, req, slot) \<in> set (hs_reqs h). asks req ch}"

lemma call_of_asks: "call_of req = Some (CallApply ch) \<Longrightarrow> asks req ch"
  by (auto simp: call_of_def asks_def split: route.splits sum.splits)

lemma http_served: "http_reach opts W h \<Longrightarrow> served opts W (posted h) (hs_sys h)"
proof (induction rule: http_reach.induct)
  case http_start
  show ?case by (simp add: served_init)
next
  case (http_call h req call krb)
  let ?h = "\<lparr>hs_sys = (hs_sys h)\<lparr>sy_progs := sy_progs (hs_sys h) @ [prog_of opts call]\<rparr>,
       hs_reqs = hs_reqs h @ [(krb, req, Some (length (sy_progs (hs_sys h))))]\<rparr>"
  have "served opts W (posted ?h) (hs_sys h)"
    by (rule served_mono [OF http_call.IH]) (auto simp: posted_def)
  moreover have "ch \<in> posted ?h" if "call = CallApply ch" for ch
    using call_of_asks http_call.hyps(2) that by (auto simp: posted_def)
  ultimately show ?case using served_arrive [of opts W "posted ?h" "hs_sys h" call] by simp
next
  case (http_plain h req krb)
  then show ?case by (auto simp: posted_def intro: served_mono)
next
  case (http_run h c)
  then show ?case by (auto simp: posted_def intro: served_step)
qed

section \<open>Properties\<close>


text \<open>Three requests in flight at the booted program.\<close>

definition three_requests :: http_sys where
  "three_requests =
     \<lparr>hs_sys = \<lparr>sy_shared = (New (wh_opts booted), Map.empty), sy_progs = [prog_of (wh_opts booted) CallList]\<rparr>,
      hs_reqs = [(None, get_root, None), (None, get_records, Some 0), (None, post_records ''x'', None)]\<rparr>"

lemma three_requests_reach: "http_reach (wh_opts booted) W three_requests"
proof -
  let ?o = "wh_opts booted"
  have "Option.is_none (call_of get_root)" "case call_of get_records of Some CallList \<Rightarrow> True | _ \<Rightarrow> False"
    "Option.is_none (call_of (post_records ''x''))"
    by code_simp+
  then have "call_of get_root = None" "call_of get_records = Some CallList" "call_of (post_records ''x'') = None"
    by (auto simp: Option.is_none_def split: option.splits call.splits)
  note r = http_plain [OF http_call [OF http_plain [OF http_start [of ?o W] this(1), of None] this(2), of None] this(3), of None]
  then show ?thesis by (simp add: three_requests_def sys_init_def)
qed


text \<open>
  C28. From the bytes of a request to the wire: once the program has started from a
  configuration, every message exchanged on account of an UPDATE in the history, in
  any interleaving of any HTTP requests, goes over TCP to the configured port of a
  configured DC, for a configured zone, never in dry-run mode; it is authenticated as
  configured (a negotiated GSS context, the configured TSIG key, or unsigned in
  insecure mode only); and its sections encode, entry by entry, the change set built
  for that zone's share of the changes decoded from the body of some request received.
\<close>

theorem posted_to_wire:
  assumes "fst (main H N K p) = Ok w"
    and "http_reach (wh_opts w) (wh_world lib Ns W w) h"
    and "UpdateCall dc z ps cs \<in> set (o_wire (fst (sy_shared (hs_sys h))))"
    and "Exchanged cli m addr \<in> set (snd (client_Update lib (Ns n) (au_client (wh_auth w)) dc
           (opt_Port (wh_opts w)) z ps cs))"
  shows "\<exists>cfg. fst (Load H) = Ok cfg \<and> dc \<in> set (c_Hosts cfg) \<and> z \<in> set (c_Zones cfg) \<and> \<not> c_DryRun cfg \<and>
    addr = JoinHostPort dc (Itoa (c_Port cfg)) \<and> cli_Net cli = ''tcp'' \<and> authenticated (Ns n) cfg cli m addr \<and>
    msg_Op m = OpUpdate \<and> msg_Zone m = lib_Fqdn lib z \<and>
    list_all2 (encodes_prereq lib) ps (msg_Answer m) \<and> list_all2 (encodes_change lib) cs (msg_Ns m) \<and>
    (\<exists>(krb, req, slot) \<in> set (hs_reqs h). \<exists>ch. asks req ch \<and>
       (\<exists>entry. let ops = share_of (wh_opts w) ch z
        in buildZoneChangeSet (wh_opts w) (cache_entry z entry) z
             (zo_create ops) (zo_updateOld ops) (zo_updateNew ops) (zo_del ops) =
           Ok \<lparr>cs_prereqs = ps, cs_changes = cs\<rparr>))"
proof -
  from served_change_sets [OF http_served [OF assms(2)] assms(3)] obtain K ch where
    "ch \<in> posted h" "change_set_of (wh_opts w) K ch z \<lparr>cs_prereqs = ps, cs_changes = cs\<rparr>" by blast
  then have "\<exists>(krb, req, slot) \<in> set (hs_reqs h). \<exists>ch. asks req ch \<and>
       (\<exists>entry. let ops = share_of (wh_opts w) ch z
        in buildZoneChangeSet (wh_opts w) (cache_entry z entry) z
             (zo_create ops) (zo_updateOld ops) (zo_updateNew ops) (zo_del ops) =
           Ok \<lparr>cs_prereqs = ps, cs_changes = cs\<rparr>)"
    by (auto simp: change_set_of_def posted_def) blast
  with messages_as_configured [OF assms(1) http_sys_reach [OF assms(2)] assms(3,4)] show ?thesis by blast
qed

definition wire_changes :: WireChanges where
  "wire_changes = \<lparr>wc_Create = [toWireEndpoint (Some (prod_endpoint ''x.example.com'' ''1.1.1.1''))],
     wc_UpdateOld = [], wc_UpdateNew = [], wc_Delete = []\<rparr>"

definition create_request :: request where
  "create_request = post_records (json_Encode (Changes_json wire_changes))"

lemma create_request_call: "call_of create_request = Some (CallApply x_changes)"
proof -
  have "ascii ''x.example.com''" "ascii ''1.1.1.1''" "ascii ''A''" "ascii ''owner''" "ascii ''prod''" by code_simp+
  then have "changes_ok wire_changes"
    by (auto simp: wire_changes_def changes_ok_def wires_ok_def wire_ok_def toWireEndpoint_def prod_endpoint_def
        labels_ok_def in_int64_def int64_defs ascii_utf8_valid)
  from Changes_roundtrip [OF this]
  have "Decode_Changes (json_Encode (Changes_json wire_changes)) = Inr (norm_changes wire_changes)" .
  moreover have "toDomainChanges (norm_changes wire_changes) = x_changes"
    by (simp add: toDomainChanges_def norm_changes_def wire_changes_def x_changes_def norm_ptrs_def toWireEndpoint_def
        prod_endpoint_def norm_labels_def no_labels_def)
  moreover have "mux ''POST'' ''/records'' = RApplyChanges" by (simp add: mux_def)
  ultimately show ?thesis by (simp add: call_of_def create_request_def post_records_def)
qed

definition http_sent :: http_sys where
  "http_sent = \<lparr>hs_sys = sent_first, hs_reqs = [(None, create_request, Some 0)]\<rparr>"

lemma solo_runs: "i < length (sy_progs c) \<Longrightarrow> (sys_step opts W)\<^sup>*\<^sup>* c (solo opts W i n c)"
proof (induction n arbitrary: c)
  case (Suc n)
  show ?case
  proof (cases "prog_step opts W i (sy_shared c) (sy_progs c ! i)")
    case (Some x)
    obtain sh p where x: "x = (sh, p)" by fastforce
    let ?c = "\<lparr>sy_shared = sh, sy_progs = (sy_progs c)[i := p]\<rparr>"
    have "sys_step opts W c ?c" using sys_run [OF Suc.prems] Some x by blast
    moreover have "(sys_step opts W)\<^sup>*\<^sup>* ?c (solo opts W i n ?c)" using Suc.prems by (intro Suc.IH) simp
    ultimately show ?thesis using Some x by (auto intro: converse_rtranclp_into_rtranclp)
  qed simp
qed simp

lemma http_sent_reach: "http_reach (wh_opts booted) booted_world http_sent"
proof -
  let ?h = "\<lparr>hs_sys = posted_to_booted, hs_reqs = [(None, create_request, Some 0)]\<rparr>"
  have "http_reach (wh_opts booted) booted_world ?h"
    using http_call [OF http_start [of "wh_opts booted" booted_world] create_request_call, of None]
    by (simp add: posted_to_booted_def) (simp add: sys_init_def)
  from http_runs [OF solo_runs [of 0 posted_to_booted "wh_opts booted" booted_world 12] _ this]
  show ?thesis by (simp add: http_sent_def sent_first_def posted_to_booted_def)
qed

theorem posted_to_wire_witness:
  "\<exists>dc z ps cs cli m addr cfg. first_exchange = Some (UpdateCall dc z ps cs, Exchanged cli m addr) \<and>
     dc \<in> set (c_Hosts cfg) \<and> authenticated lossy_net cfg cli m addr \<and>
     (\<exists>ch. asks create_request ch)"
proof -
  from first_exchange_sent obtain dc z ps cs cli m addr where f:
    "first_exchange = Some (UpdateCall dc z ps cs, Exchanged cli m addr)"
    "UpdateCall dc z ps cs \<in> set (o_wire (fst (sy_shared sent_first)))"
    "Exchanged cli m addr \<in> set (snd (client_Update lenient_lib lossy_net (au_client (wh_auth booted)) dc
       (opt_Port (wh_opts booted)) z ps cs))"
    by (auto simp: first_exchange_def split: list.splits wire.splits effect.splits)
  then have u: "UpdateCall dc z ps cs \<in> set (o_wire (fst (sy_shared (hs_sys http_sent))))"
    by (simp add: http_sent_def)
  from posted_to_wire [OF boots http_sent_reach [unfolded booted_world_def] u f(3)] f(1)
  show ?thesis by (auto simp: http_sent_def) blast
qed

end
