(* ===== verification/WireRecords.thy ===== *)
theory WireRecords
  imports DnsAxfr
begin

text \<open>
  From the records the orchestrator asks for to the records in the message and back.
  \<open>dnsop\<close> prints every record as a line of a zone file and leaves it to \<open>dns.NewRR\<close> to
  read it; a transfer goes the other way through \<open>rrToRecord\<close>.  For clean names and
  data the message says exactly what was asked.  For others it need not: a semicolon
  in a name ends the line early.
\<close>

section \<open>Clean names and data\<close>

definition name_char :: "char \<Rightarrow> bool" where
  "name_char c = (let n = (of_char c :: nat)
     in 48 \<le> n \<and> n \<le> 57 \<or> 65 \<le> n \<and> n \<le> 90 \<or> 97 \<le> n \<and> n \<le> 122 \<or> c = CHR ''-'' \<or> c = CHR ''_'' \<or> c = CHR ''*'')"

definition name_label :: "string \<Rightarrow> bool" where
  "name_label l \<longleftrightarrow> l \<noteq> [] \<and> length l \<le> 63 \<and> list_all name_char l"

text \<open>A name without its final dot.\<close>

definition domain_name :: "string \<Rightarrow> bool" where
  "domain_name n \<longleftrightarrow> length n \<le> 253 \<and> list_all name_label (Split n CHR ''.'')"

text \<open>What may stand between the quotes of a TXT string and stands for itself there.\<close>

definition text_char :: "char \<Rightarrow> bool" where
  "text_char c = (let n = (of_char c :: nat) in 32 \<le> n \<and> n \<le> 126 \<and> n \<noteq> 34 \<and> n \<noteq> 92)"

definition clean_text :: "string \<Rightarrow> bool" where
  "clean_text s \<longleftrightarrow> length s \<le> 255 \<and> list_all text_char s"

text \<open>
  The data of a record, as printed and as read.  The text form of IPv6 addresses has
  no short description and is left out.
\<close>

fun data_text :: "string \<Rightarrow> string \<Rightarrow> rdata \<Rightarrow> bool" where
  "data_text t v (RD_TXT chunks) = (t = ''TXT'' \<and> (\<exists>s. clean_text s \<and> chunks = [s] \<and> v = quote # s @ [quote]))"
| "data_text t v (RD_CNAME h) = (t = ''CNAME'' \<and> v = h \<and> (\<exists>n. domain_name n \<and> h = n @ ''.''))"
| "data_text t v (RD_NS h) = (t = ''NS'' \<and> v = h \<and> (\<exists>n. domain_name n \<and> h = n @ ''.''))"
| "data_text t v (RD_MX p h) = (t = ''MX'' \<and> v = Itoa (uint p) @ '' '' @ h \<and> (\<exists>n. domain_name n \<and> h = n @ ''.''))"
| "data_text t v (RD_A ip) = (t = ''A'' \<and> length ip = 4 \<and> v = IP_String ip)"
| "data_text t v _ = False"

definition clean_record :: "Record \<Rightarrow> bool" where
  "clean_record r \<longleftrightarrow> domain_name (rec_Name r) \<and> 0 \<le> rec_TTL r \<and> rec_TTL r < 2 ^ 31 \<and>
     (\<exists>d. data_text (rec_Type r) (rec_Value r) d)"

text \<open>
  The documented behaviour of \<open>dns.Fqdn\<close> and \<open>dns.NewRR\<close> on clean lines: the name gets
  its final dot, the line is read as RFC 1035 section 5 says.
\<close>

definition reads_zone_lines :: "dnslib \<Rightarrow> bool" where
  "reads_zone_lines lib \<longleftrightarrow>
     (\<forall>n. domain_name n \<longrightarrow> lib_Fqdn lib n = n @ ''.'') \<and>
     (\<forall>n ttl t v d. domain_name n \<longrightarrow> 0 \<le> ttl \<longrightarrow> ttl < 2 ^ 31 \<longrightarrow> data_text t v d \<longrightarrow>
        (\<exists>rr. lib_NewRR lib (rr_text (n @ ''.'') ttl t v) = Inr (Some rr) \<and> RR_data rr = d \<and>
           hdr_Name (RR_hdr rr) = n @ ''.'' \<and> hdr_Class (RR_hdr rr) = ClassINET \<and> hdr_Ttl (RR_hdr rr) = word_of_int ttl))"

section \<open>What an entry of a message says\<close>

text \<open>Equal as DNS records: case and final dot of names do not matter.\<close>

definition same_record :: "Record \<Rightarrow> Record \<Rightarrow> bool" where
  "same_record r s \<longleftrightarrow> normalizeName (rec_Name r) = normalizeName (rec_Name s) \<and> rec_Type r = rec_Type s \<and>
     same_data (rec_Type s) (rec_Value r) (rec_Value s)"

definition says_change :: "Change \<Rightarrow> RR option \<Rightarrow> bool" where
  "says_change c o_rr \<longleftrightarrow> (\<exists>rr r. o_rr = Some rr \<and> rrToRecord rr = Some r \<and> same_record r (chg_Record c) \<and>
     claim r = claim (chg_Record c) \<and>
     (if chg_Op c = ''add'' then hdr_Class (RR_hdr rr) = ClassINET \<and> rec_TTL r = rec_TTL (chg_Record c)
      else chg_Op c = ''delete'' \<and> hdr_Class (RR_hdr rr) = ClassNONE \<and> hdr_Ttl (RR_hdr rr) = 0))"

definition says_prereq :: "dnslib \<Rightarrow> Prereq \<Rightarrow> RR option \<Rightarrow> bool" where
  "says_prereq lib p o_rr \<longleftrightarrow> (\<exists>rr. o_rr = Some rr \<and> hdr_Name (RR_hdr rr) = pre_Name p @ ''.'' \<and> hdr_Ttl (RR_hdr rr) = 0 \<and>
     (if pre_Kind p = ''NXRRSET''
      then RR_data rr = RD_ANY \<and> hdr_Class (RR_hdr rr) = ClassNONE \<and>
        lib_StringToType lib (pre_Type p) = Some (hdr_Rrtype (RR_hdr rr))
      else hdr_Class (RR_hdr rr) = ClassINET \<and>
        (\<exists>r. rrToRecord rr = Some r \<and> rec_Type r = pre_Type p \<and> rec_Value r = pre_Value p)))"

section \<open>Reading back\<close>

lemma domain_name_undotted:
  assumes "domain_name n"
  shows "n \<noteq> [] \<and> \<not> HasSuffix n ''.''"
proof -
  have l: "\<forall>l \<in> set (Split n CHR ''.''). l \<noteq> []" using assms by (auto simp: domain_name_def name_label_def list_all_iff)
  have "Split (m @ ''.'') CHR ''.'' = Split m CHR ''.'' @ [[]]" for m
  proof (induction m)
    case (Cons c m)
    then show ?case by (cases "Split m CHR ''.''") auto
  qed simp
  with l show ?thesis by (auto simp: HasSuffix_iff)
qed

lemma wire_name: "domain_name n \<Longrightarrow> TrimSuffix (ToLower (n @ ''.'')) ''.'' = ToLower n"
  using TrimSuffix_append [of "ToLower n" "''.''"] by (simp add: lower_char_def)

lemma normalize_lower: "domain_name n \<Longrightarrow> normalizeName (ToLower n) = normalizeName n"
  using domain_name_undotted [of n] by (simp add: normalizeName_def)

lemma name_char_solid: "name_char c \<Longrightarrow> \<not> isSpace c"
  by (auto simp: name_char_def isSpace_def Let_def)

lemma Split_covers: "set s \<subseteq> insert d (\<Union>l \<in> set (Split s d). set l)"
proof (induction s)
  case (Cons c s)
  then show ?case by (cases "Split s d") auto
qed simp

lemma domain_name_solid:
  assumes "domain_name n"
  shows "solid n"
proof -
  have "c = CHR ''.'' \<or> name_char c" if "c \<in> set n" for c
    using that Split_covers [of n "CHR ''.''"] assms by (auto simp: domain_name_def name_label_def list_all_iff)
  then have "\<not> isSpace c" if "c \<in> set n" for c
    using that name_char_solid by (force simp: isSpace_def)
  then show ?thesis using domain_name_undotted [OF assms] by (simp add: solid_def)
qed

text \<open>What \<open>rrToRecord\<close> makes of clean data is the same data.\<close>

lemma solid_dot: "solid n \<Longrightarrow> solid (n @ ''.'')"
  by (auto simp: solid_def isSpace_def)

lemma same_host:
  assumes "domain_name n" "t = ''CNAME'' \<or> t = ''NS''"
  shows "canonicalRdata t (ToLower n) = canonicalRdata t (n @ ''.'')"
proof -
  have "TrimSpace (n @ ''.'') = n @ ''.''" using domain_name_solid [OF assms(1)] by (intro solid_TrimSpace solid_dot)
  then have "canonicalRdata t (n @ ''.'') = ToLower n @ ''.''"
    using assms(2) by (auto simp: canonicalRdata_def dotted_def lower_char_def HasSuffix_single Let_def)
  then show ?thesis
    using canonical_host [OF domain_name_solid [OF assms(1)] _ assms(2)] domain_name_undotted [OF assms(1)] by simp
qed

lemma same_mx:
  assumes "domain_name n"
  shows "canonicalRdata ''MX'' (nat_digits k @ '' '' @ ToLower n) = canonicalRdata ''MX'' (nat_digits k @ '' '' @ n @ ''.'')"
proof -
  have p: "\<forall>c \<in> set (nat_digits k). \<not> isSpace c" using nat_digits_isDigit [of k] digits_not_space by (auto simp: list_all_iff)
  have h: "n @ ''.'' \<noteq> []" "\<forall>c \<in> set (n @ ''.''). \<not> isSpace c"
    using solid_dot [OF domain_name_solid [OF assms]] by (auto simp: solid_def)
  have "TrimSpace (nat_digits k @ '' '' @ n @ ''.'') = nat_digits k @ '' '' @ n @ ''.''"
    using p h by (intro TrimSpace_nonspace) auto
  then have "canonicalRdata ''MX'' (nat_digits k @ '' '' @ n @ ''.'') = nat_digits k @ '' '' @ ToLower n @ ''.''"
    using Fields_two [OF p h(2) nat_digits_nonempty h(1)]
    by (simp add: canonicalRdata_def dotted_def lower_char_def HasSuffix_single Let_def)
  then show ?thesis
    using canonical_mx [OF domain_name_solid [OF assms]] domain_name_undotted [OF assms] by simp
qed

lemma read_data:
  assumes "data_text t v d" "RR_data rr = d"
  shows "\<exists>r. rrToRecord rr = Some r \<and> rec_Type r = t \<and> rec_Name r = TrimSuffix (ToLower (hdr_Name (RR_hdr rr))) ''.'' \<and>
    rec_TTL r = uint (hdr_Ttl (RR_hdr rr)) \<and> same_data t (rec_Value r) v \<and> (t = ''TXT'' \<longrightarrow> rec_Value r = v)"
proof (cases d)
  case (RD_CNAME h)
  with assms obtain n where n: "domain_name n" "h = n @ ''.''" "t = ''CNAME''" "v = h" by auto
  with RD_CNAME assms(2) same_host [OF n(1)] show ?thesis
    by (simp add: rrToRecord_def Let_def host_value_dot [simplified] same_data_def)
next
  case (RD_NS h)
  with assms obtain n where n: "domain_name n" "h = n @ ''.''" "t = ''NS''" "v = h" by auto
  with RD_NS assms(2) same_host [OF n(1)] show ?thesis
    by (simp add: rrToRecord_def Let_def host_value_dot [simplified] same_data_def)
next
  case (RD_MX p h)
  with assms obtain n where n: "domain_name n" "h = n @ ''.''" "t = ''MX''" "v = Itoa (uint p) @ '' '' @ h" by auto
  with RD_MX assms(2) same_mx [OF n(1)] show ?thesis
    by (simp add: rrToRecord_def Let_def host_value_dot [simplified] same_data_def Itoa_def)
qed (use assms in \<open>auto simp: rrToRecord_def Let_def same_data_def quote_def\<close>)

lemma sent_change:
  assumes "reads_zone_lines lib" "clean_record (chg_Record c)" "chg_Op c \<in> {''add'', ''delete''}"
  shows "\<exists>o_rr. changeRR lib c = Ok o_rr \<and> says_change c o_rr"
proof -
  let ?r = "chg_Record c"
  from assms(2) obtain d where r: "domain_name (rec_Name ?r)" "0 \<le> rec_TTL ?r" "rec_TTL ?r < 2 ^ 31"
    "data_text (rec_Type ?r) (rec_Value ?r) d" by (auto simp: clean_record_def)
  with assms(1) obtain rr where rr:
    "lib_NewRR lib (rr_text (rec_Name ?r @ ''.'') (rec_TTL ?r) (rec_Type ?r) (rec_Value ?r)) = Inr (Some rr)"
    "RR_data rr = d" "hdr_Name (RR_hdr rr) = rec_Name ?r @ ''.''" "hdr_Class (RR_hdr rr) = ClassINET"
    "hdr_Ttl (RR_hdr rr) = word_of_int (rec_TTL ?r)"
    unfolding reads_zone_lines_def by blast
  have fq: "lib_Fqdn lib (rec_Name ?r) = rec_Name ?r @ ''.''" using assms(1) r(1) by (simp add: reads_zone_lines_def)
  have ttl: "uint (word_of_int (rec_TTL ?r) :: 32 word) = rec_TTL ?r"
    using r(2,3) by (simp add: uint_word_of_int_eq take_bit_int_eq_self)
  define out where "out = (if chg_Op c = ''add'' then rr
    else rr\<lparr>RR_hdr := (RR_hdr rr)\<lparr>hdr_Class := ClassNONE, hdr_Ttl := 0\<rparr>\<rparr>)"
  have "changeRR lib c = Ok (Some out)"
    using assms(3) rr(1) fq by (auto simp: changeRR_def recordToRR_def as_deletion_def out_def Let_def)
  moreover have "RR_data out = d" "hdr_Name (RR_hdr out) = rec_Name ?r @ ''.''" by (simp_all add: out_def rr)
  from read_data [OF r(4) this(1)] this(2) obtain x where x: "rrToRecord out = Some x" "rec_Type x = rec_Type ?r"
    "rec_Name x = ToLower (rec_Name ?r)" "rec_TTL x = uint (hdr_Ttl (RR_hdr out))"
    "same_data (rec_Type ?r) (rec_Value x) (rec_Value ?r)" "rec_Type ?r = ''TXT'' \<longrightarrow> rec_Value x = rec_Value ?r"
    using wire_name [OF r(1)] by auto
  have n: "normalizeName (rec_Name x) = normalizeName (rec_Name ?r)" using normalize_lower [OF r(1)] x(3) by simp
  have "claim x = claim ?r"
    using decodeOwnershipName_cong [OF n] x(2,6) by (auto simp: claim_def split: option.splits)
  with x n have "says_change c (Some out)"
    using assms(3) rr(4,5) ttl by (auto simp: says_change_def same_record_def out_def)
  ultimately show ?thesis by blast
qed

definition clean_prereq :: "Prereq \<Rightarrow> bool" where
  "clean_prereq p \<longleftrightarrow> domain_name (pre_Name p) \<and>
     (pre_Kind p = ''NXRRSET'' \<and> pre_Type p \<in> set (''TXT'' # supported_types) \<or>
      pre_Kind p = ''YXRRSET'' \<and> pre_Type p = ''TXT'' \<and> (\<exists>s. clean_text s \<and> pre_Value p = quote # s @ [quote]))"

lemma sent_prereq:
  assumes "reads_zone_lines lib" "knows_types lib" "clean_prereq p"
  shows "\<exists>o_rr. buildPrereqRR lib p = Ok o_rr \<and> says_prereq lib p o_rr"
proof -
  have n: "domain_name (pre_Name p)" and fq: "lib_Fqdn lib (pre_Name p) = pre_Name p @ ''.''"
    using assms(1,3) by (simp_all add: clean_prereq_def reads_zone_lines_def)
  have t: "pre_Type p \<in> set (''TXT'' # supported_types)" using assms(3) by (auto simp: clean_prereq_def)
  with assms(2) obtain ty where ty: "lib_StringToType lib (pre_Type p) = Some ty" unfolding knows_types_def by fastforce
  have up: "ToUpper (pre_Type p) = pre_Type p" using t by (rule supported_ToUpper)
  show ?thesis
  proof (cases "pre_Kind p = ''NXRRSET''")
    case True
    with ty up fq show ?thesis by (simp add: buildPrereqRR_def says_prereq_def Let_def)
  next
    case False
    with assms(3) obtain s where p: "pre_Kind p = ''YXRRSET''" "pre_Type p = ''TXT''" "clean_text s"
      "pre_Value p = quote # s @ [quote]" by (auto simp: clean_prereq_def)
    then have d: "data_text ''TXT'' (pre_Value p) (RD_TXT [s])" by simp
    with assms(1) n obtain rr where rr:
      "lib_NewRR lib (rr_text (pre_Name p @ ''.'') 0 ''TXT'' (pre_Value p)) = Inr (Some rr)" "RR_data rr = RD_TXT [s]"
      "hdr_Name (RR_hdr rr) = pre_Name p @ ''.''" "hdr_Class (RR_hdr rr) = ClassINET" "hdr_Ttl (RR_hdr rr) = word_of_int 0"
      unfolding reads_zone_lines_def by (metis order_refl zero_less_numeral zero_less_power)
    with ty up fq p have "buildPrereqRR lib p = Ok (Some rr)" by (simp add: buildPrereqRR_def Let_def)
    moreover have "says_prereq lib p (Some rr)" using rr p read_data [OF d rr(2)] by (auto simp: says_prereq_def)
    ultimately show ?thesis by blast
  qed
qed

lemma map_go_all: "(\<And>x. x \<in> set xs \<Longrightarrow> \<exists>y. f x = Ok y \<and> P x y) \<Longrightarrow> \<exists>ys. map_go f xs = Ok ys \<and> list_all2 P xs ys"
proof (induction xs)
  case (Cons x xs)
  obtain y where y: "f x = Ok y" "P x y" using Cons.prems by (meson list.set_intros(1))
  moreover obtain ys where "map_go f xs = Ok ys" "list_all2 P xs ys" using Cons by (meson list.set_intros(2))
  ultimately show ?case by simp
qed simp

lemma sent_message:
  assumes "reads_zone_lines lib" "knows_types lib" "\<And>p. p \<in> set ps \<Longrightarrow> clean_prereq p"
    and "\<And>c. c \<in> set cs \<Longrightarrow> clean_record (chg_Record c) \<and> chg_Op c \<in> {''add'', ''delete''}"
  shows "\<exists>m. BuildUpdateMsg lib zone ps cs = Ok m \<and> list_all2 (says_prereq lib) ps (msg_Answer m) \<and>
    list_all2 says_change cs (msg_Ns m)"
proof -
  obtain answer where "map_go (buildPrereqRR lib) ps = Ok answer" "list_all2 (says_prereq lib) ps answer"
    using map_go_all [of ps "buildPrereqRR lib" "says_prereq lib"] sent_prereq [OF assms(1,2)] assms(3) by blast
  moreover obtain ns where "map_go (changeRR lib) cs = Ok ns" "list_all2 says_change cs ns"
    using map_go_all [of cs "changeRR lib" says_change] sent_change [OF assms(1)] assms(4) by blast
  ultimately show ?thesis by (simp add: BuildUpdateMsg_def)
qed

section \<open>The orchestrator's change sets\<close>

text \<open>An endpoint whose records, marker names and owner label are clean.\<close>

definition clean_endpoint :: "Options \<Rightarrow> Endpoint \<Rightarrow> bool" where
  "clean_endpoint opts e \<longleftrightarrow>
     (\<forall>w. ownerFromEndpoint (Some e) = Some w \<longrightarrow> length w \<le> 246 \<and> list_all text_char w) \<and>
     (\<forall>r \<in> set (endpointToRecords opts (Some e)). clean_record r \<and>
        domain_name (ownershipNameFor (rec_Type r) (rec_Name r)))"

lemma clean_marker:
  assumes "length w \<le> 246" "list_all text_char w"
  shows "\<exists>s. clean_text s \<and> encodeOwnership w = quote # s @ [quote]"
  using assms by (intro exI [of _ "''owned-by='' @ w"])
    (simp add: encodeOwnership_def owned_by_prefix_def clean_text_def text_char_def)

lemma clean_txt:
  assumes "domain_name n" "0 \<le> ttl" "ttl < 2 ^ 31" "length w \<le> 246" "list_all text_char w"
  shows "clean_record (txt_rec n ttl (encodeOwnership w))" "clean_prereq (yx_txt n (encodeOwnership w))"
    "clean_prereq (nxrrset n ''TXT'')"
proof -
  obtain s where s: "clean_text s" "encodeOwnership w = quote # s @ [quote]" using clean_marker [OF assms(4,5)] by blast
  then have "\<exists>d. data_text ''TXT'' (encodeOwnership w) d" by (intro exI [of _ "RD_TXT [s]"]) simp
  with assms(1-3) show "clean_record (txt_rec n ttl (encodeOwnership w))" by (simp add: clean_record_def txt_rec_def)
  from s assms(1) show "clean_prereq (yx_txt n (encodeOwnership w))" "clean_prereq (nxrrset n ''TXT'')"
    by (auto simp: clean_prereq_def yx_txt_def nxrrset_def)
qed

definition clean_cs :: "zoneChangeSet \<Rightarrow> bool" where
  "clean_cs cs \<longleftrightarrow> (\<forall>p \<in> set (cs_prereqs cs). clean_prereq p) \<and>
     (\<forall>c \<in> set (cs_changes cs). clean_record (chg_Record c) \<and> chg_Op c \<in> {''add'', ''delete''})"

lemma clean_emits:
  assumes e: "clean_endpoint opts e" "ownerFromEndpoint (Some e) = Some w" "r \<in> set (endpointToRecords opts (Some e))"
  shows "clean_cs (create_emit opts cached orphans w r)" "clean_cs (delete_emit w r)" "clean_cs (old_emit w r)"
proof -
  have w: "length w \<le> 246" "list_all text_char w" and r: "clean_record r"
    and m: "domain_name (ownershipNameFor (rec_Type r) (rec_Name r))" using e by (auto simp: clean_endpoint_def)
  then have ttl: "0 \<le> rec_TTL r" "rec_TTL r < 2 ^ 31" "domain_name (rec_Name r)" by (auto simp: clean_record_def)
  have nx: "clean_prereq (nxrrset (rec_Name r) (rec_Type r))"
    using ttl(3) endpointToRecords_fields(3) [OF e(3)] by (simp add: clean_prereq_def nxrrset_def)
  note t = clean_txt [OF m _ _ w]
  show "clean_cs (create_emit opts cached orphans w r)" "clean_cs (delete_emit w r)" "clean_cs (old_emit w r)"
    using t [OF ttl(1,2)] t(1,2) [of 0] nx r
    by (auto simp: clean_cs_def create_emit_def delete_emit_def old_emit_def add_rec_def del_rec_def cs_empty_def Let_def)
qed

lemma clean_new: "clean_endpoint opts e \<Longrightarrow> r \<in> set (endpointToRecords opts (Some e)) \<Longrightarrow> clean_cs (new_emit r)"
  by (simp add: clean_cs_def new_emit_def add_rec_def clean_endpoint_def)

lemma clean_built:
  assumes "buildZoneChangeSet opts cache zone creates olds news dels = Ok cs" "length olds = length news"
    and "\<forall>e \<in> set creates \<union> set olds \<union> set news \<union> set dels. clean_endpoint opts e"
  shows "clean_cs cs"
proof -
  have c: "clean_cs (create_part opts cached e)" if "e \<in> set creates" for e cached
    using that assms(3) clean_emits(1) by (fastforce simp: create_part_def clean_cs_def owned_records_iff)
  have d: "clean_cs (delete_part opts e)" if "e \<in> set dels" for e
    using that assms(3) clean_emits(2) by (fastforce simp: delete_part_def clean_cs_def owned_records_iff)
  have u: "clean_cs (update_part opts (oldE, newE))" if "(oldE, newE) \<in> set (zip olds news)" for oldE newE
  proof -
    have "clean_endpoint opts oldE" "clean_endpoint opts newE"
      using that assms(3) by (auto dest: set_zip_leftD set_zip_rightD)
    then show ?thesis
      using clean_emits(3) clean_new by (fastforce simp: update_part_def clean_cs_def cs_empty_def split: option.splits)
  qed
  show ?thesis
    unfolding clean_cs_def build_sets [OF assms(1,2)]
    using c d u by (fastforce simp: clean_cs_def)
qed

section \<open>A name with a semicolon\<close>

text \<open>A semicolon outside quotes and parentheses starts a comment (RFC 1035 section 5.1).\<close>

definition skips_comments :: "dnslib \<Rightarrow> bool" where
  "skips_comments lib \<longleftrightarrow> (\<forall>x y. set x \<inter> {quote, CHR 0x5C, CHR ''('', CHR '')''} = {} \<longrightarrow>
     lib_NewRR lib (x @ '';'' @ y) = lib_NewRR lib x)"

definition line_endpoint :: "string \<Rightarrow> string \<Rightarrow> string \<Rightarrow> Endpoint" where
  "line_endpoint l z w = \<lparr>ep_DNSName = l @ '' ;.'' @ z, ep_Targets = [''192.0.2.1''], ep_RecordType = ''A'',
     ep_RecordTTL = 300, ep_Labels = Some [''owner'' \<mapsto> w]\<rparr>"

text \<open>
  Names are neither checked nor escaped, so a name can be a line of its own: the
  endpoint below belongs to zone \<open>z\<close>, but its create adds the record the line \<open>l\<close>
  describes, of whatever name, and no prerequisite of the UPDATE is about that name.
\<close>

lemma semicolon_ends_line:
  assumes "skips_comments lib" "lib_Fqdn lib (l @ '' ;.'' @ z) = l @ '' ;.'' @ z @ ''.''"
    and l: "set l \<inter> {quote, CHR 0x5C, CHR ''('', CHR '')''} = {}" "ToLower l = l"
    and z: "ToLower z = z" "z \<noteq> []" "\<not> HasSuffix z ''.''" and w: "w \<noteq> []"
    and built: "buildZoneChangeSet opts NewAXFRCache zone [line_endpoint l z w] [] [] [] = Ok cs"
  shows "under (normalizeName (ep_DNSName (line_endpoint l z w))) z \<and>
    (\<exists>c \<in> set (cs_changes cs). chg_Op c = ''add'' \<and>
       (\<forall>rr. lib_NewRR lib (l @ '' '') = Inr rr \<longrightarrow> changeRR lib c = Ok rr)) \<and>
    (\<forall>p \<in> set (cs_prereqs cs). pre_Name p \<in> {l @ '' ;.'' @ z, ownershipNameFor ''A'' (l @ '' ;.'' @ z)})"
proof -
  let ?n = "l @ '' ;.'' @ z" and ?e = "line_endpoint l z w"
  let ?r = "\<lparr>rec_Name = ?n, rec_Type = ''A'', rec_TTL = clampTTL opts 300, rec_Value = ''192.0.2.1''\<rparr>"
  have n: "normalizeName ?n = ?n"
    using l(2) z by (simp add: normalizeName_def HasSuffix_single lower_char_def)
  have v: "canonicalRdata ''A'' ''192.0.2.1'' = ''192.0.2.1''" by code_simp
  have recs: "endpointToRecords opts (Some ?e) = [?r]"
    using n v by (simp add: endpointToRecords_def line_endpoint_def supported_types_def ToUpper_def upper_char_def)
  have own: "ownerFromEndpoint (Some ?e) = Some w" using w by (simp add: ownerFromEndpoint_def line_endpoint_def)
  have "cs = create_part opts [] ?e"
    using built by (simp add: buildZoneChangeSet_eq slice_at_def NewAXFRCache_def cache_Get_def)
  then have cs: "cs = create_emit opts (indexByName []) (orphanOwnership []) w ?r"
    using recs own by (simp add: create_part_def owned_records_def)
  have none: "collisionReason (indexByName []) ?r w = None" "orphanOwnership [] = {}"
    by (simp_all add: collisionReason_def indexByName_def orphanOwnership_def)
  have add: "add_rec ?r \<in> set (cs_changes cs)" using none by (simp add: cs create_emit_def Let_def)
  have names: "\<forall>p \<in> set (cs_prereqs cs). pre_Name p \<in> {?n, ownershipNameFor ''A'' ?n}"
    using none by (simp add: cs create_emit_def nxrrset_def Let_def)
  have "lib_NewRR lib (rr_text (lib_Fqdn lib ?n) ttl t v) = lib_NewRR lib (l @ '' '')" for ttl t v
  proof -
    have "set (l @ '' '') \<inter> {quote, CHR 0x5C, CHR ''('', CHR '')''} = {}" using l(1) by (auto simp: quote_def)
    then have "lib_NewRR lib ((l @ '' '') @ '';'' @ y) = lib_NewRR lib (l @ '' '')" for y
      using assms(1) unfolding skips_comments_def by blast
    from this [of "''.'' @ z @ ''.'' @ '' '' @ Itoa ttl @ '' IN '' @ t @ '' '' @ v"] show ?thesis
      unfolding assms(2) rr_text_def by simp
  qed
  then have "\<forall>rr. lib_NewRR lib (l @ '' '') = Inr rr \<longrightarrow> changeRR lib (add_rec ?r) = Ok rr"
    by (simp add: changeRR_def recordToRR_def add_rec_def)
  moreover have "chg_Op (add_rec ?r) = ''add''" by (simp add: add_rec_def)
  ultimately have "\<exists>c \<in> set (cs_changes cs). chg_Op c = ''add'' \<and>
      (\<forall>rr. lib_NewRR lib (l @ '' '') = Inr rr \<longrightarrow> changeRR lib c = Ok rr)" using add by blast
  moreover have "under (normalizeName (ep_DNSName ?e)) z"
    using n by (simp add: line_endpoint_def under_def HasSuffix_iff)
  ultimately show ?thesis using names by blast
qed

section \<open>Properties\<close>

text \<open>
  C25. What is sent is what was asked for, and reads back: with a library that reads
  clean lines of a zone file as RFC 1035 says, every change set built for endpoints
  with clean names, data and owner labels becomes a message whose entries stand, one
  by one and in order, for its prerequisites and changes; and a transfer that returned
  one of the records sent would yield the record asked for, with the same name,
  type, data and TTL and, for a marker, the same claim of ownership byte for byte.
\<close>

theorem built_update_reads_back:
  assumes "reads_zone_lines lib" "knows_types lib"
    and "buildZoneChangeSet opts cache zone creates olds news dels = Ok cs" "length olds = length news"
    and "\<forall>e \<in> set creates \<union> set olds \<union> set news \<union> set dels. clean_endpoint opts e"
  shows "\<exists>m. BuildUpdateMsg lib zone (cs_prereqs cs) (cs_changes cs) = Ok m \<and>
    list_all2 (says_prereq lib) (cs_prereqs cs) (msg_Answer m) \<and> list_all2 says_change (cs_changes cs) (msg_Ns m)"
  using clean_built [OF assms(3,4,5)] by (intro sent_message [OF assms(1,2)]) (auto simp: clean_cs_def)

text \<open>A reader of clean zone lines, to show that the assumption on the library can be met.\<close>

definition cut :: "string \<Rightarrow> string \<times> string" where
  "cut s = (takeWhile (\<lambda>c. c \<noteq> CHR '' '') s, drop 1 (dropWhile (\<lambda>c. c \<noteq> CHR '' '') s))"

lemma cut_append: "CHR '' '' \<notin> set a \<Longrightarrow> cut (a @ CHR '' '' # b) = (a, b)"
  by (induction a) (auto simp: cut_def)

definition zone_types :: "string \<rightharpoonup> 16 word" where
  "zone_types = map_of [(''A'', 1), (''NS'', 2), (''CNAME'', 5), (''MX'', 15), (''TXT'', 16), (''AAAA'', 28)]"

definition zone_data :: "string \<Rightarrow> string \<Rightarrow> rdata" where
  "zone_data t v =
     (if t = ''TXT'' then RD_TXT [butlast (tl v)] else if t = ''CNAME'' then RD_CNAME v
      else if t = ''NS'' then RD_NS v
      else if t = ''MX'' then (case cut v of (p, h) \<Rightarrow> RD_MX (of_nat (digits_val p)) h)
      else RD_A (map (\<lambda>s. of_nat (digits_val s)) (Split v CHR ''.'')))"

definition zone_NewRR :: "string \<Rightarrow> string + RR option" where
  "zone_NewRR s =
     (case cut s of (n, s1) \<Rightarrow> case cut s1 of (ttl, s2) \<Rightarrow> case cut s2 of (_, s3) \<Rightarrow> case cut s3 of (t, v) \<Rightarrow>
        Inr (Some \<lparr>RR_hdr = \<lparr>hdr_Name = n, hdr_Rrtype = (case zone_types t of None \<Rightarrow> 0 | Some k \<Rightarrow> k),
                            hdr_Class = ClassINET, hdr_Ttl = of_nat (digits_val ttl)\<rparr>,
                   RR_data = zone_data t v\<rparr>))"

definition zone_lib :: dnslib where
  "zone_lib = \<lparr>lib_Fqdn = dotted, lib_NewRR = zone_NewRR, lib_StringToType = zone_types, lib_RcodeToString = Map.empty\<rparr>"

lemma Split_cut: "d \<notin> set a \<Longrightarrow> Split (a @ d # s) d = a # Split s d"
  by (induction a) auto

lemma Split_whole: "d \<notin> set a \<Longrightarrow> Split a d = [a]"
  by (induction a) auto

lemma digits_plain: "CHR ''.'' \<notin> set (nat_digits n)" "CHR '' '' \<notin> set (nat_digits n)"
  using nat_digits_isDigit [of n] by (auto simp: list_all_iff isDigit_def)

lemma zone_data_text: "data_text t v d \<Longrightarrow> zone_data t v = d"
proof (induction t v d rule: data_text.induct)
  case (4 t v p h)
  then show ?case
    by (auto simp: zone_data_def Itoa_def cut_append [OF digits_plain(2)])
next
  case (5 t v ip)
  then obtain a b c e where "ip = [a, b, c, e]" by (auto simp: length_Suc_conv eval_nat_numeral)
  with 5 show ?case
    by (auto simp: zone_data_def IP_String_def To4_def ipv4_string_def Split_cut Split_whole digits_plain)
qed (auto simp: zone_data_def)

lemma zone_lib_reads: "reads_zone_lines zone_lib"
proof -
  have "zone_NewRR (rr_text (n @ ''.'') ttl t v) =
      Inr (Some \<lparr>RR_hdr = \<lparr>hdr_Name = n @ ''.'', hdr_Rrtype = (case zone_types t of None \<Rightarrow> 0 | Some k \<Rightarrow> k),
                          hdr_Class = ClassINET, hdr_Ttl = word_of_int ttl\<rparr>, RR_data = d\<rparr>)"
    if h: "domain_name n" "0 \<le> ttl" "ttl < 2 ^ 31" "data_text t v d" for n ttl t v d
  proof -
    have n: "CHR '' '' \<notin> set (n @ ''.'')" using solid_dot [OF domain_name_solid [OF h(1)]] by (auto simp: solid_def isSpace_def)
    have t: "CHR '' '' \<notin> set t" using h(4) by (cases d) auto
    have i: "Itoa ttl = nat_digits (nat ttl)" using h(2) by (simp add: Itoa_def)
    have "CHR '' '' \<notin> set ''IN''" by simp
    note cuts = cut_append [OF n] cut_append [OF digits_plain(2)] cut_append [OF this] cut_append [OF t]
    have "rr_text (n @ ''.'') ttl t v =
        (n @ ''.'') @ CHR '' '' # nat_digits (nat ttl) @ CHR '' '' # ''IN'' @ CHR '' '' # t @ CHR '' '' # v"
      by (simp add: rr_text_def i)
    moreover have "(of_nat (digits_val (nat_digits (nat ttl))) :: 32 word) = word_of_int ttl"
      unfolding digits_val_nat_digits using h(2) by (rule of_nat_nat)
    ultimately show ?thesis
      unfolding zone_NewRR_def by (simp only: cuts prod.case zone_data_text [OF h(4)])
  qed
  note line = this
  have "lib_Fqdn zone_lib n = n @ ''.''" if "domain_name n" for n
    using domain_name_undotted [OF that] by (simp add: zone_lib_def dotted_def)
  moreover have "\<exists>rr. lib_NewRR zone_lib (rr_text (n @ ''.'') ttl t v) = Inr (Some rr) \<and> RR_data rr = d \<and>
      hdr_Name (RR_hdr rr) = n @ ''.'' \<and> hdr_Class (RR_hdr rr) = ClassINET \<and> hdr_Ttl (RR_hdr rr) = word_of_int ttl"
    if "domain_name n" "0 \<le> ttl" "ttl < 2 ^ 31" "data_text t v d" for n ttl t v d
    unfolding zone_lib_def dnslib.select_convs line [OF that] by simp
  ultimately show ?thesis unfolding reads_zone_lines_def by blast
qed

theorem built_update_reads_back_witness:
  "\<exists>cs m. buildZoneChangeSet two_zones (cache_with []) ''example.com'' [prod_endpoint ''x.example.com'' ''1.1.1.1''] [] [] [] = Ok cs \<and>
     BuildUpdateMsg zone_lib ''example.com'' (cs_prereqs cs) (cs_changes cs) = Ok m \<and>
     list_all2 says_change (cs_changes cs) (msg_Ns m) \<and> cs_changes cs \<noteq> []"
proof -
  let ?e = "prod_endpoint ''x.example.com'' ''1.1.1.1''"
  obtain cs where cs: "buildZoneChangeSet two_zones (cache_with []) ''example.com'' [?e] [] [] [] = Ok cs"
    by (simp add: buildZoneChangeSet_eq)
  have ip: "''1.1.1.1'' = IP_String [1, 1, 1, 1]" by code_simp
  then have d: "\<exists>d. data_text ''A'' ''1.1.1.1'' d" by (intro exI [of _ "RD_A [1, 1, 1, 1]"]) simp
  have n: "domain_name ''x.example.com''" "domain_name (ownershipNameFor ''A'' ''x.example.com'')" by code_simp+
  have "list_all text_char ''prod''" by code_simp
  then have clean: "clean_endpoint two_zones ?e"
    using n d by (simp add: clean_endpoint_def prod_endpoint_eval clean_record_def a_rec_def)
  have "knows_types zone_lib" by code_simp
  from built_update_reads_back [OF zone_lib_reads this cs] clean obtain m where
    "BuildUpdateMsg zone_lib ''example.com'' (cs_prereqs cs) (cs_changes cs) = Ok m"
    "list_all2 says_change (cs_changes cs) (msg_Ns m)" by auto
  moreover have "(case buildZoneChangeSet two_zones (cache_with []) ''example.com'' [?e] [] [] [] of
      Ok cs \<Rightarrow> cs_changes cs \<noteq> [] | _ \<Rightarrow> False)" by code_simp
  ultimately show ?thesis using cs by auto
qed

end
