(* ===== verification/Spec2Isabelle.thy ===== *)
theory Spec2Isabelle
  imports ZoneLocking ConcurrentListing Lifecycle Isolation ConcurrentService WireRecords
begin

text \<open>
  A model of \<open>ddo-rfc2136\<close>, a sidecar that gives external-dns a webhook provider
  for RFC 2136 servers: it lists records by zone transfer (AXFR) and changes them
  by dynamic update, for several operators sharing a zone.  Ownership lives in the
  zone: beside every data record of type \<open>X\<close> at name \<open>N\<close> stands a TXT record at
  \<open>ddo-<x>.N\<close> with the value \<open>owned-by=<owner>\<close> in quotes.

  The program's parts and how they interact.
  \<^item> \<open>cmd/webhook/main.go\<close> loads the configuration, prepares the DNS client,
    registers the routes and serves until it is told to stop.  Theories \<open>Webhook\<close>
    (start-up), \<open>Service\<close> (the parts together) and \<open>Lifecycle\<close> (signal and shutdown).
  \<^item> \<open>internal/config/config.go\<close> reads the environment.  Theory \<open>Config\<close>, with the host
    pattern in \<open>HostNames\<close>, on top of \<open>GoBase64\<close>, \<open>GoNet\<close>, \<open>GoDuration\<close>, \<open>GoRegexp\<close>.
  \<^item> \<open>internal/api\<close> decodes requests, calls the provider, encodes replies.  Theories
    \<open>WebhookApi\<close> (handlers, routes) and \<open>WireTypes\<close> (structs and their JSON), on top of
    \<open>GoJson\<close> and \<open>GoUtf8\<close>.
  \<^item> \<open>internal/orchestrator/orchestrator.go\<close> is the provider and the core: routing
    (\<open>Ownership\<close>, \<open>Routing\<close>), endpoints and records (\<open>Endpoints\<close>, \<open>ZoneView\<close>,
    \<open>Listing\<close>), change sets (\<open>ChangeSet\<close>), the walks over the domain controllers
    (\<open>Failover\<close>), the two entry points (\<open>Orchestration\<close>), the plan of a request and the
    state over a run of requests (\<open>Applying\<close>).
  \<^item> \<open>internal/state\<close> holds its collaborators: cache, pins and mutexes
    (\<open>ZoneState\<close>), the circuit breaker (\<open>Breaker\<close>), the Kerberos health
    (\<open>KerberosHealth\<close>).
  \<^item> \<open>internal/dnsop\<close> is the DNS side: UPDATE messages and rcodes (\<open>DnsUpdate\<close>),
    transfers (\<open>DnsAxfr\<close>), the GSS and TSIG clients (\<open>DnsClient\<close>).
  \<^item> \<open>internal/kerberos\<close> acquires and refreshes the ticket.  Theory \<open>KerberosRefresh\<close>.
  \<^item> Requests in flight at the same time: \<open>Goroutines\<close> writes the two entry points
    again as programs over shared state, \<open>Interleavings\<close> runs any number of them,
    \<open>ConcurrentListing\<close> and \<open>ConcurrentUpdates\<close> say what a listing answers and what is
    sent, \<open>Isolation\<close> what that does to the zone, \<open>ConcurrentService\<close> puts the HTTP
    handlers and the DNS clients on either side of them; \<open>ZoneLocking\<close> is the lock
    protocol on its own.
  \<^item> The text in which \<open>internal/dnsop\<close> hands every record to \<open>dns.NewRR\<close>, and what a
    reader of zone lines makes of it: \<open>WireRecords\<close>.

  How state and operations correspond.  A struct is a record whose fields carry
  the source's names behind a prefix (\<open>Options.MinTTL\<close> is \<open>opt_MinTTL\<close>); a method is a
  function of the same name that takes and returns the state; \<open>(value, error)\<close> is the
  type \<open>go\<close> of \<open>Prelude\<close>, with a third constructor for run-time panics; a Go map is a
  HOL map, or an association list where the program ranges over it; a nil pointer
  is \<open>None\<close>.  The functions of the orchestrator run a request alone; in \<open>Goroutines\<close> a
  body under a mutex of \<open>internal/state\<close>, a message, a poll of the context, a lock and an
  unlock are one step each.  What is outside the program answers through a
  parameter: the record \<open>world\<close> of \<open>Failover\<close> (clock, context, DNS client, the order of
  ranging over a map) gives the n-th answer to the n-th question and no assumption
  is made about it; \<open>None\<close> for an UPDATE means that the client panicked.  \<open>Service\<close>
  puts the modelled clients in the place of the world's DNS client; what remains is
  \<open>net\<close>, \<open>dnslib\<close>, \<open>kworld\<close> and \<open>host\<close>: the transport, \<open>miekg/dns\<close>, the processes and
  the environment.  Time and durations are nanoseconds as \<open>int\<close>; where 64-bit
  arithmetic can overflow, \<open>wrap64\<close> or saturation is written out.  Strings are byte strings; request and
  response bodies are bytes, read and written through the models of \<open>encoding/json\<close>
  and \<open>unicode/utf8\<close>; case mapping and white space of names are ASCII.

  What the lemmas show.
  \<^item> Ownership (\<open>ChangeSet\<close>, \<open>Listing\<close>, \<open>Ownership\<close>, \<open>ZoneView\<close>, \<open>Isolation\<close>): with the
    meaning RFC 2136 gives prerequisites, an applied UPDATE deletes only under the
    requester's marker and creates only where nothing was, so that whatever a
    server applies of what any interleaving of requests sent, the records of other
    owners stay; the listing is sound and complete for the markers, and a created
    record is listed under its creator.  Two exceptions are proved as they are: an
    orphan marker keeps its old owner, and an update without old records is not
    guarded.  These theorems speak of the records handed to the DNS client.
  \<^item> Records on the wire (\<open>WireRecords\<close>): for names a zone line can carry, the message
    says what was handed over, so that the above holds of what the server reads.
    For a name with a semicolon it need not: the reader takes the rest of the
    printed line for a comment, and the next characters for the record.
  \<^item> Routing and data (\<open>Routing\<close>, \<open>Endpoints\<close>, \<open>DnsAxfr\<close>): longest match on label
    boundaries, canonical data, the TTL floor, read-back of host targets.
  \<^item> Failover (\<open>Breaker\<close>, \<open>Failover\<close>, \<open>Orchestration\<close>, \<open>Applying\<close>): the breaker implements
    an abstract circuit per DC; a listing is a fresh view of the cache; a request
    runs the plan fixed at its start, each zone's share of it being read off the
    request; a server's verdict ends the walk, and the last answer decides.
  \<^item> Concurrency (\<open>Interleavings\<close>, \<open>ConcurrentListing\<close>, \<open>ConcurrentUpdates\<close>,
    \<open>ConcurrentService\<close>, \<open>ZoneLocking\<close>): an undisturbed program does what the function does; every
    schedule ends with every request answered; UPDATEs of a zone never overlap; the
    state's invariant holds throughout; a listing is made of its own transfers;
    every UPDATE is a change set of a posted request, down to the message on the
    wire; every HTTP request that arrives gets its one reply.
  \<^item> DNS clients (\<open>DnsUpdate\<close>, \<open>DnsAxfr\<close>, \<open>DnsClient\<close>, \<open>Webhook\<close>): the shape of the
    message, all-or-nothing transfers, the verdict on an exchange, release of
    security contexts.
  \<^item> The wire (\<open>GoUtf8\<close>, \<open>GoJson\<close>, \<open>WireTypes\<close>, \<open>WebhookApi\<close>): what is printed is read back,
    a listed record can be posted as a deletion, the provider gets typed data.
  \<^item> The process (\<open>Config\<close>, \<open>HostNames\<close>, \<open>KerberosRefresh\<close>, \<open>Lifecycle\<close>, \<open>Service\<close>): a
    configuration that loads is valid, timeouts, the keytab file, refresh before
    expiry, \<open>/healthz\<close> after any run of the refresher, messages as configured, exit
    only when told.

  Interfaces are locales, each interpreted on the model: \<open>marker_codec\<close> (\<open>Ownership\<close>),
  \<open>kv_store\<close> and \<open>droppable_store\<close> (\<open>ZoneState\<close>), \<open>dc_breaker\<close> (\<open>Breaker\<close>), \<open>dns_client\<close>
  (\<open>DnsClient\<close>, for both clients, and \<open>Webhook\<close>, for the one in use) and
  \<open>webhook_provider\<close> (\<open>WebhookApi\<close>, for the orchestrator).

  Bounds and fuel.  There is no fuel: loops are structural recursion over a list or a
  string, or recursion with a termination proof by the length of what is left to
  read (\<open>utf8_chunks\<close>, \<open>string_lit\<close>, \<open>scan\<close>, \<open>duration_loop\<close>, \<open>fold_name\<close>).  A request's
  program is a datatype, so every run of it is finite; what may go on for ever is a
  step relation (\<open>run_step\<close> for the refresher, \<open>sys_next\<close> for the arriving and running
  requests, \<open>life\<close> for the process).

  Not modelled: logging; the sockets, the HTTP headers set by \<open>net/http\<close> and its
  read-header timeout; non-ASCII case mapping; the Go memory model below the mutexes
  of the state types; the breaker's \<open>SetClock\<close>, which only tests call; and the
  interface \<open>Executor\<close> as such, of which the program has one implementation.
\<close>

end
